(* ===== verification/Prelude.thy ===== *)
theory Prelude
  imports Main "HOL-Library.AList" "HOL-Library.Multiset"
begin

text \<open>
  Shared vocabulary of the development: the error-or-value type of a Go call, Go maps as
  association lists with distinct keys, instants and durations of package \<open>time\<close>, and the
  generic lemmas the components share.
\<close>

section \<open>Collections of facts\<close>

named_theorems go_map \<comment> \<open>laws of Go maps: read after write, after delete, after a sweep\<close>
named_theorems go_frame \<comment> \<open>operations that leave a field of the state alone\<close>

section \<open>Instants and durations\<close>

text \<open>
  A \<open>time.Time\<close> is the number of nanoseconds since the Unix epoch and a \<open>time.Duration\<close> a
  number of nanoseconds. \<open>Time.Sub\<close> saturates at the bounds of \<open>int64\<close>;
  \<open>Time.Unix\<close> drops the nanoseconds, rounding towards minus infinity.
\<close>

type_synonym time = int
type_synonym duration = int

definition go_second :: duration where
  "go_second = 1000000000"

definition go_minute :: duration where
  "go_minute = 60 * go_second"

definition go_hour :: duration where
  "go_hour = 60 * go_minute"

definition max_duration :: duration where
  "max_duration = 2 ^ 63 - 1"

definition min_duration :: duration where
  "min_duration = - (2 ^ 63)"

definition time_sub :: "time \<Rightarrow> time \<Rightarrow> duration" where
  "time_sub t u = max min_duration (min max_duration (t - u))"

definition unix_seconds :: "time \<Rightarrow> int" where
  "unix_seconds t = t div go_second"

definition unix_time :: "int \<Rightarrow> time" where
  "unix_time s = s * go_second"

text \<open>Go's \<open>int\<close> and \<open>int64\<close> have 64 bits: what the machine keeps of an unbounded number.\<close>

definition go_int :: "int \<Rightarrow> int" where
  "go_int n = (n + 2 ^ 63) mod 2 ^ 64 - 2 ^ 63"

definition int_range :: "int \<Rightarrow> bool" where
  "int_range n \<longleftrightarrow> - (2 ^ 63) \<le> n \<and> n < 2 ^ 63"

lemma go_int_id: "int_range n \<Longrightarrow> go_int n = n"
  by (simp add: go_int_def int_range_def)

lemma go_int_range [simp]: "int_range (go_int n)"
proof -
  have "0 \<le> (n + 2 ^ 63) mod 2 ^ 64" "(n + 2 ^ 63) mod 2 ^ 64 < 2 ^ 64" by simp_all
  then show ?thesis by (simp add: go_int_def int_range_def)
qed

lemma unix_seconds_unix_time [simp]: "unix_seconds (unix_time s) = s"
  by (simp add: unix_seconds_def unix_time_def go_second_def)

lemma unix_time_unix_seconds_le: "unix_time (unix_seconds t) \<le> t"
  by (simp add: unix_seconds_def unix_time_def go_second_def)

lemma unix_time_unix_seconds_gt: "t < unix_time (unix_seconds t) + go_second"
  by (simp add: unix_seconds_def unix_time_def go_second_def)

lemma time_sub_ge_iff:
  "min_duration < d \<Longrightarrow> d \<le> max_duration \<Longrightarrow> d \<le> time_sub t u \<longleftrightarrow> u + d \<le> t"
  by (auto simp: time_sub_def)

section \<open>Error-or-value results\<close>

text \<open>
  A Go function returning \<open>(T, error)\<close> is a value of \<open>'e + 'a\<close>: \<open>Inl\<close> the error,
  \<open>Inr\<close> the value.
\<close>

fun is_ok :: "'e + 'a \<Rightarrow> bool" where
  "is_ok (Inl _) = False"
| "is_ok (Inr _) = True"

fun bindE :: "'e + 'a \<Rightarrow> ('a \<Rightarrow> 'e + 'b) \<Rightarrow> 'e + 'b" where
  "bindE (Inl e) _ = Inl e"
| "bindE (Inr x) f = f x"

fun map_err :: "('e \<Rightarrow> 'f) \<Rightarrow> 'e + 'a \<Rightarrow> 'f + 'a" where
  "map_err f (Inl e) = Inl (f e)"
| "map_err f (Inr x) = Inr x"

fun foldE :: "('a \<Rightarrow> 's \<Rightarrow> 'e + 's) \<Rightarrow> 'a list \<Rightarrow> 's \<Rightarrow> 'e + 's" where
  "foldE f [] s = Inr s"
| "foldE f (x # xs) s = bindE (f x s) (foldE f xs)"

lemma foldE_invariant:
  assumes "\<And>x s s'. x \<in> set xs \<Longrightarrow> P s \<Longrightarrow> f x s = Inr s' \<Longrightarrow> P s'"
    and "P s" and "foldE f xs s = Inr s'"
  shows "P s'"
  using assms
proof (induction xs arbitrary: s)
  case (Cons x xs)
  then obtain t where "f x s = Inr t" "foldE f xs t = Inr s'" by (cases "f x s") auto
  moreover from this Cons.prems have "P t" by auto
  ultimately show ?case using Cons by auto
qed simp

lemma is_ok_iff: "is_ok r \<longleftrightarrow> (\<exists>x. r = Inr x)"
  by (cases r) auto

lemma bindE_eq_Inr: "bindE r f = Inr y \<longleftrightarrow> (\<exists>x. r = Inr x \<and> f x = Inr y)"
  by (cases r) auto

lemma bindE_eq_Inl: "bindE r f = Inl e \<longleftrightarrow> r = Inl e \<or> (\<exists>x. r = Inr x \<and> f x = Inl e)"
  by (cases r) auto

lemma map_err_eq_Inr [simp]: "map_err f r = Inr y \<longleftrightarrow> r = Inr y"
  by (cases r) auto

lemma map_err_eq_Inl: "map_err f r = Inl e \<longleftrightarrow> (\<exists>e'. r = Inl e' \<and> e = f e')"
  by (cases r) auto

section \<open>Go maps\<close>

text \<open>
  A Go map is an association list with distinct keys. \<open>map_of m k\<close> reads it,
  \<open>AList.update k v m\<close> is the assignment \<open>m[k] = v\<close> and \<open>AList.delete k m\<close> is
  \<open>delete(m, k)\<close>. Go ranges over a map in an unspecified order: a loop over \<open>m\<close> is
  modelled on the order of the list, and what it computes is shown not to depend on it.
\<close>

type_synonym ('k, 'v) gomap = "('k \<times> 'v) list"

definition gomap_ok :: "('k, 'v) gomap \<Rightarrow> bool" where
  "gomap_ok m \<longleftrightarrow> distinct (map fst m)"

definition gomap_filter :: "('k \<Rightarrow> 'v \<Rightarrow> bool) \<Rightarrow> ('k, 'v) gomap \<Rightarrow> ('k, 'v) gomap" where
  "gomap_filter p m = filter (\<lambda>(k, v). p k v) m"

lemma gomap_ok_Nil [simp]: "gomap_ok []"
  by (simp add: gomap_ok_def)

lemma gomap_ok_update [simp]: "gomap_ok m \<Longrightarrow> gomap_ok (AList.update k v m)"
  by (simp add: gomap_ok_def distinct_update)

lemma gomap_ok_delete [simp]: "gomap_ok m \<Longrightarrow> gomap_ok (AList.delete k m)"
  by (simp add: gomap_ok_def distinct_delete)

lemma gomap_ok_filter [simp]: "gomap_ok m \<Longrightarrow> gomap_ok (gomap_filter p m)"
  by (auto simp: gomap_ok_def gomap_filter_def distinct_map inj_on_def)

lemma gomap_get_update [go_map]: "map_of (AList.update k v m) k' = (if k' = k then Some v else map_of m k')"
  by (simp add: update_conv')

lemma gomap_get_delete [go_map]: "map_of (AList.delete k m) k' = (if k' = k then None else map_of m k')"
  by (simp add: delete_conv')

lemma gomap_dom_update [go_map]: "dom (map_of (AList.update k v m)) = insert k (dom (map_of m))"
  by (auto simp: update_conv' split: if_splits)

lemma gomap_in_set: "gomap_ok m \<Longrightarrow> map_of m k = Some v \<longleftrightarrow> (k, v) \<in> set m"
  by (simp add: gomap_ok_def)

lemma gomap_get_filter [go_map]:
  assumes "gomap_ok m"
  shows "map_of (gomap_filter p m) k =
    (case map_of m k of None \<Rightarrow> None | Some v \<Rightarrow> if p k v then Some v else None)"
  using assms
proof (induction m)
  case Nil
  then show ?case by (simp add: gomap_filter_def)
next
  case (Cons kv m)
  obtain a b where kv: "kv = (a, b)" by (cases kv)
  from Cons.prems kv have fresh: "a \<notin> fst ` set m" and ok: "gomap_ok m"
    by (auto simp: gomap_ok_def)
  from fresh have "map_of m a = None" by (simp add: map_of_eq_None_iff)
  with Cons.IH [OF ok] show ?case
    by (auto simp: gomap_filter_def kv split: option.splits)
qed

lemma length_gomap_filter_le: "length (gomap_filter p m) \<le> length m"
  by (simp add: gomap_filter_def)

lemma gomap_filter_cong:
  "(\<And>k v. (k, v) \<in> set m \<Longrightarrow> p k v = q k v) \<Longrightarrow> gomap_filter p m = gomap_filter q m"
  by (auto simp: gomap_filter_def intro!: filter_cong)

lemma gomap_filter_filter:
  "gomap_filter p (gomap_filter q m) = gomap_filter (\<lambda>k v. q k v \<and> p k v) m"
  by (auto simp: gomap_filter_def intro!: filter_cong)

lemma gomap_card: "gomap_ok m \<Longrightarrow> card (dom (map_of m)) = length m"
  by (simp add: gomap_ok_def dom_map_of_conv_image_fst distinct_card flip: set_map)

text \<open>Two lists that hold the same bindings of distinct keys are the same map.\<close>

lemma gomap_perm:
  assumes "mset m = mset m'" and "gomap_ok m"
  shows "gomap_ok m' \<and> map_of m = map_of m'"
proof -
  have "mset (map fst m) = mset (map fst m')"
    by (simp only: mset_map assms(1))
  from mset_eq_imp_distinct_iff [OF this] have ok: "gomap_ok m'"
    using assms(2) by (simp add: gomap_ok_def)
  moreover have "map_of m k = map_of m' k" for k
    using gomap_in_set [OF assms(2)] gomap_in_set [OF ok] mset_eq_setD [OF assms(1)]
    by (metis not_None_eq)
  ultimately show ?thesis by auto
qed

text \<open>
  The loop \<open>for k, v := range m { if dead(v) { delete(m, k) } }\<close>. The order of the range is
  any list \<open>xs\<close> of the bindings of \<open>m\<close>; the outcome is the filter whichever it is.
\<close>

definition delete_if :: "('k \<Rightarrow> 'v \<Rightarrow> bool) \<Rightarrow> ('k \<times> 'v) list \<Rightarrow> ('k, 'v) gomap \<Rightarrow> ('k, 'v) gomap" where
  "delete_if p xs m = fold (\<lambda>(k, v) m. if p k v then AList.delete k m else m) xs m"

lemma delete_if_filter:
  "delete_if p xs m = filter (\<lambda>(k, v). \<not> (\<exists>v'. (k, v') \<in> set xs \<and> p k v')) m"
proof (induction xs arbitrary: m)
  case Nil
  then show ?case by (simp add: delete_if_def)
next
  case (Cons x xs)
  obtain a b where x: "x = (a, b)" by (cases x)
  have step: "delete_if p (x # xs) m = delete_if p xs (if p a b then AList.delete a m else m)"
    by (simp add: delete_if_def x)
  show ?case
    unfolding step Cons.IH by (auto simp: x AList.delete_eq intro!: filter_cong)
qed

lemma delete_if_any_order:
  assumes "gomap_ok m" and "set xs = set m"
  shows "delete_if p xs m = gomap_filter (\<lambda>k v. \<not> p k v) m"
proof -
  have "(\<exists>v'. (k, v') \<in> set xs \<and> p k v') \<longleftrightarrow> p k v" if "(k, v) \<in> set m" for k v
    using that assms by (auto simp flip: gomap_in_set [OF assms(1)])
  then show ?thesis
    unfolding delete_if_filter gomap_filter_def by (intro filter_cong) auto
qed

section \<open>Stores whose entries expire\<close>

text \<open>
  The nonce store, the tenant store and the rate limiter all hold entries that die with time
  and a \<open>Sweep\<close> that drops the dead ones. What they share: an entry that is dead stays
  dead, and a sweep keeps exactly the entries that are alive.
\<close>

locale expiring_store =
  fixes entries :: "'s \<Rightarrow> ('k, 'e) gomap"
    and dead :: "'s \<Rightarrow> time \<Rightarrow> 'e \<Rightarrow> bool"
    and sweep :: "time \<Rightarrow> 's \<Rightarrow> 's"
    and invar :: "'s \<Rightarrow> bool"
  assumes entries_ok: "invar s \<Longrightarrow> gomap_ok (entries s)"
    and sweep_entries: "invar s \<Longrightarrow>
      entries (sweep now s) = gomap_filter (\<lambda>k e. \<not> dead s now e) (entries s)"
    and sweep_dead: "dead (sweep now s) = dead s"
    and sweep_invar: "invar s \<Longrightarrow> invar (sweep now s)"
    and dead_mono: "invar s \<Longrightarrow> dead s now e \<Longrightarrow> now \<le> later \<Longrightarrow> dead s later e"
begin

lemma sweep_lookup:
  "invar s \<Longrightarrow> map_of (entries (sweep now s)) k =
     (case map_of (entries s) k of None \<Rightarrow> None
      | Some e \<Rightarrow> if dead s now e then None else Some e)"
  by (auto simp: sweep_entries gomap_get_filter entries_ok split: option.splits)

lemma sweep_keeps_live:
  "invar s \<Longrightarrow> map_of (entries s) k = Some e \<Longrightarrow> \<not> dead s now e \<Longrightarrow>
     map_of (entries (sweep now s)) k = Some e"
  by (simp add: sweep_lookup)

lemma sweep_drops_dead:
  "invar s \<Longrightarrow> map_of (entries (sweep now s)) k = Some e \<Longrightarrow>
     map_of (entries s) k = Some e \<and> \<not> dead s now e"
  by (auto simp: sweep_lookup split: option.splits if_splits)

text \<open>A sweep at an earlier instant changes nothing a later sweep would keep.\<close>

lemma sweep_sweep:
  assumes "invar s" and "now \<le> later"
  shows "entries (sweep later (sweep now s)) = entries (sweep later s)"
proof -
  have "entries (sweep later (sweep now s)) =
      gomap_filter (\<lambda>k e. \<not> dead s now e \<and> \<not> dead s later e) (entries s)"
    using assms by (simp add: sweep_entries sweep_invar sweep_dead gomap_filter_filter)
  also have "\<dots> = gomap_filter (\<lambda>k e. \<not> dead s later e) (entries s)"
    using dead_mono [OF assms(1) _ assms(2)] by (intro gomap_filter_cong) auto
  finally show ?thesis using assms by (simp add: sweep_entries)
qed

lemma sweep_shrinks: "invar s \<Longrightarrow> length (entries (sweep now s)) \<le> length (entries s)"
  by (simp add: sweep_entries length_gomap_filter_le)

end

section \<open>Runs and single-use tokens\<close>

text \<open>
  A run of a component is a fold of its step over a list of events. \<open>hits f step n es s\<close>
  counts the events of the run at which \<open>f\<close> reports the token \<open>n\<close>.
\<close>

fun run :: "('ev \<Rightarrow> 's \<Rightarrow> 's) \<Rightarrow> 'ev list \<Rightarrow> 's \<Rightarrow> 's" where
  "run step [] s = s"
| "run step (ev # es) s = run step es (step ev s)"

fun hits :: "('ev \<Rightarrow> 's \<Rightarrow> 'n option) \<Rightarrow> ('ev \<Rightarrow> 's \<Rightarrow> 's) \<Rightarrow> 'n \<Rightarrow> 'ev list \<Rightarrow> 's \<Rightarrow> nat" where
  "hits f step n [] s = 0"
| "hits f step n (ev # es) s = (if f ev s = Some n then 1 else 0) + hits f step n es (step ev s)"

lemma run_append [simp]: "run step (es @ fs) s = run step fs (run step es s)"
  by (induction es arbitrary: s) auto

lemma run_invariant:
  assumes "\<And>ev s. P s \<Longrightarrow> P (step ev s)" and "P s"
  shows "P (run step es s)"
  using assms(2) by (induction es arbitrary: s) (auto intro: assms(1))

text \<open>
  The contract of a store of single-use tokens: a token is redeemed only while it is pending,
  redeeming it takes it away, and nothing but issuing it makes it pending.
\<close>

locale single_use =
  fixes pending :: "'s \<Rightarrow> 'n \<Rightarrow> bool"
    and step :: "'ev \<Rightarrow> 's \<Rightarrow> 's"
    and issues :: "'ev \<Rightarrow> 's \<Rightarrow> 'n option"
    and redeems :: "'ev \<Rightarrow> 's \<Rightarrow> 'n option"
  assumes redeem_pending: "redeems ev s = Some n \<Longrightarrow> pending s n"
    and redeem_clears: "redeems ev s = Some n \<Longrightarrow> \<not> pending (step ev s) n"
    and pending_origin: "pending (step ev s) n \<Longrightarrow> pending s n \<or> issues ev s = Some n"
begin

lemma redeemed_le_issued:
  "hits redeems step n es s + (if pending (run step es s) n then 1 else 0)
     \<le> hits issues step n es s + (if pending s n then 1 else 0)"
proof (induction es arbitrary: s)
  case Nil
  then show ?case by simp
next
  case (Cons ev es)
  show ?case
    using Cons.IH [of "step ev s"] redeem_pending [of ev s n] redeem_clears [of ev s n]
      pending_origin [of ev s n]
    by (auto split: if_splits)
qed

end

section \<open>A gateway to tools\<close>

text \<open>
  What a caller of the gateway relies on: the catalog is fixed, a call sends nothing but its own
  name, nothing at all when the name is not in the catalog, and at most \<open>attempts n\<close> times.
\<close>

locale tool_gateway =
  fixes invoke :: "string \<Rightarrow> 'a \<Rightarrow> 'g \<Rightarrow> 'g"
    and catalog :: "'g \<Rightarrow> string set"
    and sent :: "'g \<Rightarrow> string list"
    and attempts :: "string \<Rightarrow> nat"
  assumes catalog_fixed: "catalog (invoke n a g) = catalog g"
    and sends_itself: "\<exists>k. sent (invoke n a g) = sent g @ replicate k n
      \<and> k \<le> (if n \<in> catalog g then attempts n else 0)"
begin

lemma run_catalog: "catalog (run (\<lambda>(n, a). invoke n a) cs g) = catalog g"
  by (induction cs arbitrary: g) (auto simp: catalog_fixed)

lemma run_sent:
  "\<exists>ns. sent (run (\<lambda>(n, a). invoke n a) cs g) = sent g @ ns \<and> set ns \<subseteq> catalog g
     \<and> (\<forall>m. count_list ns m \<le> attempts m * count_list (map fst cs) m)"
proof (induction cs arbitrary: g)
  case Nil
  show ?case by (intro exI [of _ "[]"]) simp
next
  case (Cons c cs)
  obtain n a where c: "c = (n, a)" by (cases c)
  obtain ns where ns: "sent (run (\<lambda>(n, a). invoke n a) cs (invoke n a g)) = sent (invoke n a g) @ ns"
      "set ns \<subseteq> catalog g" "\<And>m. count_list ns m \<le> attempts m * count_list (map fst cs) m"
    using Cons.IH [of "invoke n a g"] by (auto simp: catalog_fixed)
  obtain k where k: "sent (invoke n a g) = sent g @ replicate k n"
      "k \<le> (if n \<in> catalog g then attempts n else 0)"
    using sends_itself by blast
  have count: "count_list (replicate k n) m = (if m = n then k else 0)" for m
    by (induction k) auto
  have "count_list (replicate k n @ ns) m \<le> attempts m * count_list (map fst (c # cs)) m" for m
    using ns(3) [of m] k(2) by (auto simp: c count split: if_splits)
  moreover have "set (replicate k n) \<subseteq> catalog g"
    using k(2) by (auto split: if_splits)
  ultimately show ?case
    using ns(1,2) k(1) by (intro exI [of _ "replicate k n @ ns"]) (auto simp: c)
qed

text \<open>Nothing is sent that was not asked for.\<close>

lemma run_sent_names:
  "\<exists>ns. sent (run (\<lambda>(n, a). invoke n a) cs g) = sent g @ ns \<and> set ns \<subseteq> catalog g \<inter> set (map fst cs)"
proof -
  obtain ns where ns: "sent (run (\<lambda>(n, a). invoke n a) cs g) = sent g @ ns" "set ns \<subseteq> catalog g"
      "\<And>m. count_list ns m \<le> attempts m * count_list (map fst cs) m"
    using run_sent [of cs g] by blast
  have "n \<in> set (map fst cs)" if "n \<in> set ns" for n
  proof -
    have "0 < count_list ns n" using that by (metis count_list_0_iff neq0_conv)
    with ns(3) [of n] show ?thesis
      by (metis count_list_0_iff less_le_trans mult_0_right not_less_zero)
  qed
  with ns(1,2) show ?thesis by blast
qed

end

end
