(* ===== verification/Go_Strings.thy ===== *)
theory Go_Strings
  imports Prelude
begin

text \<open>
  What the program uses of the packages \<open>strings\<close>, \<open>strconv\<close>, \<open>encoding/hex\<close> and of
  the verb \<open>%d\<close>. A Go string and a \<open>[]byte\<close> are both a HOL \<open>string\<close>, one
  \<open>char\<close> per byte.
\<close>

section \<open>Prefixes, suffixes, substrings\<close>

definition has_prefix :: "string \<Rightarrow> string \<Rightarrow> bool" where
  "has_prefix s p \<longleftrightarrow> take (length p) s = p"

definition has_suffix :: "string \<Rightarrow> string \<Rightarrow> bool" where
  "has_suffix s p \<longleftrightarrow> length p \<le> length s \<and> drop (length s - length p) s = p"

fun contains :: "string \<Rightarrow> string \<Rightarrow> bool" where
  "contains [] p = (p = [])"
| "contains (c # cs) p = (has_prefix (c # cs) p \<or> contains cs p)"

definition trim_prefix :: "string \<Rightarrow> string \<Rightarrow> string" where
  "trim_prefix s p = (if has_prefix s p then drop (length p) s else s)"

definition trim_suffix :: "string \<Rightarrow> string \<Rightarrow> string" where
  "trim_suffix s p = (if has_suffix s p then take (length s - length p) s else s)"

text \<open>\<open>strings.TrimRight(s, cutset)\<close> for a cutset of one ASCII byte.\<close>

definition trim_right_byte :: "string \<Rightarrow> char \<Rightarrow> string" where
  "trim_right_byte s c = rev (dropWhile (\<lambda>x. x = c) (rev s))"

lemma has_prefix_iff: "has_prefix s p \<longleftrightarrow> (\<exists>t. s = p @ t)"
  unfolding has_prefix_def by (metis append_eq_conv_conj append_take_drop_id)

lemma has_prefix_append [simp]: "has_prefix (p @ t) p"
  by (simp add: has_prefix_def)

lemma has_prefix_Nil [simp]: "has_prefix s []"
  by (simp add: has_prefix_def)

lemma has_suffix_iff: "has_suffix s p \<longleftrightarrow> (\<exists>t. s = t @ p)"
  unfolding has_suffix_def
  by (metis append_eq_conv_conj append_take_drop_id diff_add_inverse2 le_add2 length_append)

lemma contains_iff: "contains s p \<longleftrightarrow> (\<exists>u v. s = u @ p @ v)"
proof (induction s)
  case Nil
  then show ?case by auto
next
  case (Cons c cs)
  have "(\<exists>u v. c # cs = u @ p @ v) \<longleftrightarrow> (\<exists>v. c # cs = p @ v) \<or> (\<exists>u v. cs = u @ p @ v)"
    by (metis append_Cons append_Nil append_eq_Cons_conv)
  with Cons.IH show ?case by (simp add: has_prefix_iff)
qed

lemma trim_prefix_append [simp]: "trim_prefix (p @ s) p = s"
  by (simp add: trim_prefix_def)

lemma trim_suffix_append [simp]: "trim_suffix (s @ p) p = s"
  by (simp add: trim_suffix_def has_suffix_def)

section \<open>White space\<close>

text \<open>
  The UTF-8 encodings of the runes \<open>unicode.IsSpace\<close> accepts. Trimming decodes one rune at
  an end and drops it while it is a space, and a valid encoding is decoded as its rune from
  either side, so comparing with these byte sequences decides the same.
\<close>

definition space_runes :: "string list" where
  "space_runes =
    [[CHR 0x09], [CHR 0x0A], [CHR 0x0B], [CHR 0x0C], [CHR 0x0D], [CHR 0x20],
     [CHR 0xC2, CHR 0x85], [CHR 0xC2, CHR 0xA0], [CHR 0xE1, CHR 0x9A, CHR 0x80],
     [CHR 0xE2, CHR 0x80, CHR 0x80], [CHR 0xE2, CHR 0x80, CHR 0x81],
     [CHR 0xE2, CHR 0x80, CHR 0x82], [CHR 0xE2, CHR 0x80, CHR 0x83],
     [CHR 0xE2, CHR 0x80, CHR 0x84], [CHR 0xE2, CHR 0x80, CHR 0x85],
     [CHR 0xE2, CHR 0x80, CHR 0x86], [CHR 0xE2, CHR 0x80, CHR 0x87],
     [CHR 0xE2, CHR 0x80, CHR 0x88], [CHR 0xE2, CHR 0x80, CHR 0x89],
     [CHR 0xE2, CHR 0x80, CHR 0x8A], [CHR 0xE2, CHR 0x80, CHR 0xA8],
     [CHR 0xE2, CHR 0x80, CHR 0xA9], [CHR 0xE2, CHR 0x80, CHR 0xAF],
     [CHR 0xE2, CHR 0x81, CHR 0x9F], [CHR 0xE3, CHR 0x80, CHR 0x80]]"

text \<open>\<open>strip_runes rs s\<close> drops runes of \<open>rs\<close> from the front of \<open>s\<close> as long as it can.\<close>

fun strip_one :: "string list \<Rightarrow> string \<Rightarrow> string" where
  "strip_one [] s = s"
| "strip_one (r # rs) s = (if has_prefix s r then drop (length r) s else strip_one rs s)"

lemma strip_one_le: "length (strip_one rs s) \<le> length s"
  by (induction rs) auto

function strip_runes :: "string list \<Rightarrow> string \<Rightarrow> string" where
  "strip_runes rs s =
     (let t = strip_one rs s in if length t < length s then strip_runes rs t else s)"
  by pat_completeness auto
termination
  by (relation "measure (\<lambda>(rs, s). length s)") auto

declare strip_runes.simps [simp del]

definition trim_left_space :: "string \<Rightarrow> string" where
  "trim_left_space s = strip_runes space_runes s"

definition trim_right_space :: "string \<Rightarrow> string" where
  "trim_right_space s = rev (strip_runes (map rev space_runes) (rev s))"

definition trim_space :: "string \<Rightarrow> string" where
  "trim_space s = trim_right_space (trim_left_space s)"

lemma strip_one_eq:
  "(\<forall>r \<in> set rs. r \<noteq> [] \<longrightarrow> \<not> has_prefix s r) \<Longrightarrow> strip_one rs s = s"
  by (induction rs) auto

lemma strip_runes_id:
  "(\<forall>r \<in> set rs. r \<noteq> [] \<longrightarrow> \<not> has_prefix s r) \<Longrightarrow> strip_runes rs s = s"
  by (subst strip_runes.simps) (simp add: strip_one_eq)

lemma strip_runes_Nil [simp]: "strip_runes rs [] = []"
  by (subst strip_runes.simps) (simp add: Let_def)

lemma strip_runes_suffix: "\<exists>u. s = u @ strip_runes rs s"
proof (induction rs s rule: strip_runes.induct)
  case (1 rs s)
  have one: "\<exists>u. s = u @ strip_one rs s"
    by (induction rs) (auto, metis append_take_drop_id)
  show ?case
  proof (cases "length (strip_one rs s) < length s")
    case True
    with "1.IH" obtain u where "strip_one rs s = u @ strip_runes rs (strip_one rs s)" by auto
    with one True show ?thesis
      by (subst strip_runes.simps) (simp add: Let_def, metis append_assoc)
  next
    case False
    then show ?thesis by (subst strip_runes.simps) (simp add: Let_def)
  qed
qed

text \<open>A byte that neither begins nor ends an encoded space.\<close>

definition solid :: "char \<Rightarrow> bool" where
  "solid c \<longleftrightarrow> (\<forall>r \<in> set space_runes. hd r \<noteq> c \<and> last r \<noteq> c)"

lemma space_runes_nonempty: "r \<in> set space_runes \<Longrightarrow> r \<noteq> []"
  by (auto simp: space_runes_def)

lemma trim_left_space_solid: "solid c \<Longrightarrow> trim_left_space (c # s) = c # s"
  unfolding trim_left_space_def
  by (rule strip_runes_id)
    (auto simp: solid_def has_prefix_iff append_eq_Cons_conv Cons_eq_append_conv)

lemma trim_right_space_solid:
  assumes "solid c"
  shows "trim_right_space (s @ [c]) = s @ [c]"
proof -
  have "\<not> has_prefix (c # rev s) (rev r)" if r: "r \<in> set space_runes" for r
  proof
    assume "has_prefix (c # rev s) (rev r)"
    then have "hd (rev r) = c"
      using space_runes_nonempty [OF r]
      by (auto simp: has_prefix_iff Cons_eq_append_conv) (metis list.sel(1))
    then show False using assms r space_runes_nonempty [OF r] by (simp add: solid_def hd_rev)
  qed
  then show ?thesis
    unfolding trim_right_space_def by (subst strip_runes_id) auto
qed

lemma trim_space_Nil [simp]: "trim_space [] = []"
  by (simp add: trim_space_def trim_left_space_def trim_right_space_def)

lemma trim_space_solid:
  assumes "s \<noteq> []" and "solid (hd s)" and "solid (last s)"
  shows "trim_space s = s"
proof -
  have "trim_left_space s = s"
    using assms(1,2) by (cases s) (simp_all add: trim_left_space_solid)
  moreover have "trim_right_space s = s"
    using assms(1,3) trim_right_space_solid [of "last s" "butlast s"] by simp
  ultimately show ?thesis by (simp add: trim_space_def)
qed

lemma trim_right_space_newline: "trim_right_space (s @ [CHR 0x0A]) = trim_right_space s"
proof -
  have "strip_one (map rev space_runes) (CHR 0x0A # x) = x" for x
    by (simp add: space_runes_def has_prefix_def)
  then show ?thesis
    unfolding trim_right_space_def by (subst strip_runes.simps) (simp add: Let_def)
qed

section \<open>Letter case\<close>

definition ascii_lower :: "char \<Rightarrow> char" where
  "ascii_lower c =
     (if 65 \<le> (of_char c :: nat) \<and> (of_char c :: nat) \<le> 90 then char_of (of_char c + 32 :: nat) else c)"

text \<open>The same on the bits of the character, for evaluation.\<close>

lemma ascii_lower_bits [code]:
  "ascii_lower (Char b0 b1 b2 b3 b4 b5 b6 b7) =
     (if \<not> b7 \<and> b6 \<and> \<not> b5 \<and> (b0 \<or> b1 \<or> b2 \<or> b3 \<or> b4) \<and> \<not> (b4 \<and> b3 \<and> (b2 \<or> b1 \<and> b0))
      then Char b0 b1 b2 b3 b4 True b6 b7 else Char b0 b1 b2 b3 b4 b5 b6 b7)"
  by (cases b7; cases b6; cases b5; cases b4; cases b3; cases b2; cases b1; cases b0;
      simp add: ascii_lower_def char_of_def bit_0 bit_numeral_rec bit_Suc)

text \<open>
  \<open>strings.ToLower\<close>, as far as it can produce ASCII: the ASCII letters, and the two other
  runes whose lower case is ASCII, U+0130 (to \<open>i\<close>) and the Kelvin sign U+212A (to
  \<open>k\<close>). Every other rune is lowered to a rune outside ASCII and is left alone here. The
  program only compares lowered strings with ASCII literals, which both readings decide alike.
\<close>

function to_lower :: "string \<Rightarrow> string" where
  "to_lower [] = []"
| "to_lower (c # cs) =
     (if c = CHR 0xC4 \<and> take 1 cs = [CHR 0xB0] then CHR ''i'' # to_lower (drop 1 cs)
      else if c = CHR 0xE2 \<and> take 2 cs = [CHR 0x84, CHR 0xAA] then CHR ''k'' # to_lower (drop 2 cs)
      else ascii_lower c # to_lower cs)"
  by pat_completeness auto
termination
  by (relation "measure length") auto

text \<open>\<open>strings.EqualFold\<close> against an ASCII literal without \<open>k\<close> and \<open>s\<close>.\<close>

definition equal_fold :: "string \<Rightarrow> string \<Rightarrow> bool" where
  "equal_fold s t \<longleftrightarrow> map ascii_lower s = map ascii_lower t"

section \<open>Splitting and joining\<close>

fun split_byte :: "char \<Rightarrow> string \<Rightarrow> string list" where
  "split_byte sep [] = [[]]"
| "split_byte sep (c # cs) =
     (if c = sep then [] # split_byte sep cs
      else (case split_byte sep cs of [] \<Rightarrow> [[c]] | p # ps \<Rightarrow> (c # p) # ps))"

text \<open>\<open>strings.SplitN(s, sep, n)\<close> for \<open>n > 0\<close>: at most \<open>n\<close> pieces, the last unsplit.\<close>

fun splitn_byte :: "char \<Rightarrow> nat \<Rightarrow> string \<Rightarrow> string list" where
  "splitn_byte sep 0 s = []"
| "splitn_byte sep (Suc n) s =
     (if n = 0 \<or> sep \<notin> set s then [s]
      else takeWhile (\<lambda>c. c \<noteq> sep) s # splitn_byte sep n (tl (dropWhile (\<lambda>c. c \<noteq> sep) s)))"

fun join :: "string \<Rightarrow> string list \<Rightarrow> string" where
  "join sep [] = []"
| "join sep [s] = s"
| "join sep (s # t # ts) = s @ sep @ join sep (t # ts)"

lemma split_byte_nonempty: "split_byte sep s \<noteq> []"
  by (induction s) (auto split: list.splits)

lemma join_split_byte: "join [sep] (split_byte sep s) = s"
proof (induction s)
  case Nil
  then show ?case by simp
next
  case (Cons c cs)
  obtain p ps where ps: "split_byte sep cs = p # ps"
    using split_byte_nonempty by (cases "split_byte sep cs") auto
  with Cons.IH show ?case by (cases ps) auto
qed

lemma splitn_byte_step:
  "sep \<notin> set p \<Longrightarrow> splitn_byte sep (Suc (Suc n)) (p @ sep # s) = p # splitn_byte sep (Suc n) s"
  by (simp add: takeWhile_append dropWhile_append)

lemma sep_inj:
  "sep \<notin> set p \<Longrightarrow> sep \<notin> set q \<Longrightarrow> p @ sep # s = q @ sep # t \<longleftrightarrow> p = q \<and> s = t"
proof (induction p arbitrary: q)
  case Nil
  then show ?case by (cases q) auto
next
  case (Cons a p)
  then show ?case by (cases q) auto
qed

lemma splitn_byte_one [simp]: "splitn_byte sep (Suc 0) s = [s]"
  by simp

lemma splitn_byte_none: "sep \<notin> set s \<Longrightarrow> splitn_byte sep (Suc n) s = [s]"
  by simp

lemma splitn_byte_nonempty [simp]: "splitn_byte sep (Suc n) s \<noteq> []"
  by simp

declare splitn_byte.simps(2) [simp del]

lemma join_splitn_byte: "join [sep] (splitn_byte sep (Suc n) s) = s"
proof (induction n arbitrary: s)
  case 0
  then show ?case by simp
next
  case (Suc n)
  show ?case
  proof (cases "sep \<in> set s")
    case True
    then obtain p q where s: "s = p @ sep # q" and p: "sep \<notin> set p"
      by (meson split_list_first)
    then show ?thesis
      using Suc.IH [of q] splitn_byte_nonempty [of sep n q]
      by (cases "splitn_byte sep (Suc n) q") (simp_all add: splitn_byte_step)
  qed (simp add: splitn_byte_none)
qed

lemma join_append1: "xs \<noteq> [] \<Longrightarrow> join sep (xs @ [x]) = join sep xs @ sep @ x"
  by (induction sep xs rule: join.induct) auto

section \<open>Decimal numbers\<close>

definition digit_char :: "nat \<Rightarrow> char" where
  "digit_char d = char_of (48 + d)"

definition digit_value :: "char \<Rightarrow> nat option" where
  "digit_value c =
     (let k = of_char c in if 48 \<le> k \<and> k \<le> 57 then Some (k - 48) else None)"

fun show_nat :: "nat \<Rightarrow> string" where
  "show_nat n = (if n < 10 then [digit_char n] else show_nat (n div 10) @ [digit_char (n mod 10)])"

declare show_nat.simps [simp del]

definition show_int :: "int \<Rightarrow> string" where
  "show_int i = (if i < 0 then CHR ''-'' # show_nat (nat (- i)) else show_nat (nat i))"

fun parse_digits :: "nat \<Rightarrow> string \<Rightarrow> nat option" where
  "parse_digits acc [] = Some acc"
| "parse_digits acc (c # cs) =
     (case digit_value c of None \<Rightarrow> None | Some d \<Rightarrow> parse_digits (10 * acc + d) cs)"

text \<open>\<open>strconv.ParseInt(s, 10, 64)\<close>: \<open>None\<close> for a syntax or a range error.\<close>

definition parse_int64 :: "string \<Rightarrow> int option" where
  "parse_int64 s =
     (let neg = (take 1 s = ''-'');
          body = (if neg \<or> take 1 s = ''+'' then drop 1 s else s)
      in if body = [] then None
         else (case parse_digits 0 body of
             None \<Rightarrow> None
           | Some n \<Rightarrow>
               (let i = (if neg then - int n else int n)
                in if - (2 ^ 63) \<le> i \<and> i < 2 ^ 63 then Some i else None)))"

lemma digit_value_digit_char [simp]: "d < 10 \<Longrightarrow> digit_value (digit_char d) = Some d"
  by (simp add: digit_value_def digit_char_def)

lemma digit_char_neq:
  assumes "d < 10" and "digit_value c = None"
  shows "digit_char d \<noteq> c"
  using assms by auto

lemma parse_digits_append:
  "parse_digits acc (s @ t) =
     (case parse_digits acc s of None \<Rightarrow> None | Some n \<Rightarrow> parse_digits n t)"
  by (induction acc s rule: parse_digits.induct) (auto split: option.splits)

lemma parse_digits_show_nat [simp]: "parse_digits 0 (show_nat n) = Some n"
proof (induction n rule: show_nat.induct)
  case (1 n)
  show ?case
    by (subst show_nat.simps) (use 1 in \<open>auto simp: parse_digits_append\<close>)
qed

lemma show_nat_nonempty [simp]: "show_nat n \<noteq> []"
  by (subst show_nat.simps) simp

lemma show_nat_digits: "c \<in> set (show_nat n) \<Longrightarrow> \<exists>d < 10. c = digit_char d"
proof (induction n rule: show_nat.induct)
  case (1 n)
  then show ?case
    by (subst (asm) show_nat.simps) (auto split: if_splits intro: exI [where x = "n mod 10"])
qed

lemma show_nat_no_sign: "take 1 (show_nat n) \<noteq> ''-''" "take 1 (show_nat n) \<noteq> ''+''"
proof -
  obtain c cs where s: "show_nat n = c # cs" by (cases "show_nat n") auto
  then obtain d where "d < 10" "c = digit_char d" using show_nat_digits [of c n] by auto
  then have "c \<noteq> CHR ''-''" "c \<noteq> CHR ''+''"
    using digit_char_neq [OF \<open>d < 10\<close>, of "CHR ''-''"] digit_char_neq [OF \<open>d < 10\<close>, of "CHR ''+''"]
    by (simp_all add: digit_value_def)
  then show "take 1 (show_nat n) \<noteq> ''-''" "take 1 (show_nat n) \<noteq> ''+''" using s by auto
qed

lemma show_nat_inj: "show_nat m = show_nat n \<Longrightarrow> m = n"
  using parse_digits_show_nat by (metis option.inject)

text \<open>\<open>%d\<close> and \<open>ParseInt\<close> are inverse on \<open>int64\<close>.\<close>

lemma parse_show_int:
  assumes "- (2 ^ 63) \<le> i" and "i < 2 ^ 63"
  shows "parse_int64 (show_int i) = Some i"
proof (cases "i < 0")
  case True
  then show ?thesis using assms by (simp add: parse_int64_def show_int_def)
next
  case False
  then show ?thesis
    using assms show_nat_no_sign [of "nat i"] by (simp add: parse_int64_def show_int_def)
qed

section \<open>Hexadecimal\<close>

definition hex_digit :: "nat \<Rightarrow> char" where
  "hex_digit d = (if d < 10 then char_of (48 + d) else char_of (87 + d))"

definition hex_value :: "char \<Rightarrow> nat option" where
  "hex_value c =
     (let k = of_char c
      in if 48 \<le> k \<and> k \<le> 57 then Some (k - 48)
         else if 97 \<le> k \<and> k \<le> 102 then Some (k - 87)
         else if 65 \<le> k \<and> k \<le> 70 then Some (k - 55)
         else None)"

fun hex_encode :: "string \<Rightarrow> string" where
  "hex_encode [] = []"
| "hex_encode (c # cs) =
     hex_digit (of_char c div 16) # hex_digit (of_char c mod 16) # hex_encode cs"

text \<open>\<open>hex.DecodeString\<close>: both cases are accepted; a stray character or an odd length fails.\<close>

fun hex_decode :: "string \<Rightarrow> string option" where
  "hex_decode [] = Some []"
| "hex_decode [c] = None"
| "hex_decode (a # b # cs) =
     (case (hex_value a, hex_value b, hex_decode cs) of
        (Some x, Some y, Some r) \<Rightarrow> Some (char_of (16 * x + y) # r)
      | _ \<Rightarrow> None)"

lemma hex_value_hex_digit [simp]: "d < 16 \<Longrightarrow> hex_value (hex_digit d) = Some d"
  by (auto simp: hex_value_def hex_digit_def)

lemma of_char_div_16 [simp]: "(of_char c :: nat) div 16 < 16"
  by (rule less_mult_imp_div_less) simp

lemma hex_decode_encode [simp]: "hex_decode (hex_encode s) = Some s"
proof (induction s)
  case Nil
  then show ?case by simp
next
  case (Cons c cs)
  then show ?case by simp
qed

lemma length_hex_encode [simp]: "length (hex_encode s) = 2 * length s"
  by (induction s) auto

lemma hex_encode_Nil_iff [simp]: "hex_encode s = [] \<longleftrightarrow> s = []"
  by (cases s) simp_all

lemma hex_encode_inj: "hex_encode s = hex_encode t \<Longrightarrow> s = t"
  using hex_decode_encode by (metis option.inject)

lemma hex_encode_digits: "c \<in> set (hex_encode s) \<Longrightarrow> hex_value c \<noteq> None"
proof (induction s)
  case Nil
  then show ?case by simp
next
  case (Cons a s)
  then show ?case by auto
qed

lemma hex_decode_length: "hex_decode s = Some b \<Longrightarrow> length s = 2 * length b"
  by (induction s arbitrary: b rule: hex_decode.induct) (auto split: option.splits)

text \<open>A hexadecimal digit is none of the bytes the formats use as separators.\<close>

lemma hex_value_None_neq: "hex_value c = None \<Longrightarrow> c \<notin> set (hex_encode s)"
  using hex_encode_digits by blast

text \<open>Nor does it begin or end a space, so encoded bytes survive trimming, with a newline or without.\<close>

lemma hex_value_solid: "hex_value c \<noteq> None \<Longrightarrow> solid c"
proof -
  have "list_all (\<lambda>r. hex_value (hd r) = None \<and> hex_value (last r) = None) space_runes" by code_simp
  then show "hex_value c \<noteq> None \<Longrightarrow> solid c" unfolding solid_def list_all_iff by metis
qed

lemma trim_space_hex:
  assumes "k \<noteq> []"
  shows "trim_space (hex_encode k) = hex_encode k" and "trim_space (hex_encode k @ [CHR 0x0A]) = hex_encode k"
proof -
  have ne: "hex_encode k \<noteq> []" using assms by (cases k) simp_all
  have solid: "solid c" if "c \<in> set (hex_encode k)" for c
    using hex_encode_digits [OF that] by (rule hex_value_solid)
  show plain: "trim_space (hex_encode k) = hex_encode k"
    by (rule trim_space_solid) (use ne solid in auto)
  obtain c s where cs: "hex_encode k = c # s" using ne by (cases "hex_encode k") auto
  have "trim_left_space (hex_encode k @ t) = hex_encode k @ t" for t
    unfolding cs using trim_left_space_solid [of c "s @ t"] solid [of c] cs by simp
  from this [of "[CHR 0x0A]"] this [of "[]"] plain
  show "trim_space (hex_encode k @ [CHR 0x0A]) = hex_encode k"
    by (simp add: trim_space_def trim_right_space_newline)
qed

section \<open>Base64\<close>

definition base64_value :: "char \<Rightarrow> nat option" where
  "base64_value c =
     (let k = of_char c
      in if 65 \<le> k \<and> k \<le> 90 then Some (k - 65)
         else if 97 \<le> k \<and> k \<le> 122 then Some (k - 71)
         else if 48 \<le> k \<and> k \<le> 57 then Some (k + 4)
         else if c = CHR ''+'' then Some 62
         else if c = CHR ''/'' then Some 63
         else None)"

text \<open>
  One quantum of four characters is three bytes; the last one may be padded to two or one, and
  its unused low bits are ignored, as \<open>StdEncoding\<close> does.
\<close>

fun base64_quanta :: "string \<Rightarrow> string option" where
  "base64_quanta [] = Some []"
| "base64_quanta (a # b # c # d # rest) =
     (case (base64_value a, base64_value b) of
        (Some x, Some y) \<Rightarrow>
          if rest = [] \<and> c = CHR ''='' \<and> d = CHR ''=''
          then Some [char_of (4 * x + y div 16)]
          else (case base64_value c of
              None \<Rightarrow> None
            | Some z \<Rightarrow>
                if rest = [] \<and> d = CHR ''=''
                then Some [char_of (4 * x + y div 16), char_of ((y mod 16) * 16 + z div 4)]
                else (case (base64_value d, base64_quanta rest) of
                    (Some w, Some r) \<Rightarrow>
                      Some (char_of (4 * x + y div 16) # char_of ((y mod 16) * 16 + z div 4)
                        # char_of ((z mod 4) * 64 + w) # r)
                  | _ \<Rightarrow> None))
      | _ \<Rightarrow> None)"
| "base64_quanta _ = None"

text \<open>\<open>base64.StdEncoding.DecodeString\<close>: line breaks are skipped wherever they stand.\<close>

definition base64_decode :: "string \<Rightarrow> string option" where
  "base64_decode s = base64_quanta (filter (\<lambda>c. c \<noteq> CHR 0x0A \<and> c \<noteq> CHR 0x0D) s)"

end
