(* ===== verification/Challenge.thy ===== *)
theory Challenge
  imports Go_Strings
begin

text \<open>
  The challenge text of the wallet-signature login (\<open>internal/mcp/auth/challenge.go\<close>): its
  formatting, its parsing on every branch, and the round trip between the two.
\<close>

definition challenge_prefix :: string where
  "challenge_prefix = ''svpchain-mcp-auth-v1:''"

definition build_challenge :: "string \<Rightarrow> string \<Rightarrow> time \<Rightarrow> string" where
  "build_challenge chain_id nonce_hex expires_at =
     challenge_prefix @ chain_id @ '':'' @ nonce_hex @ '':'' @ show_int (unix_seconds expires_at)"

record parsed_challenge =
  pc_chain_id :: string
  pc_nonce_hex :: string
  pc_expires_at :: time

datatype challenge_error =
    Bad_Prefix
  | Malformed
  | Bad_Expiry string
  | Empty_Chain_Id
  | Empty_Nonce

definition parse_challenge :: "string \<Rightarrow> challenge_error + parsed_challenge" where
  "parse_challenge text =
     (if \<not> has_prefix text challenge_prefix then Inl Bad_Prefix
      else (case splitn_byte CHR '':'' 4 text of
        [_, chain_id, nonce_hex, expires] \<Rightarrow>
          (case parse_int64 expires of
             None \<Rightarrow> Inl (Bad_Expiry expires)
           | Some expires_unix \<Rightarrow>
               if chain_id = [] then Inl Empty_Chain_Id
               else if nonce_hex = [] then Inl Empty_Nonce
               else Inr \<lparr>pc_chain_id = chain_id, pc_nonce_hex = nonce_hex,
                         pc_expires_at = unix_time expires_unix\<rparr>)
      | _ \<Rightarrow> Inl Malformed))"

section \<open>Shape of the text\<close>

definition challenge_head :: string where
  "challenge_head = ''svpchain-mcp-auth-v1''"

lemma challenge_prefix_eq: "challenge_prefix = challenge_head @ [CHR '':'']"
  by (simp add: challenge_prefix_def challenge_head_def)

lemma colon_not_in_head [simp]: "CHR '':'' \<notin> set challenge_head"
  by (simp add: challenge_head_def)

lemma build_challenge_has_prefix [simp]:
  "has_prefix (build_challenge c n t) challenge_prefix"
  by (simp add: build_challenge_def)

lemma splitn_build_challenge:
  assumes "CHR '':'' \<notin> set chain_id" and "CHR '':'' \<notin> set nonce_hex"
  shows "splitn_byte CHR '':'' 4 (build_challenge chain_id nonce_hex t) =
    [challenge_head, chain_id, nonce_hex, show_int (unix_seconds t)]"
proof -
  have "build_challenge chain_id nonce_hex t =
      challenge_head @ CHR '':'' # chain_id @ CHR '':'' # nonce_hex @ CHR '':'' #
        show_int (unix_seconds t)"
    by (simp add: build_challenge_def challenge_prefix_eq)
  then show ?thesis using assms by (simp add: splitn_byte_step eval_nat_numeral)
qed

text \<open>
  Parsing reads back what was formatted, up to the fraction of a second the text does not
  carry, for the chain ids and nonces without a colon.
\<close>

lemma parse_build_challenge:
  assumes "CHR '':'' \<notin> set chain_id" and "CHR '':'' \<notin> set nonce_hex"
    and "chain_id \<noteq> []" and "nonce_hex \<noteq> []"
    and "- (2 ^ 63) \<le> unix_seconds t" and "unix_seconds t < 2 ^ 63"
  shows "parse_challenge (build_challenge chain_id nonce_hex t) =
    Inr \<lparr>pc_chain_id = chain_id, pc_nonce_hex = nonce_hex,
         pc_expires_at = unix_time (unix_seconds t)\<rparr>"
  using assms by (simp add: parse_challenge_def splitn_build_challenge parse_show_int)

lemma show_int_inj: "show_int i = show_int j \<Longrightarrow> i = j"
proof -
  assume eq: "show_int i = show_int j"
  have "show_nat m \<noteq> CHR ''-'' # s" for m s
    using show_nat_no_sign(1) [of m] by auto
  with eq show ?thesis
    by (auto simp: show_int_def split: if_splits dest!: show_nat_inj dest: sym)
qed

text \<open>
  Two different challenges have different texts: a signature over one is not a signature over
  another. Only the chain id has to be free of colons; the nonce always is.
\<close>

lemma build_challenge_inj:
  assumes "build_challenge c n t = build_challenge c' n' t'"
    and "CHR '':'' \<notin> set c" "CHR '':'' \<notin> set c'"
    and "CHR '':'' \<notin> set n" "CHR '':'' \<notin> set n'"
  shows "c = c' \<and> n = n' \<and> unix_seconds t = unix_seconds t'"
proof -
  have "[challenge_head, c, n, show_int (unix_seconds t)] =
      [challenge_head, c', n', show_int (unix_seconds t')]"
    using splitn_build_challenge [of c n t] splitn_build_challenge [of c' n' t'] assms by simp
  then show ?thesis by (auto dest: show_int_inj)
qed

lemma colon_not_in_hex [simp]: "CHR '':'' \<notin> set (hex_encode b)"
  by (rule hex_value_None_neq) (simp add: hex_value_def)

section \<open>What a successful parse guarantees\<close>

lemma parse_challenge_Inr:
  assumes "parse_challenge text = Inr p"
  shows "has_prefix text challenge_prefix \<and> pc_chain_id p \<noteq> [] \<and> pc_nonce_hex p \<noteq> []
    \<and> (\<exists>expires. splitn_byte CHR '':'' 4 text =
          [challenge_head, pc_chain_id p, pc_nonce_hex p, expires]
        \<and> parse_int64 expires = Some (unix_seconds (pc_expires_at p)))"
proof -
  from assms have pre: "has_prefix text challenge_prefix"
    by (auto simp: parse_challenge_def split: if_splits)
  then obtain rest where "text = challenge_head @ CHR '':'' # rest"
    by (auto simp: has_prefix_iff challenge_prefix_eq)
  then have "splitn_byte CHR '':'' 4 text = challenge_head # splitn_byte CHR '':'' 3 rest"
    using splitn_byte_step [of "CHR '':''" challenge_head 2 rest] by (simp add: eval_nat_numeral)
  with assms pre show ?thesis
    by (auto simp: parse_challenge_def split: if_splits list.splits option.splits)
qed

text \<open>What the parser accepts and the formatter produces agree on the three fields.\<close>

lemma parse_challenge_sound:
  assumes "parse_challenge text = Inr p"
  shows "\<exists>expires. text = challenge_prefix @ pc_chain_id p @ '':'' @ pc_nonce_hex p @ '':'' @ expires
    \<and> parse_int64 expires = Some (unix_seconds (pc_expires_at p))"
proof -
  from parse_challenge_Inr [OF assms] obtain expires where
    sp: "splitn_byte CHR '':'' 4 text = [challenge_head, pc_chain_id p, pc_nonce_hex p, expires]"
    and pr: "parse_int64 expires = Some (unix_seconds (pc_expires_at p))" by blast
  have "text = join '':'' [challenge_head, pc_chain_id p, pc_nonce_hex p, expires]"
    using join_splitn_byte [of "CHR '':''" 3 "text"] sp by (simp add: eval_nat_numeral)
  then show ?thesis using pr by (auto simp: challenge_prefix_eq)
qed

section \<open>Properties\<close>

text \<open>C33: A login challenge parses back to the chain id, the nonce and the expiry (to the second)
  it was built from, for every chain id and nonce that are non-empty and free of colons, and
  every expiry an \<open>int64\<close> of seconds can hold.\<close>

theorem challenge_roundtrip:
  assumes "CHR '':'' \<notin> set chain_id" and "chain_id \<noteq> []"
    and "CHR '':'' \<notin> set nonce_hex" and "nonce_hex \<noteq> []"
    and "- (2 ^ 63) \<le> unix_seconds t" and "unix_seconds t < 2 ^ 63"
  shows "parse_challenge (build_challenge chain_id nonce_hex t) =
    Inr \<lparr>pc_chain_id = chain_id, pc_nonce_hex = nonce_hex,
         pc_expires_at = unix_time (unix_seconds t)\<rparr>"
  using assms by (intro parse_build_challenge)

theorem challenge_roundtrip_witness:
  "parse_challenge (build_challenge ''svp-1'' ''0a1b'' 1700000000123456789) =
    Inr \<lparr>pc_chain_id = ''svp-1'', pc_nonce_hex = ''0a1b'',
         pc_expires_at = 1700000000000000000\<rparr>"
  using challenge_roundtrip [of "''svp-1''" "''0a1b''" 1700000000123456789]
  by (simp add: unix_seconds_def unix_time_def go_second_def)

text \<open>Whatever the challenge parser accepts starts with the versioned prefix, has a non-empty
  chain id and nonce, and is literally the prefix, the two fields and a decimal expiry joined by
  colons, so nothing else of the text is dropped or invented.\<close>

theorem parse_challenge_accepts_only_challenges:
  assumes "parse_challenge text = Inr p"
  shows "pc_chain_id p \<noteq> [] \<and> pc_nonce_hex p \<noteq> [] \<and>
    (\<exists>expires. text = challenge_prefix @ pc_chain_id p @ '':'' @ pc_nonce_hex p @ '':'' @ expires
      \<and> parse_int64 expires = Some (unix_seconds (pc_expires_at p)))"
  using parse_challenge_sound [OF assms] parse_challenge_Inr [OF assms] by blast

theorem parse_challenge_accepts_only_challenges_witness:
  "\<exists>expires. ''svpchain-mcp-auth-v1:c:ab:+7'' = challenge_prefix @ ''c:ab:'' @ expires
    \<and> parse_int64 expires = Some 7"
proof -
  have "parse_challenge ''svpchain-mcp-auth-v1:c:ab:+7'' =
      Inr \<lparr>pc_chain_id = ''c'', pc_nonce_hex = ''ab'', pc_expires_at = 7000000000\<rparr>"
    by code_simp
  from parse_challenge_accepts_only_challenges [OF this] show ?thesis
    by (simp add: unix_seconds_def go_second_def)
qed

end
