(* ===== verification/Nonce_Store.thy ===== *)
theory Nonce_Store
  imports Go_Strings
begin

text \<open>
  The challenge nonces of the login (\<open>internal/mcp/auth/nonce_store.go\<close>): issue, consume
  and sweep over a map from the nonce to the owner it was issued to. The clock reading and the
  outcome of \<open>rand.Read\<close> are arguments; the mutex makes every operation one step.
\<close>

section \<open>State and operations\<close>

definition default_challenge_ttl :: duration where
  "default_challenge_ttl = 5 * go_minute"

definition nonce_len :: nat where
  "nonce_len = 16"

record nonce_entry =
  ne_owner :: string
  ne_expires_at :: time

record nonce_store =
  ns_ttl :: duration
  ns_entries :: "(string, nonce_entry) gomap"

datatype nonce_error =
    Nonce_Owner_Required
  | Nonce_Rand_Failed string
  | Nonce_Not_Found
  | Nonce_Expired

definition new_nonce_store :: "duration \<Rightarrow> nonce_store" where
  "new_nonce_store ttl = \<lparr>ns_ttl = ttl, ns_entries = []\<rparr>"

text \<open>\<open>rand n\<close> is what \<open>rand.Read\<close> does on a buffer of \<open>n\<close> bytes.\<close>

definition issue_nonce ::
    "time \<Rightarrow> (nat \<Rightarrow> string + string) \<Rightarrow> string \<Rightarrow> nonce_store \<Rightarrow>
     nonce_store \<times> (nonce_error + string \<times> time)" where
  "issue_nonce now rand owner s =
     (if owner = [] then (s, Inl Nonce_Owner_Required)
      else (case rand nonce_len of
          Inl e \<Rightarrow> (s, Inl (Nonce_Rand_Failed e))
        | Inr buf \<Rightarrow>
            (let nonce_hex = hex_encode buf;
                 expires_at = now + ns_ttl s
             in (s\<lparr>ns_entries :=
                     AList.update nonce_hex \<lparr>ne_owner = owner, ne_expires_at = expires_at\<rparr>
                       (ns_entries s)\<rparr>,
                 Inr (nonce_hex, expires_at)))))"

definition consume_nonce ::
    "time \<Rightarrow> string \<Rightarrow> nonce_store \<Rightarrow> nonce_store \<times> (nonce_error + string \<times> time)" where
  "consume_nonce now nonce_hex s =
     (case map_of (ns_entries s) nonce_hex of
        None \<Rightarrow> (s, Inl Nonce_Not_Found)
      | Some entry \<Rightarrow>
          (let s' = s\<lparr>ns_entries := AList.delete nonce_hex (ns_entries s)\<rparr>
           in if \<not> now < ne_expires_at entry then (s', Inl Nonce_Expired)
              else (s', Inr (ne_owner entry, ne_expires_at entry))))"

definition nonce_dead :: "time \<Rightarrow> nonce_entry \<Rightarrow> bool" where
  "nonce_dead now e \<longleftrightarrow> \<not> now < ne_expires_at e"

definition sweep_nonces :: "time \<Rightarrow> nonce_store \<Rightarrow> nonce_store" where
  "sweep_nonces now s =
     s\<lparr>ns_entries := delete_if (\<lambda>_ e. nonce_dead now e) (ns_entries s) (ns_entries s)\<rparr>"

definition nonce_count :: "nonce_store \<Rightarrow> nat" where
  "nonce_count s = length (ns_entries s)"

section \<open>Invariant\<close>

definition nonce_store_ok :: "nonce_store \<Rightarrow> bool" where
  "nonce_store_ok s \<longleftrightarrow> gomap_ok (ns_entries s) \<and> (\<forall>e \<in> ran (map_of (ns_entries s)). ne_owner e \<noteq> [])"

lemma nonce_store_ok_gomap: "nonce_store_ok s \<Longrightarrow> gomap_ok (ns_entries s)"
  by (simp add: nonce_store_ok_def)

lemma new_nonce_store_ok: "nonce_store_ok (new_nonce_store ttl)"
  by (simp add: nonce_store_ok_def new_nonce_store_def)

lemma issue_nonce_ok:
  "nonce_store_ok s \<Longrightarrow> nonce_store_ok (fst (issue_nonce now rand owner s))"
  by (auto simp: nonce_store_ok_def issue_nonce_def Let_def ran_def gomap_get_update
      split: sum.splits if_splits)

lemma consume_nonce_ok:
  "nonce_store_ok s \<Longrightarrow> nonce_store_ok (fst (consume_nonce now n s))"
  by (auto simp: nonce_store_ok_def consume_nonce_def Let_def ran_def gomap_get_delete
      split: option.splits if_splits)

lemma sweep_nonces_entries:
  "nonce_store_ok s \<Longrightarrow>
     ns_entries (sweep_nonces now s) = gomap_filter (\<lambda>_ e. \<not> nonce_dead now e) (ns_entries s)"
  by (simp add: sweep_nonces_def nonce_store_ok_def delete_if_any_order)

lemma sweep_nonces_ok: "nonce_store_ok s \<Longrightarrow> nonce_store_ok (sweep_nonces now s)"
  by (auto simp: nonce_store_ok_def sweep_nonces_def delete_if_any_order ran_def
      gomap_get_filter split: option.splits if_splits)

lemma nonce_ttl_frame [go_frame, simp]:
  "ns_ttl (fst (issue_nonce now rand owner s)) = ns_ttl s"
  "ns_ttl (fst (consume_nonce now n s)) = ns_ttl s"
  "ns_ttl (sweep_nonces now s) = ns_ttl s"
  by (auto simp: issue_nonce_def consume_nonce_def sweep_nonces_def Let_def
      split: sum.splits option.splits)

interpretation ns: expiring_store ns_entries "\<lambda>_. nonce_dead" sweep_nonces nonce_store_ok
  by unfold_locales
    (auto simp: sweep_nonces_entries sweep_nonces_ok nonce_dead_def
      intro: nonce_store_ok_gomap)

section \<open>Behaviour of the operations\<close>

lemma issue_nonce_Inr:
  assumes "issue_nonce now rand owner s = (s', Inr (n, t))"
  shows "owner \<noteq> [] \<and> (\<exists>buf. rand nonce_len = Inr buf \<and> n = hex_encode buf) \<and> t = now + ns_ttl s
    \<and> map_of (ns_entries s') = (map_of (ns_entries s))(n \<mapsto> \<lparr>ne_owner = owner, ne_expires_at = t\<rparr>)"
  using assms by (auto simp: issue_nonce_def Let_def update_conv' split: if_splits sum.splits)

lemma issue_nonce_Inl: "issue_nonce now rand owner s = (s', Inl e) \<Longrightarrow> s' = s"
  by (auto simp: issue_nonce_def Let_def split: if_splits sum.splits)

text \<open>\<open>Consume\<close> always burns the nonce, whatever it answers.\<close>

lemma consume_burns:
  "map_of (ns_entries (fst (consume_nonce now n s))) n = None"
  by (auto simp: consume_nonce_def Let_def gomap_get_delete split: option.splits)

lemma consume_other:
  "n' \<noteq> n \<Longrightarrow>
     map_of (ns_entries (fst (consume_nonce now n s))) n' = map_of (ns_entries s) n'"
  by (auto simp: consume_nonce_def Let_def gomap_get_delete split: option.splits)

lemma consume_Inr_iff:
  "snd (consume_nonce now n s) = Inr (owner, t) \<longleftrightarrow>
     map_of (ns_entries s) n = Some \<lparr>ne_owner = owner, ne_expires_at = t\<rparr> \<and> now < t"
proof (cases "map_of (ns_entries s) n")
  case None
  then show ?thesis by (simp add: consume_nonce_def)
next
  case (Some e)
  then show ?thesis by (cases e) (auto simp: consume_nonce_def Let_def)
qed

lemma consume_Inl_iff:
  "snd (consume_nonce now n s) = Inl Nonce_Not_Found \<longleftrightarrow> map_of (ns_entries s) n = None"
  "snd (consume_nonce now n s) = Inl Nonce_Expired \<longleftrightarrow>
     (\<exists>e. map_of (ns_entries s) n = Some e \<and> nonce_dead now e)"
  by (auto simp: consume_nonce_def Let_def nonce_dead_def split: option.splits)

lemma consume_errors:
  "snd (consume_nonce now n s) = Inl e \<Longrightarrow> e = Nonce_Not_Found \<or> e = Nonce_Expired"
  by (auto simp: consume_nonce_def Let_def split: option.splits if_splits)

lemma consume_after_issue:
  assumes "issue_nonce now rand owner s = (s', Inr (n, t))" and "later < t"
  shows "snd (consume_nonce later n s') = Inr (owner, t)"
  using issue_nonce_Inr [OF assms(1)] assms(2) by (simp add: consume_Inr_iff)

text \<open>A sweep never takes a nonce that could still be consumed.\<close>

lemma consume_after_sweep:
  assumes "nonce_store_ok s" and "now \<le> later"
  shows "snd (consume_nonce later n (sweep_nonces now s)) = Inr r \<longleftrightarrow>
    snd (consume_nonce later n s) = Inr r"
  using assms
  by (cases r) (auto simp: consume_Inr_iff ns.sweep_lookup nonce_dead_def
      split: option.splits if_splits)

section \<open>Properties\<close>

text \<open>C34: An issued nonce can be consumed for its owner until its lifetime is over, from then on it is
  refused as expired; a sweep in between changes neither while it lives; and once consumed, with
  whatever answer, it is unknown, while every other nonce is as it was.\<close>

theorem nonce_life_cycle:
  assumes "nonce_store_ok s" and "issue_nonce now rand owner s = (s', Inr (n, t))" and "sw \<le> later"
  shows "t = now + ns_ttl s
    \<and> snd (consume_nonce later n s') = (if later < t then Inr (owner, t) else Inl Nonce_Expired)
    \<and> (snd (consume_nonce later n (sweep_nonces sw s')) = Inr (owner, t) \<longleftrightarrow> later < t)
    \<and> snd (consume_nonce again n (fst (consume_nonce later n s'))) = Inl Nonce_Not_Found
    \<and> (m \<noteq> n \<longrightarrow> snd (consume_nonce again m (fst (consume_nonce later n s'))) = snd (consume_nonce again m s))"
proof -
  have entry: "map_of (ns_entries s') n = Some \<lparr>ne_owner = owner, ne_expires_at = t\<rparr>"
    using issue_nonce_Inr [OF assms(2)] by simp
  have ok: "nonce_store_ok s'" using issue_nonce_ok [OF assms(1), of now rand owner] assms(2) by simp
  have "m \<noteq> n \<Longrightarrow> map_of (ns_entries (fst (consume_nonce later n s'))) m = map_of (ns_entries s) m"
    using issue_nonce_Inr [OF assms(2)] by (simp add: consume_other)
  then have "m \<noteq> n \<Longrightarrow>
      snd (consume_nonce again m (fst (consume_nonce later n s'))) = snd (consume_nonce again m s)"
    by (simp add: consume_nonce_def Let_def split: option.splits)
  moreover have "snd (consume_nonce later n s') = (if later < t then Inr (owner, t) else Inl Nonce_Expired)"
    using entry by (simp add: consume_Inr_iff consume_Inl_iff nonce_dead_def)
  moreover have "snd (consume_nonce later n (sweep_nonces sw s')) = Inr (owner, t) \<longleftrightarrow> later < t"
    unfolding consume_after_sweep [OF ok assms(3)] using entry by (simp add: consume_Inr_iff)
  ultimately show ?thesis
    using issue_nonce_Inr [OF assms(2)] by (simp add: consume_Inl_iff consume_burns)
qed

theorem nonce_life_cycle_witness:
  "\<exists>s' n. snd (consume_nonce 150 n s') = Inr (''alice'', 200)"
proof -
  have "issue_nonce 100 (\<lambda>n. Inr (replicate n CHR ''x'')) ''alice'' (new_nonce_store 100) =
      (\<lparr>ns_ttl = 100, ns_entries = [(hex_encode (replicate 16 CHR ''x''),
          \<lparr>ne_owner = ''alice'', ne_expires_at = 200\<rparr>)]\<rparr>, Inr (hex_encode (replicate 16 CHR ''x''), 200))"
    by code_simp
  from nonce_life_cycle [OF new_nonce_store_ok this, of 120 150 0 "[]"] show ?thesis by auto
qed

end
