(* ===== verification/Tenant_Store.thy ===== *)
theory Tenant_Store
  imports Go_Strings
begin

text \<open>
  The self-service tenants (\<open>internal/mcp/auth/dynamic_tenants.go\<close>): two maps, from the bearer
  to the tenant id and from the tenant id to its record, that minting and sweeping keep in step.
\<close>

section \<open>State and operations\<close>

definition default_bearer_ttl :: duration where
  "default_bearer_ttl = 24 * go_hour"

definition bearer_len :: nat where
  "bearer_len = 32"

definition tenant_prefix :: string where
  "tenant_prefix = ''auto-''"

record tenant_record =
  tr_tenant_id :: string
  tr_owner :: string
  tr_expires_at :: time

record tenant_store =
  ts_ttl :: duration
  ts_by_bearer :: "(string, string) gomap"
  ts_by_tenant :: "(string, tenant_record) gomap"

datatype tenant_error =
    Tenant_Owner_Required
  | Bearer_Rand_Failed string
  | Tenant_Rand_Failed string
  | Bearer_Not_Found
  | Bearer_Expired

definition new_tenant_store :: "duration \<Rightarrow> tenant_store" where
  "new_tenant_store ttl = \<lparr>ts_ttl = ttl, ts_by_bearer = [], ts_by_tenant = []\<rparr>"

text \<open>The first read of randomness fills the bearer, the second the eight tenant-id bytes.\<close>

definition mint ::
    "time \<Rightarrow> (nat \<Rightarrow> string + string) \<Rightarrow> string \<Rightarrow> tenant_store \<Rightarrow>
     tenant_store \<times> (tenant_error + string \<times> string \<times> time)" where
  "mint now rand owner s =
     (if owner = [] then (s, Inl Tenant_Owner_Required)
      else (case rand bearer_len of
          Inl e \<Rightarrow> (s, Inl (Bearer_Rand_Failed e))
        | Inr bbuf \<Rightarrow>
            (case rand 8 of
               Inl e \<Rightarrow> (s, Inl (Tenant_Rand_Failed e))
             | Inr tbuf \<Rightarrow>
                 (let bearer = hex_encode bbuf;
                      tenant_id = tenant_prefix @ hex_encode tbuf;
                      expires_at = now + ts_ttl s;
                      rec = \<lparr>tr_tenant_id = tenant_id, tr_owner = owner, tr_expires_at = expires_at\<rparr>
                  in (s\<lparr>ts_by_bearer := AList.update bearer tenant_id (ts_by_bearer s),
                        ts_by_tenant := AList.update tenant_id rec (ts_by_tenant s)\<rparr>,
                      Inr (bearer, tenant_id, expires_at))))))"

definition tenant_dead :: "time \<Rightarrow> tenant_record \<Rightarrow> bool" where
  "tenant_dead now r \<longleftrightarrow> \<not> now < tr_expires_at r"

definition lookup_by_bearer :: "time \<Rightarrow> tenant_store \<Rightarrow> string \<Rightarrow> tenant_error + tenant_record" where
  "lookup_by_bearer now s bearer =
     (case map_of (ts_by_bearer s) bearer of
        None \<Rightarrow> Inl Bearer_Not_Found
      | Some tenant_id \<Rightarrow>
          (case map_of (ts_by_tenant s) tenant_id of
             None \<Rightarrow> Inl Bearer_Not_Found
           | Some rec \<Rightarrow> if \<not> now < tr_expires_at rec then Inl Bearer_Expired else Inr rec))"

text \<open>One turn of the sweep's loop, on the pair of maps it deletes from.\<close>

definition sweep_step ::
    "time \<Rightarrow> string \<times> string \<Rightarrow> tenant_store \<Rightarrow> tenant_store" where
  "sweep_step now bt s =
     (let (bearer, tenant_id) = bt
      in if (case map_of (ts_by_tenant s) tenant_id of None \<Rightarrow> True | Some r \<Rightarrow> tenant_dead now r)
         then s\<lparr>ts_by_bearer := AList.delete bearer (ts_by_bearer s),
                ts_by_tenant := AList.delete tenant_id (ts_by_tenant s)\<rparr>
         else s)"

definition sweep_tenants :: "time \<Rightarrow> tenant_store \<Rightarrow> tenant_store" where
  "sweep_tenants now s = fold (sweep_step now) (ts_by_bearer s) s"

definition tenant_count :: "tenant_store \<Rightarrow> nat" where
  "tenant_count s = length (ts_by_tenant s)"

section \<open>The sweep, whatever the order of its range\<close>

definition stale :: "time \<Rightarrow> tenant_store \<Rightarrow> string \<Rightarrow> bool" where
  "stale now s tid \<longleftrightarrow>
     (case map_of (ts_by_tenant s) tid of None \<Rightarrow> True | Some r \<Rightarrow> tenant_dead now r)"

text \<open>
  After any part \<open>xs\<close> of the range: a bearer is gone if its pair was visited and its tenant
  was stale, and a tenant is gone if one of its bearers was visited and it was stale.
\<close>

lemma ts_maps_cong:
  "x = x' \<Longrightarrow> y = y' \<Longrightarrow>
     s\<lparr>ts_by_bearer := x, ts_by_tenant := y\<rparr> = s\<lparr>ts_by_bearer := x', ts_by_tenant := y'\<rparr>"
  by simp

lemma sweep_fold:
  "fold (sweep_step now) xs s =
     s\<lparr>ts_by_bearer := filter (\<lambda>(b, _). \<not> (\<exists>t. (b, t) \<in> set xs \<and> stale now s t)) (ts_by_bearer s),
       ts_by_tenant := filter (\<lambda>(t, _). \<not> (\<exists>b. (b, t) \<in> set xs \<and> stale now s t)) (ts_by_tenant s)\<rparr>"
proof (induction xs arbitrary: s)
  case Nil
  then show ?case by simp
next
  case (Cons x xs)
  obtain b t where x: "x = (b, t)" by (cases x)
  show ?case
  proof (cases "stale now s t")
    case True
    define s' where "s' = s\<lparr>ts_by_bearer := AList.delete b (ts_by_bearer s),
                ts_by_tenant := AList.delete t (ts_by_tenant s)\<rparr>"
    have step: "sweep_step now x s = s'"
      using True by (simp add: sweep_step_def x stale_def s'_def)
    have stale': "stale now s' u \<longleftrightarrow> stale now s u" for u
      using True by (auto simp: stale_def s'_def delete_conv' split: option.splits)
    show ?thesis
      using True unfolding fold_simps(2) step Cons.IH stale'
      by (auto simp: s'_def x AList.delete_eq intro!: ts_maps_cong filter_cong)
  next
    case False
    then have step: "sweep_step now x s = s"
      by (simp add: sweep_step_def x stale_def)
    show ?thesis
      using False unfolding fold_simps(2) step Cons.IH
      by (auto simp: x intro!: ts_maps_cong filter_cong)
  qed
qed

lemma sweep_any_order:
  "set xs = set (ts_by_bearer s) \<Longrightarrow> fold (sweep_step now) xs s = sweep_tenants now s"
  by (simp add: sweep_tenants_def sweep_fold)

section \<open>Invariant\<close>

text \<open>
  The two maps mirror each other: every bearer names a recorded tenant, every tenant is named
  by one bearer, and a record carries its own key and the owner it was minted for.
\<close>

definition tenant_store_ok :: "tenant_store \<Rightarrow> bool" where
  "tenant_store_ok s \<longleftrightarrow>
     gomap_ok (ts_by_bearer s) \<and> gomap_ok (ts_by_tenant s)
     \<and> ran (map_of (ts_by_bearer s)) = dom (map_of (ts_by_tenant s))
     \<and> inj_on (map_of (ts_by_bearer s)) (dom (map_of (ts_by_bearer s)))
     \<and> (\<forall>t r. map_of (ts_by_tenant s) t = Some r \<longrightarrow> tr_tenant_id r = t \<and> tr_owner r \<noteq> [])"

lemma tenant_store_ok_gomap:
  "tenant_store_ok s \<Longrightarrow> gomap_ok (ts_by_bearer s)"
  "tenant_store_ok s \<Longrightarrow> gomap_ok (ts_by_tenant s)"
  by (simp_all add: tenant_store_ok_def)

lemma bearer_unique:
  "tenant_store_ok s \<Longrightarrow> map_of (ts_by_bearer s) b = Some t \<Longrightarrow>
     map_of (ts_by_bearer s) b' = Some t \<Longrightarrow> b = b'"
  by (simp add: tenant_store_ok_def inj_on_def) (metis domI)

lemma bearer_has_tenant:
  "tenant_store_ok s \<Longrightarrow> map_of (ts_by_bearer s) b = Some t \<Longrightarrow> \<exists>r. map_of (ts_by_tenant s) t = Some r"
  by (auto simp: tenant_store_ok_def intro: ranI)

lemma tenant_has_bearer:
  "tenant_store_ok s \<Longrightarrow> map_of (ts_by_tenant s) t = Some r \<Longrightarrow> \<exists>b. map_of (ts_by_bearer s) b = Some t"
  by (auto simp: tenant_store_ok_def ran_def)

lemma new_tenant_store_ok: "tenant_store_ok (new_tenant_store ttl)"
  by (simp add: tenant_store_ok_def new_tenant_store_def)

lemma mint_Inr:
  assumes "mint now rand owner s = (s', Inr (bearer, tid, t))"
  shows "owner \<noteq> [] \<and> t = now + ts_ttl s \<and> ts_ttl s' = ts_ttl s
    \<and> (\<exists>b. rand bearer_len = Inr b \<and> bearer = hex_encode b)
    \<and> (\<exists>b. rand 8 = Inr b \<and> tid = tenant_prefix @ hex_encode b)
    \<and> ts_by_bearer s' = AList.update bearer tid (ts_by_bearer s)
    \<and> ts_by_tenant s' = AList.update tid
         \<lparr>tr_tenant_id = tid, tr_owner = owner, tr_expires_at = t\<rparr> (ts_by_tenant s)"
  using assms by (auto simp: mint_def Let_def split: if_splits sum.splits)

lemma mint_Inl: "mint now rand owner s = (s', Inl e) \<Longrightarrow> s' = s"
  by (auto simp: mint_def Let_def split: if_splits sum.splits)

lemma mint_ok:
  assumes "tenant_store_ok s" and "mint now rand owner s = (s', Inr (bearer, tid, t))"
    and fresh: "map_of (ts_by_bearer s) bearer = None" "map_of (ts_by_tenant s) tid = None"
  shows "tenant_store_ok s'"
proof -
  note m = mint_Inr [OF assms(2)]
  have ran: "ran ((map_of (ts_by_bearer s))(bearer \<mapsto> tid)) = insert tid (dom (map_of (ts_by_tenant s)))"
    using assms(1) fresh by (simp add: tenant_store_ok_def)
  have "tid \<notin> ran (map_of (ts_by_bearer s))"
    using assms(1) fresh by (auto simp: tenant_store_ok_def)
  then have "inj_on ((map_of (ts_by_bearer s))(bearer \<mapsto> tid))
      (insert bearer (dom (map_of (ts_by_bearer s))))"
    using assms(1) fresh unfolding tenant_store_ok_def inj_on_def
    by (auto simp: ran_def)
  with ran show ?thesis
    using m assms(1) unfolding tenant_store_ok_def
    by (auto simp: update_conv')
qed

text \<open>The sweep on a store in step: exactly the dead tenants and their bearers go.\<close>

lemma sweep_tenants_eq:
  assumes "tenant_store_ok s"
  shows "sweep_tenants now s =
    s\<lparr>ts_by_bearer := gomap_filter (\<lambda>_ t. \<not> stale now s t) (ts_by_bearer s),
      ts_by_tenant := gomap_filter (\<lambda>_ r. \<not> tenant_dead now r) (ts_by_tenant s)\<rparr>"
proof -
  note ok = tenant_store_ok_gomap [OF assms]
  have b: "(\<exists>t'. (b, t') \<in> set (ts_by_bearer s) \<and> stale now s t') \<longleftrightarrow> stale now s t"
    if "(b, t) \<in> set (ts_by_bearer s)" for b t
    using that by (auto simp flip: gomap_in_set [OF ok(1)])
  have t: "(\<exists>b. (b, t) \<in> set (ts_by_bearer s) \<and> stale now s t) = tenant_dead now r"
    if "(t, r) \<in> set (ts_by_tenant s)" for t r
  proof -
    from that have r: "map_of (ts_by_tenant s) t = Some r" by (simp add: gomap_in_set [OF ok(2)])
    then have "t \<in> ran (map_of (ts_by_bearer s))"
      using assms by (auto simp: tenant_store_ok_def)
    then obtain b where "(b, t) \<in> set (ts_by_bearer s)"
      by (auto simp: ran_def gomap_in_set [OF ok(1)])
    with r show ?thesis by (auto simp: stale_def)
  qed
  show ?thesis
    unfolding sweep_tenants_def sweep_fold gomap_filter_def
  proof (intro ts_maps_cong filter_cong refl)
    fix x assume x: "x \<in> set (ts_by_bearer s)"
    obtain b' t' where xeq: "x = (b', t')" by (cases x)
    show "(case x of (b, _) \<Rightarrow> \<not> (\<exists>t. (b, t) \<in> set (ts_by_bearer s) \<and> stale now s t)) =
        (case x of (_, t) \<Rightarrow> \<not> stale now s t)"
      using x unfolding xeq by (simp only: prod.case b)
  next
    fix x assume x: "x \<in> set (ts_by_tenant s)"
    obtain t' r' where xeq: "x = (t', r')" by (cases x)
    show "(case x of (t, _) \<Rightarrow> \<not> (\<exists>b. (b, t) \<in> set (ts_by_bearer s) \<and> stale now s t)) =
        (case x of (_, r) \<Rightarrow> \<not> tenant_dead now r)"
      using x unfolding xeq by (simp only: prod.case t)
  qed
qed

lemma sweep_tenants_ok:
  assumes "tenant_store_ok s"
  shows "tenant_store_ok (sweep_tenants now s)"
proof -
  note ok = tenant_store_ok_gomap [OF assms]
  have b: "map_of (ts_by_bearer (sweep_tenants now s)) b =
      (case map_of (ts_by_bearer s) b of None \<Rightarrow> None
       | Some t \<Rightarrow> if stale now s t then None else Some t)" for b
    by (simp add: sweep_tenants_eq [OF assms] gomap_get_filter ok split: option.splits)
  have t: "map_of (ts_by_tenant (sweep_tenants now s)) t =
      (case map_of (ts_by_tenant s) t of None \<Rightarrow> None
       | Some r \<Rightarrow> if tenant_dead now r then None else Some r)" for t
    by (simp add: sweep_tenants_eq [OF assms] gomap_get_filter ok split: option.splits)
  have "ran (map_of (ts_by_bearer (sweep_tenants now s))) = dom (map_of (ts_by_tenant (sweep_tenants now s)))"
    using bearer_has_tenant [OF assms] tenant_has_bearer [OF assms]
    by (fastforce simp: ran_def dom_def b t stale_def split: option.splits if_splits)
  moreover have "inj_on (map_of (ts_by_bearer (sweep_tenants now s)))
      (dom (map_of (ts_by_bearer (sweep_tenants now s))))"
    by (rule inj_onI) (auto simp: b split: option.splits if_splits intro: bearer_unique [OF assms])
  moreover have "tr_tenant_id r = u \<and> tr_owner r \<noteq> []"
    if "map_of (ts_by_tenant (sweep_tenants now s)) u = Some r" for u r
    using that assms by (auto simp: t tenant_store_ok_def split: option.splits if_splits)
  moreover have "gomap_ok (ts_by_bearer (sweep_tenants now s))"
      "gomap_ok (ts_by_tenant (sweep_tenants now s))"
    by (simp_all add: sweep_tenants_eq [OF assms] ok)
  ultimately show ?thesis unfolding tenant_store_ok_def by blast
qed

lemma sweep_tenants_frame [go_frame, simp]: "ts_ttl (sweep_tenants now s) = ts_ttl s"
  by (simp add: sweep_tenants_def sweep_fold)

lemma sweep_tenants_entries:
  "tenant_store_ok s \<Longrightarrow>
     ts_by_tenant (sweep_tenants now s) = gomap_filter (\<lambda>_ r. \<not> tenant_dead now r) (ts_by_tenant s)"
  by (simp add: sweep_tenants_eq)

interpretation ts: expiring_store ts_by_tenant "\<lambda>_. tenant_dead" sweep_tenants tenant_store_ok
  by unfold_locales
    (auto simp: sweep_tenants_entries tenant_dead_def
      intro: tenant_store_ok_gomap sweep_tenants_ok)

section \<open>Looking a bearer up\<close>

lemma lookup_Inr_iff:
  "lookup_by_bearer now s bearer = Inr r \<longleftrightarrow>
     (\<exists>t. map_of (ts_by_bearer s) bearer = Some t \<and> map_of (ts_by_tenant s) t = Some r)
     \<and> now < tr_expires_at r"
  by (auto simp: lookup_by_bearer_def split: option.splits)

lemma lookup_errors:
  "lookup_by_bearer now s bearer = Inl e \<Longrightarrow> e = Bearer_Not_Found \<or> e = Bearer_Expired"
  by (auto simp: lookup_by_bearer_def split: option.splits if_splits)

lemma lookup_after_mint:
  assumes "mint now rand owner s = (s', Inr (bearer, tid, t))" and "later < t"
  shows "lookup_by_bearer later s' bearer =
    Inr \<lparr>tr_tenant_id = tid, tr_owner = owner, tr_expires_at = t\<rparr>"
  using mint_Inr [OF assms(1)] assms(2)
  by (simp add: lookup_Inr_iff update_conv')

lemma lookup_expired_after_mint:
  assumes "mint now rand owner s = (s', Inr (bearer, tid, t))" and "t \<le> later"
  shows "lookup_by_bearer later s' bearer = Inl Bearer_Expired"
  using mint_Inr [OF assms(1)] assms(2)
  by (simp add: lookup_by_bearer_def update_conv')

text \<open>Minting again leaves every other bearer's record as it was.\<close>

lemma lookup_other_after_mint:
  assumes "mint now rand owner s = (s', Inr (bearer, tid, t))" and "tenant_store_ok s"
    and "map_of (ts_by_tenant s) tid = None" and "b \<noteq> bearer"
  shows "lookup_by_bearer later s' b = lookup_by_bearer later s b"
proof -
  have "map_of (ts_by_bearer s) b \<noteq> Some tid"
    using bearer_has_tenant [OF assms(2)] assms(3) by fastforce
  then show ?thesis
    using mint_Inr [OF assms(1)] assms(4)
    by (simp add: lookup_by_bearer_def update_conv' split: option.splits)
qed

text \<open>A sweep changes no answer but turns an expired bearer into an unknown one.\<close>

lemma lookup_after_sweep:
  assumes "tenant_store_ok s" and "now \<le> later"
  shows "lookup_by_bearer later (sweep_tenants now s) b = Inr r \<longleftrightarrow>
    lookup_by_bearer later s b = Inr r"
  using assms tenant_store_ok_gomap [OF assms(1)]
  by (auto simp: lookup_Inr_iff sweep_tenants_eq gomap_get_filter stale_def tenant_dead_def
      split: option.splits if_splits)

section \<open>Properties\<close>

text \<open>C35: Sweeping the tenant store is independent of the order Go ranges over the bearers, keeps the
  two maps in step, and never changes which bearers resolve from then on: it only forgets
  tenants that have expired.\<close>

theorem tenant_sweep_harmless:
  assumes "tenant_store_ok s" and "set order = set (ts_by_bearer s)" and "now \<le> later"
  shows "fold (sweep_step now) order s = sweep_tenants now s
    \<and> tenant_store_ok (sweep_tenants now s)
    \<and> (lookup_by_bearer later (sweep_tenants now s) b = Inr r \<longleftrightarrow> lookup_by_bearer later s b = Inr r)
    \<and> (\<forall>t rec. map_of (ts_by_tenant (sweep_tenants now s)) t = Some rec \<longrightarrow> now < tr_expires_at rec)"
  using sweep_any_order [OF assms(2)] sweep_tenants_ok [OF assms(1)]
    lookup_after_sweep [OF assms(1,3)] ts.sweep_drops_dead [OF assms(1)]
  by (auto simp: tenant_dead_def)

text \<open>Two tenants, of which one is dead at the sweep.\<close>

definition two_tenants :: tenant_store where
  "two_tenants = \<lparr>ts_ttl = 10, ts_by_bearer = [(''b1'', ''t1''), (''b2'', ''t2'')],
     ts_by_tenant = [(''t1'', \<lparr>tr_tenant_id = ''t1'', tr_owner = ''alice'', tr_expires_at = 10\<rparr>),
                     (''t2'', \<lparr>tr_tenant_id = ''t2'', tr_owner = ''bob'', tr_expires_at = 20\<rparr>)]\<rparr>"

lemma two_tenants_ok: "tenant_store_ok two_tenants"
  by (auto simp: tenant_store_ok_def two_tenants_def gomap_ok_def inj_on_def split: if_splits)

theorem tenant_sweep_harmless_witness:
  "fold (sweep_step 12) [(''b2'', ''t2''), (''b1'', ''t1'')] two_tenants = sweep_tenants 12 two_tenants
    \<and> lookup_by_bearer 15 (sweep_tenants 12 two_tenants) ''b2''
      = Inr \<lparr>tr_tenant_id = ''t2'', tr_owner = ''bob'', tr_expires_at = 20\<rparr>"
proof -
  have "set [(''b2'', ''t2''), (''b1'', ''t1'')] = set (ts_by_bearer two_tenants)"
    by (auto simp: two_tenants_def)
  from tenant_sweep_harmless [OF two_tenants_ok this, of 12 15 "''b2''"
      "\<lparr>tr_tenant_id = ''t2'', tr_owner = ''bob'', tr_expires_at = 20\<rparr>"]
  show ?thesis by (simp add: lookup_by_bearer_def two_tenants_def)
qed

text \<open>A minted bearer resolves to its owner until its lifetime is over and is refused as expired
  from that instant on; minting under a fresh tenant id and bearer keeps the store's two maps in
  step and changes what no other bearer resolves to.\<close>

theorem mint_then_lookup:
  assumes "mint now rand owner s = (s', Inr (bearer, tid, t))" and "tenant_store_ok s"
    and "map_of (ts_by_bearer s) bearer = None" and "map_of (ts_by_tenant s) tid = None"
  shows "tenant_store_ok s' \<and> t = now + ts_ttl s
    \<and> lookup_by_bearer later s' bearer =
       (if later < t then Inr \<lparr>tr_tenant_id = tid, tr_owner = owner, tr_expires_at = t\<rparr>
        else Inl Bearer_Expired)
    \<and> (\<forall>b. b \<noteq> bearer \<longrightarrow> lookup_by_bearer later s' b = lookup_by_bearer later s b)"
  using mint_ok [OF assms(2,1,3,4)] mint_Inr [OF assms(1)]
    lookup_after_mint [OF assms(1), of later] lookup_expired_after_mint [OF assms(1), of later]
    lookup_other_after_mint [OF assms(1,2,4)]
  by auto

theorem mint_then_lookup_witness:
  "lookup_by_bearer 24
     (fst (mint 20 (\<lambda>n. Inr (replicate n CHR ''A'')) ''carol'' two_tenants))
     (hex_encode (replicate 32 CHR ''A'')) =
   Inr \<lparr>tr_tenant_id = ''auto-4141414141414141'', tr_owner = ''carol'', tr_expires_at = 30\<rparr>"
proof -
  let ?r = "\<lambda>n. Inr (replicate n CHR ''A'') :: string + string"
  let ?b = "hex_encode (replicate 32 CHR ''A'')" and ?t = "''auto-4141414141414141''"
  have m: "mint 20 ?r ''carol'' two_tenants =
      (fst (mint 20 ?r ''carol'' two_tenants), Inr (?b, ?t, 30))"
    by (simp add: mint_def two_tenants_def bearer_len_def tenant_prefix_def eval_nat_numeral
        hex_digit_def del: replicate.simps) code_simp
  have "length ?b = 64" by simp
  then have "map_of (ts_by_bearer two_tenants) ?b = None"
    by (auto simp: two_tenants_def dest: arg_cong [where f = length])
  moreover have "map_of (ts_by_tenant two_tenants) ?t = None" by (simp add: two_tenants_def)
  ultimately show ?thesis
    using mint_then_lookup [OF m two_tenants_ok, of 24] by simp
qed

end
