(* ===== verification/Auth_Service.thy ===== *)
theory Auth_Service
  imports Challenge Nonce_Store Tenant_Store
begin

text \<open>
  The login and relay operations of the agent (\<open>internal/agenttools/service.go\<close> and
  \<open>internal/mcp/auth/recover.go\<close>) over the two stores, the system they form over a run of
  requests, and who can hold a bearer.

  go-ethereum and the Cosmos SDK are arguments: \<open>keccak\<close>, \<open>sig_to_pub\<close> and the address of a
  public key in a record \<open>wallet\<close>, the RPC client and the transaction codec in \<open>evm_client\<close>.
\<close>

section \<open>Recovering the signer\<close>

record 'pub wallet =
  w_keccak :: "string \<Rightarrow> string"
  w_sig_to_pub :: "string \<Rightarrow> string \<Rightarrow> string + 'pub"
  w_acc_address :: "'pub \<Rightarrow> string"

datatype recover_error = Bad_Signature_Length nat | Recover_Pubkey string

definition recover_owner :: "'pub wallet \<Rightarrow> string \<Rightarrow> string \<Rightarrow> recover_error + string" where
  "recover_owner w message signature =
     (if length signature \<noteq> 65 then Inl (Bad_Signature_Length (length signature))
      else (case w_sig_to_pub w (w_keccak w message) signature of
          Inl e \<Rightarrow> Inl (Recover_Pubkey e)
        | Inr pub \<Rightarrow> Inr (w_acc_address w pub)))"

section \<open>The service\<close>

record service =
  sv_chain_id :: string
  sv_nonces :: nonce_store
  sv_tenants :: tenant_store
  sv_seen :: "(string, time) gomap"

definition new_service :: "string \<Rightarrow> nonce_store \<Rightarrow> tenant_store \<Rightarrow> service" where
  "new_service chain_id nonces tenants =
     \<lparr>sv_chain_id = chain_id, sv_nonces = nonces, sv_tenants = tenants, sv_seen = []\<rparr>"

datatype auth_error =
    Owner_Required
  | Issue_Nonce nonce_error
  | Nonce_Not_Found_Or_Used
  | Nonce_Expired_Rerun
  | Consume_Failed nonce_error
  | Decode_Signature
  | Recover_Address recover_error
  | Owner_Mismatch
  | Mint_Tenant tenant_error

record challenge_output =
  co_challenge :: string
  co_nonce :: string
  co_expires_at :: int

record verify_input =
  vi_nonce :: string
  vi_signature :: string

record verify_output =
  vo_bearer_token :: string
  vo_owner :: string
  vo_expires_at :: int

definition auth_challenge ::
    "time \<Rightarrow> (nat \<Rightarrow> string + string) \<Rightarrow> string \<Rightarrow> service \<Rightarrow>
     service \<times> (auth_error + challenge_output)" where
  "auth_challenge now rand owner sv =
     (if owner = [] then (sv, Inl Owner_Required)
      else (case issue_nonce now rand owner (sv_nonces sv) of
          (ns, Inl e) \<Rightarrow> (sv\<lparr>sv_nonces := ns\<rparr>, Inl (Issue_Nonce e))
        | (ns, Inr (nonce, expiry)) \<Rightarrow>
            (sv\<lparr>sv_nonces := ns\<rparr>,
             Inr \<lparr>co_challenge = build_challenge (sv_chain_id sv) nonce expiry,
                  co_nonce = nonce, co_expires_at = unix_seconds expiry\<rparr>)))"

text \<open>\<open>t_consume\<close> and \<open>t_mint\<close> are the two clock readings of one request.\<close>

definition auth_verify ::
    "'pub wallet \<Rightarrow> time \<Rightarrow> time \<Rightarrow> (nat \<Rightarrow> string + string) \<Rightarrow> verify_input \<Rightarrow> service \<Rightarrow>
     service \<times> (auth_error + verify_output)" where
  "auth_verify w t_consume t_mint rand inp sv =
     (case consume_nonce t_consume (vi_nonce inp) (sv_nonces sv) of
        (ns, Inl e) \<Rightarrow>
          (sv\<lparr>sv_nonces := ns\<rparr>,
           Inl (case e of Nonce_Not_Found \<Rightarrow> Nonce_Not_Found_Or_Used
                | Nonce_Expired \<Rightarrow> Nonce_Expired_Rerun
                | _ \<Rightarrow> Consume_Failed e))
      | (ns, Inr (owner, expiry)) \<Rightarrow>
          (let sv = sv\<lparr>sv_nonces := ns\<rparr>
           in case base64_decode (vi_signature inp) of
                None \<Rightarrow> (sv, Inl Decode_Signature)
              | Some sig \<Rightarrow>
                  (case recover_owner w (build_challenge (sv_chain_id sv) (vi_nonce inp) expiry) sig of
                     Inl e \<Rightarrow> (sv, Inl (Recover_Address e))
                   | Inr recovered \<Rightarrow>
                       if recovered \<noteq> owner then (sv, Inl Owner_Mismatch)
                       else (case mint t_mint rand owner (sv_tenants sv) of
                           (ts, Inl e) \<Rightarrow> (sv\<lparr>sv_tenants := ts\<rparr>, Inl (Mint_Tenant e))
                         | (ts, Inr (bearer, _, expires_at)) \<Rightarrow>
                             (sv\<lparr>sv_tenants := ts\<rparr>,
                              Inr \<lparr>vo_bearer_token = bearer, vo_owner = owner,
                                   vo_expires_at = unix_seconds expires_at\<rparr>)))))"

text \<open>The replay guard keyed by tenant and client id.\<close>

definition claim_key :: "string \<Rightarrow> string \<Rightarrow> string" where
  "claim_key tenant_id client_id = tenant_id @ ''|'' @ client_id"

definition claim :: "time \<Rightarrow> string \<Rightarrow> string \<Rightarrow> service \<Rightarrow> service \<times> (string + unit)" where
  "claim now tenant_id client_id sv =
     (let key = claim_key tenant_id client_id
      in case map_of (sv_seen sv) key of
           Some expiry \<Rightarrow>
             if now < expiry then (sv, Inl client_id)
             else (sv\<lparr>sv_seen := AList.update key (now + 10 * go_minute) (sv_seen sv)\<rparr>, Inr ())
         | None \<Rightarrow>
             (sv\<lparr>sv_seen := AList.update key (now + 10 * go_minute) (sv_seen sv)\<rparr>, Inr ()))"

section \<open>Relaying signed transactions\<close>

text \<open>
  \<open>TransactionReceipt\<close> answers with a receipt, with \<open>ethereum.NotFound\<close> or with another
  error. A block number is a big integer and \<open>Int64\<close> keeps its low 64 bits.
\<close>

record receipt =
  rc_status :: nat
  rc_block_number :: int
  rc_gas_used :: nat

datatype receipt_reply = Receipt receipt | Receipt_Not_Found | Receipt_Error string

record 'tx evm_client =
  ec_hex_decode :: "string \<Rightarrow> string + string"
  ec_unmarshal_tx :: "string \<Rightarrow> string + 'tx"
  ec_send :: "'tx \<Rightarrow> string option"
  ec_tx_hash_hex :: "'tx \<Rightarrow> string"
  ec_hex_to_hash :: "string \<Rightarrow> string"
  ec_receipt :: "string \<Rightarrow> receipt_reply"

datatype relay_error =
    Missing_Client_Id
  | Decode_Raw_Tx string
  | Decode_Signed_Tx string
  | Broadcast_Failed string
  | Receipt_Failed string string

record broadcast_input =
  bi_client_id :: string
  bi_raw_tx_hex :: string

text \<open>The first component of the result is what was handed to \<open>SendTransaction\<close>.\<close>

definition broadcast :: "'tx evm_client \<Rightarrow> broadcast_input \<Rightarrow> 'tx list \<times> (relay_error + string)" where
  "broadcast ec inp =
     (if bi_client_id inp = [] then ([], Inl Missing_Client_Id)
      else (case ec_hex_decode ec (bi_raw_tx_hex inp) of
          Inl e \<Rightarrow> ([], Inl (Decode_Raw_Tx e))
        | Inr raw \<Rightarrow>
            (case ec_unmarshal_tx ec raw of
               Inl e \<Rightarrow> ([], Inl (Decode_Signed_Tx e))
             | Inr tx \<Rightarrow>
                 (case ec_send ec tx of
                    Some e \<Rightarrow> ([tx], Inl (Broadcast_Failed e))
                  | None \<Rightarrow> ([tx], Inr (ec_tx_hash_hex ec tx))))))"

record tx_status_output =
  to_tx_hash :: string
  to_status :: string
  to_block_number :: int
  to_gas_used :: nat

definition big_to_int64 :: "int \<Rightarrow> int" where
  "big_to_int64 n = (n + 2 ^ 63) mod 2 ^ 64 - 2 ^ 63"

definition receipt_status_successful :: nat where
  "receipt_status_successful = 1"

definition tx_status :: "'tx evm_client \<Rightarrow> string \<Rightarrow> relay_error + tx_status_output" where
  "tx_status ec tx_hash =
     (case ec_receipt ec (ec_hex_to_hash ec tx_hash) of
        Receipt_Not_Found \<Rightarrow>
          Inr \<lparr>to_tx_hash = tx_hash, to_status = ''pending'', to_block_number = 0, to_gas_used = 0\<rparr>
      | Receipt_Error e \<Rightarrow> Inl (Receipt_Failed tx_hash e)
      | Receipt r \<Rightarrow>
          Inr \<lparr>to_tx_hash = tx_hash,
               to_status = (if rc_status r = receipt_status_successful then ''success'' else ''failed''),
               to_block_number = big_to_int64 (rc_block_number r), to_gas_used = rc_gas_used r\<rparr>)"

section \<open>The login on every branch\<close>

lemma recover_owner_Inr:
  "recover_owner w m sig = Inr a \<Longrightarrow> length sig = 65"
  by (simp add: recover_owner_def split: if_splits)

lemma auth_challenge_Inr:
  assumes "auth_challenge now rand owner sv = (sv', Inr out)"
  shows "\<exists>ns t. issue_nonce now rand owner (sv_nonces sv) = (ns, Inr (co_nonce out, t))
    \<and> sv' = sv\<lparr>sv_nonces := ns\<rparr>
    \<and> co_challenge out = build_challenge (sv_chain_id sv) (co_nonce out) t
    \<and> co_expires_at out = unix_seconds t"
  using assms by (auto simp: auth_challenge_def split: if_splits prod.splits sum.splits)

lemma auth_challenge_Inl:
  "auth_challenge now rand owner sv = (sv', Inl e) \<Longrightarrow> sv' = sv"
  by (auto simp: auth_challenge_def split: if_splits prod.splits sum.splits dest: issue_nonce_Inl)

text \<open>What a granted bearer rests on.\<close>

definition login_justified ::
    "'pub wallet \<Rightarrow> time \<Rightarrow> verify_input \<Rightarrow> service \<Rightarrow> string \<Rightarrow> bool" where
  "login_justified w now inp sv owner \<longleftrightarrow>
     (\<exists>e sig. map_of (ns_entries (sv_nonces sv)) (vi_nonce inp) = Some e
        \<and> ne_owner e = owner \<and> now < ne_expires_at e
        \<and> base64_decode (vi_signature inp) = Some sig
        \<and> recover_owner w (build_challenge (sv_chain_id sv) (vi_nonce inp) (ne_expires_at e)) sig
            = Inr owner)"

lemma auth_verify_Inr:
  assumes "auth_verify w t1 t2 rand inp sv = (sv', Inr out)"
  shows "login_justified w t1 inp sv (vo_owner out)
    \<and> (\<exists>ts tid t. mint t2 rand (vo_owner out) (sv_tenants sv) = (ts, Inr (vo_bearer_token out, tid, t))
        \<and> sv' = sv\<lparr>sv_nonces := fst (consume_nonce t1 (vi_nonce inp) (sv_nonces sv)),
                   sv_tenants := ts\<rparr>
        \<and> vo_expires_at out = unix_seconds t)"
proof -
  obtain ns r where c: "consume_nonce t1 (vi_nonce inp) (sv_nonces sv) = (ns, r)"
    by (cases "consume_nonce t1 (vi_nonce inp) (sv_nonces sv)")
  with assms obtain owner expiry where r: "r = Inr (owner, expiry)"
    by (cases r) (auto simp: auth_verify_def)
  from c r have entry: "map_of (ns_entries (sv_nonces sv)) (vi_nonce inp)
      = Some \<lparr>ne_owner = owner, ne_expires_at = expiry\<rparr>" "t1 < expiry"
    using consume_Inr_iff [of t1 "vi_nonce inp" "sv_nonces sv" owner expiry] by simp_all
  from assms c r show ?thesis
    by (auto simp: auth_verify_def Let_def login_justified_def entry
        split: option.splits sum.splits if_splits prod.splits)
qed

text \<open>A refused verification still burns the nonce and gives no bearer away.\<close>

lemma auth_verify_Inl:
  assumes "auth_verify w t1 t2 rand inp sv = (sv', Inl e)"
  shows "sv' = sv\<lparr>sv_nonces := fst (consume_nonce t1 (vi_nonce inp) (sv_nonces sv))\<rparr>"
  using assms
  by (cases "consume_nonce t1 (vi_nonce inp) (sv_nonces sv)")
    (auto simp: auth_verify_def Let_def split: option.splits sum.splits if_splits prod.splits
      dest: mint_Inl)

lemma auth_verify_nonces:
  "sv_nonces (fst (auth_verify w t1 t2 rand inp sv)) =
     fst (consume_nonce t1 (vi_nonce inp) (sv_nonces sv))"
  by (cases "auth_verify w t1 t2 rand inp sv"; cases "snd (auth_verify w t1 t2 rand inp sv)")
    (auto dest: auth_verify_Inl auth_verify_Inr)

lemma auth_verify_tenants:
  "sv_tenants (fst (auth_verify w t1 t2 rand inp sv)) = sv_tenants sv
    \<or> (\<exists>out ts tid t. snd (auth_verify w t1 t2 rand inp sv) = Inr out
        \<and> login_justified w t1 inp sv (vo_owner out)
        \<and> mint t2 rand (vo_owner out) (sv_tenants sv) = (ts, Inr (vo_bearer_token out, tid, t))
        \<and> sv_tenants (fst (auth_verify w t1 t2 rand inp sv)) = ts)"
  by (cases "auth_verify w t1 t2 rand inp sv"; cases "snd (auth_verify w t1 t2 rand inp sv)")
    (auto dest: auth_verify_Inl auth_verify_Inr)

lemma service_frame [go_frame, simp]:
  "sv_chain_id (fst (auth_challenge now rand owner sv)) = sv_chain_id sv"
  "sv_tenants (fst (auth_challenge now rand owner sv)) = sv_tenants sv"
  "sv_chain_id (fst (auth_verify w t1 t2 rand inp sv)) = sv_chain_id sv"
  by (auto simp: auth_challenge_def auth_verify_def Let_def
      split: sum.splits option.splits prod.splits if_splits)

lemma claim_key_inj:
  "claim_key t c = claim_key t' c' \<Longrightarrow> CHR ''|'' \<notin> set t \<Longrightarrow> CHR ''|'' \<notin> set t' \<Longrightarrow>
     t = t' \<and> c = c'"
  by (simp add: claim_key_def sep_inj)

section \<open>A concrete login\<close>

text \<open>The wallet recovers the first three bytes of the signature as the address.\<close>

definition demo_wallet :: "string wallet" where
  "demo_wallet = \<lparr>w_keccak = (\<lambda>m. m), w_sig_to_pub = (\<lambda>_ sig. Inr (take 3 sig)), w_acc_address = (\<lambda>p. p)\<rparr>"

definition demo_rand :: "nat \<Rightarrow> string + string" where
  "demo_rand n = Inr (replicate n CHR 0x07)"

definition demo_nonce :: string where
  "demo_nonce = hex_encode (replicate 16 CHR 0x07)"

definition demo_verify :: verify_input where
  "demo_verify = \<lparr>vi_nonce = demo_nonce, vi_signature = concat (replicate 21 ''QUFB'') @ ''QUE=''\<rparr>"

definition demo_service :: service where
  "demo_service = fst (auth_challenge 100 demo_rand ''AAA''
     (new_service ''svp-1'' (new_nonce_store default_challenge_ttl) (new_tenant_store default_bearer_ttl)))"

lemma demo_service_ok: "nonce_store_ok (sv_nonces demo_service)"
proof -
  have "sv_nonces demo_service = fst (issue_nonce 100 demo_rand ''AAA'' (new_nonce_store default_challenge_ttl))"
    by code_simp
  then show ?thesis by (simp add: issue_nonce_ok new_nonce_store_ok)
qed

lemma demo_justified: "login_justified demo_wallet 200 demo_verify demo_service ''AAA''"
  unfolding login_justified_def
  by (intro exI [of _ "\<lparr>ne_owner = ''AAA'', ne_expires_at = 100 + default_challenge_ttl\<rparr>"]
      exI [of _ "concat (replicate 21 ''AAA'') @ ''AA''"]) code_simp

section \<open>Properties\<close>

text \<open>C9: The verification succeeds exactly when the nonce is pending for an owner and unexpired, the
  signature is valid base64 of a signature whose recovered address over the canonical challenge is
  that owner, and randomness is to be had for the bearer. On every branch the nonce is gone
  afterwards, and unless it succeeds no tenant is touched.\<close>

theorem auth_verify_complete:
  assumes "nonce_store_ok (sv_nonces sv)"
  shows "((\<exists>out. snd (auth_verify w t1 t2 rand inp sv) = Inr out) \<longleftrightarrow>
      (\<exists>owner b1 b2. login_justified w t1 inp sv owner
        \<and> rand bearer_len = Inr b1 \<and> rand 8 = Inr b2))
    \<and> map_of (ns_entries (sv_nonces (fst (auth_verify w t1 t2 rand inp sv)))) (vi_nonce inp) = None
    \<and> ((\<exists>e. snd (auth_verify w t1 t2 rand inp sv) = Inl e) \<longrightarrow>
      sv_tenants (fst (auth_verify w t1 t2 rand inp sv)) = sv_tenants sv)"
proof (intro conjI impI)
  show "map_of (ns_entries (sv_nonces (fst (auth_verify w t1 t2 rand inp sv)))) (vi_nonce inp) = None"
    by (simp add: auth_verify_nonces consume_burns)
  show "sv_tenants (fst (auth_verify w t1 t2 rand inp sv)) = sv_tenants sv"
    if "\<exists>e. snd (auth_verify w t1 t2 rand inp sv) = Inl e"
    using that auth_verify_tenants [of w t1 t2 rand inp sv] by auto
  show "(\<exists>out. snd (auth_verify w t1 t2 rand inp sv) = Inr out) \<longleftrightarrow>
      (\<exists>owner b1 b2. login_justified w t1 inp sv owner
        \<and> rand bearer_len = Inr b1 \<and> rand 8 = Inr b2)"
  proof
    assume "\<exists>out. snd (auth_verify w t1 t2 rand inp sv) = Inr out"
    then obtain out where "auth_verify w t1 t2 rand inp sv = (fst (auth_verify w t1 t2 rand inp sv), Inr out)"
      by (metis prod.collapse)
    from auth_verify_Inr [OF this] show "\<exists>owner b1 b2. login_justified w t1 inp sv owner
        \<and> rand bearer_len = Inr b1 \<and> rand 8 = Inr b2"
      using mint_Inr by blast
  next
    assume "\<exists>owner b1 b2. login_justified w t1 inp sv owner
        \<and> rand bearer_len = Inr b1 \<and> rand 8 = Inr b2"
    then obtain owner b1 b2 e sig where rand: "rand bearer_len = Inr b1" "rand 8 = Inr b2"
      and e: "map_of (ns_entries (sv_nonces sv)) (vi_nonce inp) = Some e" "ne_owner e = owner"
        "t1 < ne_expires_at e"
      and sig: "base64_decode (vi_signature inp) = Some sig"
        "recover_owner w (build_challenge (sv_chain_id sv) (vi_nonce inp) (ne_expires_at e)) sig
           = Inr owner"
      unfolding login_justified_def by blast
    have "owner \<noteq> []" using assms e by (auto simp: nonce_store_ok_def ran_def)
    with rand e sig show "\<exists>out. snd (auth_verify w t1 t2 rand inp sv) = Inr out"
      by (auto simp: auth_verify_def consume_nonce_def Let_def mint_def)
  qed
qed

theorem auth_verify_complete_witness:
  "\<exists>out. snd (auth_verify demo_wallet 200 300 demo_rand demo_verify demo_service) = Inr out"
proof -
  have "demo_rand bearer_len = Inr (replicate bearer_len CHR 0x07)" "demo_rand 8 = Inr (replicate 8 CHR 0x07)"
    by (simp_all add: demo_rand_def)
  with demo_justified show ?thesis
    using auth_verify_complete [OF demo_service_ok, of demo_wallet 200 300 demo_rand demo_verify]
    by blast
qed

text \<open>The replay guard refuses a client id of a tenant for ten minutes after it was claimed and
  accepts it again from then on, and for tenant ids without a bar it confuses no two pairs of
  tenant and client.\<close>

theorem claim_guards_ten_minutes:
  assumes "claim now tenant client sv = (sv', Inr ())"
    and "CHR ''|'' \<notin> set tenant" and "CHR ''|'' \<notin> set tenant'"
  shows "(is_ok (snd (claim later tenant client sv')) \<longleftrightarrow> now + 10 * go_minute \<le> later)
    \<and> ((tenant', client') \<noteq> (tenant, client) \<longrightarrow>
      snd (claim later tenant' client' sv') = snd (claim later tenant' client' sv))"
proof (intro conjI impI)
  have sv': "sv_seen sv' = AList.update (claim_key tenant client) (now + 10 * go_minute) (sv_seen sv)"
    using assms(1) by (auto simp: claim_def Let_def split: option.splits if_splits)
  show "is_ok (snd (claim later tenant client sv')) \<longleftrightarrow> now + 10 * go_minute \<le> later"
    by (simp add: claim_def Let_def update_conv' sv')
  assume "(tenant', client') \<noteq> (tenant, client)"
  then have "claim_key tenant' client' \<noteq> claim_key tenant client"
    using assms(2,3) claim_key_inj by blast
  then show "snd (claim later tenant' client' sv') = snd (claim later tenant' client' sv)"
    by (simp add: claim_def Let_def sv' update_conv' split: option.splits)
qed

theorem claim_guards_ten_minutes_witness:
  "\<not> is_ok (snd (claim 100 ''auto-1'' ''x'' (fst (claim 50 ''auto-1'' ''x''
     (new_service ''c'' (new_nonce_store 300) (new_tenant_store 10))))))"
proof -
  let ?sv = "new_service ''c'' (new_nonce_store 300) (new_tenant_store 10)"
  have "claim 50 ''auto-1'' ''x'' ?sv = (fst (claim 50 ''auto-1'' ''x'' ?sv), Inr ())"
    by (simp add: claim_def new_service_def Let_def)
  from claim_guards_ten_minutes [OF this, of "''auto-2''" 100] show ?thesis
    by (simp add: go_minute_def go_second_def)
qed

text \<open>A relay submits exactly the transaction it was given, once, and only when there is a client
  id and the hex and the transaction decode; it answers with that transaction's hash exactly when
  the node took it.\<close>

theorem broadcast_relays_what_was_signed:
  "(case fst (broadcast ec inp) of
      [] \<Rightarrow> bi_client_id inp = [] \<or> (\<exists>e. bindE (ec_hex_decode ec (bi_raw_tx_hex inp)) (ec_unmarshal_tx ec) = Inl e)
    | tx # rest \<Rightarrow> rest = [] \<and> bi_client_id inp \<noteq> []
        \<and> bindE (ec_hex_decode ec (bi_raw_tx_hex inp)) (ec_unmarshal_tx ec) = Inr tx)
   \<and> (snd (broadcast ec inp) = Inr h \<longleftrightarrow>
        (\<exists>tx. fst (broadcast ec inp) = [tx] \<and> ec_send ec tx = None \<and> h = ec_tx_hash_hex ec tx))"
  by (auto simp: broadcast_def split: sum.splits option.splits)

lemma big_to_int64_id: "- (2 ^ 63) \<le> n \<Longrightarrow> n < 2 ^ 63 \<Longrightarrow> big_to_int64 n = n"
  by (simp add: big_to_int64_def)

end
