(* ===== verification/Auth_System.thy ===== *)
theory Auth_System
  imports Auth_Service
begin

text \<open>
  The login as a system: any sequence of challenge and verify requests and of sweeps, each at
  its own clock reading and with its own randomness, from an empty service. The theorems are
  about every such run, so about every interleaving of callers.
\<close>

section \<open>Events\<close>

datatype auth_event =
    Ev_Challenge time "nat \<Rightarrow> string + string" string
  | Ev_Verify time time "nat \<Rightarrow> string + string" verify_input
  | Ev_Claim time string string
  | Ev_Sweep_Nonces time
  | Ev_Sweep_Tenants time

fun auth_step :: "'pub wallet \<Rightarrow> auth_event \<Rightarrow> service \<Rightarrow> service" where
  "auth_step w (Ev_Challenge now rand owner) sv = fst (auth_challenge now rand owner sv)"
| "auth_step w (Ev_Verify t1 t2 rand inp) sv = fst (auth_verify w t1 t2 rand inp sv)"
| "auth_step w (Ev_Claim now tid cid) sv = fst (claim now tid cid sv)"
| "auth_step w (Ev_Sweep_Nonces now) sv = sv\<lparr>sv_nonces := sweep_nonces now (sv_nonces sv)\<rparr>"
| "auth_step w (Ev_Sweep_Tenants now) sv = sv\<lparr>sv_tenants := sweep_tenants now (sv_tenants sv)\<rparr>"

definition initial_service :: "string \<Rightarrow> service" where
  "initial_service chain_id =
     new_service chain_id (new_nonce_store default_challenge_ttl) (new_tenant_store default_bearer_ttl)"

text \<open>The nonce a successful challenge hands out, and the one a successful verify spends.\<close>

fun nonce_issued :: "auth_event \<Rightarrow> service \<Rightarrow> string option" where
  "nonce_issued (Ev_Challenge now rand owner) sv =
     (case snd (auth_challenge now rand owner sv) of Inl _ \<Rightarrow> None | Inr out \<Rightarrow> Some (co_nonce out))"
| "nonce_issued _ sv = None"

fun nonce_spent :: "'pub wallet \<Rightarrow> auth_event \<Rightarrow> service \<Rightarrow> string option" where
  "nonce_spent w (Ev_Verify t1 t2 rand inp) sv =
     (case snd (auth_verify w t1 t2 rand inp sv) of Inl _ \<Rightarrow> None | Inr _ \<Rightarrow> Some (vi_nonce inp))"
| "nonce_spent w _ sv = None"

definition nonce_pending :: "service \<Rightarrow> string \<Rightarrow> bool" where
  "nonce_pending sv n \<longleftrightarrow> map_of (ns_entries (sv_nonces sv)) n \<noteq> None"

lemma claim_frame [go_frame, simp]:
  "sv_nonces (fst (claim now tid cid sv)) = sv_nonces sv"
  "sv_tenants (fst (claim now tid cid sv)) = sv_tenants sv"
  "sv_chain_id (fst (claim now tid cid sv)) = sv_chain_id sv"
  by (auto simp: claim_def Let_def split: option.splits)

lemma verify_success:
  "snd (auth_verify w t1 t2 rand inp sv) = Inr out \<Longrightarrow> login_justified w t1 inp sv (vo_owner out)"
  by (cases "auth_verify w t1 t2 rand inp sv") (auto dest: auth_verify_Inr)

lemma auth_step_chain_id [simp]: "sv_chain_id (auth_step w ev sv) = sv_chain_id sv"
  by (cases ev) simp_all

lemma run_chain_id [simp]: "sv_chain_id (run (auth_step w) es sv) = sv_chain_id sv"
  by (induction es arbitrary: sv) auto

section \<open>The invariant of the stores\<close>

definition service_ok :: "service \<Rightarrow> bool" where
  "service_ok sv \<longleftrightarrow> nonce_store_ok (sv_nonces sv) \<and> gomap_ok (ts_by_bearer (sv_tenants sv))
     \<and> gomap_ok (ts_by_tenant (sv_tenants sv)) \<and> gomap_ok (sv_seen sv)"

text \<open>What any step does to a pending nonce: it keeps it, drops it or issues it anew.\<close>

lemma challenge_entries:
  "map_of (ns_entries (sv_nonces (fst (auth_challenge now rand owner sv)))) n = Some e \<Longrightarrow>
     map_of (ns_entries (sv_nonces sv)) n = Some e
     \<or> (\<exists>out. snd (auth_challenge now rand owner sv) = Inr out \<and> co_nonce out = n \<and> ne_owner e = owner
          \<and> co_challenge out = build_challenge (sv_chain_id sv) n (ne_expires_at e))"
  by (auto simp: auth_challenge_def split: if_splits prod.splits sum.splits
      dest!: issue_nonce_Inr issue_nonce_Inl)

lemma consume_entries:
  "map_of (ns_entries (fst (consume_nonce t n s))) n' = Some e \<Longrightarrow>
     map_of (ns_entries s) n' = Some e"
  by (cases "n' = n") (auto simp: consume_burns consume_other)

lemma sweep_nonces_entries_sub:
  assumes "nonce_store_ok s" and "map_of (ns_entries (sweep_nonces t s)) n = Some e"
  shows "map_of (ns_entries s) n = Some e"
  using ns.sweep_drops_dead [OF assms] by simp

lemma seen_frame:
  "sv_seen (fst (auth_challenge now rand owner sv)) = sv_seen sv"
  "sv_seen (fst (auth_verify w t1 t2 rand inp sv)) = sv_seen sv"
  by (auto simp: auth_challenge_def auth_verify_def Let_def
      split: sum.splits option.splits prod.splits if_splits)

lemma claim_seen_ok: "gomap_ok (sv_seen sv) \<Longrightarrow> gomap_ok (sv_seen (fst (claim now t c sv)))"
  by (auto simp: claim_def Let_def split: option.splits)

lemma sweep_tenants_gomap:
  "gomap_ok (ts_by_bearer s) \<Longrightarrow> gomap_ok (ts_by_bearer (sweep_tenants now s))"
  "gomap_ok (ts_by_tenant s) \<Longrightarrow> gomap_ok (ts_by_tenant (sweep_tenants now s))"
  by (auto simp: sweep_tenants_def sweep_fold gomap_ok_def distinct_map inj_on_def)

lemma auth_step_ok: "service_ok sv \<Longrightarrow> service_ok (auth_step w ev sv)"
proof (cases ev)
  case (Ev_Challenge now rand owner)
  assume ok: "service_ok sv"
  have "sv_nonces (fst (auth_challenge now rand owner sv)) = sv_nonces sv
      \<or> sv_nonces (fst (auth_challenge now rand owner sv)) = fst (issue_nonce now rand owner (sv_nonces sv))"
    by (auto simp: auth_challenge_def split: sum.splits prod.splits)
  with ok Ev_Challenge show ?thesis
    by (auto simp: service_ok_def seen_frame issue_nonce_ok)
next
  case (Ev_Verify t1 t2 rand inp)
  assume ok: "service_ok sv"
  from auth_verify_tenants [of w t1 t2 rand inp sv] ok show ?thesis
    by (auto simp: Ev_Verify service_ok_def seen_frame auth_verify_nonces consume_nonce_ok
        dest!: mint_Inr)
qed (auto simp: service_ok_def claim_seen_ok sweep_nonces_ok sweep_tenants_gomap)

lemma initial_service_ok: "service_ok (initial_service c)"
  by (simp add: service_ok_def initial_service_def new_service_def new_nonce_store_ok
      new_tenant_store_def)

lemma run_ok: "service_ok sv \<Longrightarrow> service_ok (run (auth_step w) es sv)"
  by (rule run_invariant [where P = service_ok]) (auto intro: auth_step_ok)

section \<open>A nonce is spent at most as often as it was issued\<close>

text \<open>The step on services in good order, so that the sweep's law applies.\<close>

lemma pending_step:
  assumes "nonce_pending (auth_step w ev sv) n"
  shows "nonce_pending sv n \<or> nonce_issued ev sv = Some n"
proof (cases ev)
  case (Ev_Challenge now rand owner)
  then show ?thesis
    using assms challenge_entries [of now rand owner sv n] by (auto simp: nonce_pending_def)
next
  case (Ev_Verify t1 t2 rand inp)
  then show ?thesis
    using assms consume_entries [of t1 "vi_nonce inp" "sv_nonces sv" n]
    by (auto simp: nonce_pending_def auth_verify_nonces)
next
  case (Ev_Sweep_Nonces now)
  have "set (ns_entries (sweep_nonces now (sv_nonces sv))) \<subseteq> set (ns_entries (sv_nonces sv))"
    by (auto simp: sweep_nonces_def delete_if_filter)
  then show ?thesis
    using assms Ev_Sweep_Nonces by (fastforce simp: nonce_pending_def map_of_eq_None_iff)
qed (use assms in \<open>simp_all add: nonce_pending_def\<close>)

interpretation su: single_use nonce_pending "auth_step w" nonce_issued "nonce_spent w"
  for w :: "'pub wallet"
proof
  fix ev :: auth_event and sv :: service and n :: string
  show "nonce_pending sv n" if "nonce_spent w ev sv = Some n"
    using that
    by (cases ev) (auto simp: nonce_pending_def login_justified_def split: sum.splits
        dest!: verify_success)
  show "\<not> nonce_pending (auth_step w ev sv) n" if "nonce_spent w ev sv = Some n"
    using that
    by (cases ev) (auto simp: nonce_pending_def auth_verify_nonces consume_burns split: sum.splits)
  show "nonce_pending sv n \<or> nonce_issued ev sv = Some n" if "nonce_pending (auth_step w ev sv) n"
    using that by (rule pending_step)
qed

section \<open>Where pending nonces and tenants come from\<close>

text \<open>
  \<open>challenged w sv0 es n owner t\<close>: some challenge of the run handed the nonce \<open>n\<close> to
  \<open>owner\<close> with expiry \<open>t\<close>, in the text \<open>build_challenge\<close> makes of the three.
\<close>

definition challenged ::
    "'pub wallet \<Rightarrow> service \<Rightarrow> auth_event list \<Rightarrow> string \<Rightarrow> string \<Rightarrow> string \<Rightarrow> time \<Rightarrow> bool" where
  "challenged w sv0 es n owner chal t \<longleftrightarrow>
     (\<exists>es0 now rand es1 out. es = es0 @ Ev_Challenge now rand owner # es1
        \<and> snd (auth_challenge now rand owner (run (auth_step w) es0 sv0)) = Inr out
        \<and> co_nonce out = n \<and> co_challenge out = chal
        \<and> chal = build_challenge (sv_chain_id sv0) n t)"

text \<open>
  \<open>proved w sv0 es owner\<close>: some verification of the run presented an unexpired nonce that
  had been handed to \<open>owner\<close> and a signature whose recovered address over that very challenge
  text is \<open>owner\<close>.
\<close>

definition proved :: "'pub wallet \<Rightarrow> service \<Rightarrow> auth_event list \<Rightarrow> string \<Rightarrow> bool" where
  "proved w sv0 es owner \<longleftrightarrow>
     (\<exists>es0 t1 t2 rand inp es1 chal t sig. es = es0 @ Ev_Verify t1 t2 rand inp # es1
        \<and> challenged w sv0 es0 (vi_nonce inp) owner chal t \<and> t1 < t
        \<and> base64_decode (vi_signature inp) = Some sig
        \<and> recover_owner w chal sig = Inr owner)"

lemma challenged_mono: "challenged w sv0 es n owner chal t \<Longrightarrow> challenged w sv0 (es @ fs) n owner chal t"
  unfolding challenged_def by (metis append_Cons append_assoc)

lemma proved_mono: "proved w sv0 es owner \<Longrightarrow> proved w sv0 (es @ fs) owner"
  unfolding proved_def by (metis append_Cons append_assoc)

lemma pending_challenged:
  assumes "ns_entries (sv_nonces sv0) = []"
    and "map_of (ns_entries (sv_nonces (run (auth_step w) es sv0))) n = Some e"
    and "service_ok sv0"
  shows "challenged w sv0 es n (ne_owner e) (build_challenge (sv_chain_id sv0) n (ne_expires_at e)) (ne_expires_at e)"
  using assms(2)
proof (induction es arbitrary: n e rule: rev_induct)
  case Nil
  then show ?case using assms(1) by simp
next
  case (snoc ev es)
  let ?sv = "run (auth_step w) es sv0"
  have ok: "service_ok ?sv" by (rule run_ok [OF assms(3)])
  have old: ?case if "map_of (ns_entries (sv_nonces ?sv)) n = Some e"
    using challenged_mono [OF snoc.IH [OF that]] .
  show ?case
  proof (cases ev)
    case (Ev_Challenge now rand owner)
    show ?thesis
    proof (cases "map_of (ns_entries (sv_nonces ?sv)) n = Some e")
      case False
      with snoc.prems Ev_Challenge challenge_entries [of now rand owner ?sv n e]
      show ?thesis unfolding challenged_def by fastforce
    qed (rule old)
  next
    case (Ev_Verify t1 t2 rand inp)
    then show ?thesis
      using snoc.prems by (intro old) (auto simp: auth_verify_nonces dest: consume_entries)
  next
    case (Ev_Sweep_Nonces now)
    then show ?thesis
      using snoc.prems ok by (intro old) (auto simp: service_ok_def dest: sweep_nonces_entries_sub)
  qed (use snoc.prems old in simp_all)
qed

lemma tenant_proved:
  assumes "ns_entries (sv_nonces sv0) = []" and "ts_by_tenant (sv_tenants sv0) = []"
    and "service_ok sv0"
    and "map_of (ts_by_tenant (sv_tenants (run (auth_step w) es sv0))) tid = Some r"
  shows "proved w sv0 es (tr_owner r)"
  using assms(4)
proof (induction es arbitrary: tid r rule: rev_induct)
  case Nil
  then show ?case using assms(2) by simp
next
  case (snoc ev es)
  let ?sv = "run (auth_step w) es sv0"
  have old: ?case if "map_of (ts_by_tenant (sv_tenants ?sv)) tid = Some r"
    using proved_mono [OF snoc.IH [OF that]] .
  show ?case
  proof (cases ev)
    case (Ev_Verify t1 t2 rand inp)
    consider "map_of (ts_by_tenant (sv_tenants ?sv)) tid = Some r"
      | "login_justified w t1 inp ?sv (tr_owner r)"
      using snoc.prems Ev_Verify auth_verify_tenants [of w t1 t2 rand inp ?sv]
      by (auto dest!: mint_Inr simp: gomap_get_update split: if_splits)
    then show ?thesis
    proof cases
      case 2
      then obtain e sig where e: "map_of (ns_entries (sv_nonces ?sv)) (vi_nonce inp) = Some e"
          "ne_owner e = tr_owner r" "t1 < ne_expires_at e"
          "base64_decode (vi_signature inp) = Some sig"
          "recover_owner w (build_challenge (sv_chain_id sv0) (vi_nonce inp) (ne_expires_at e)) sig
             = Inr (tr_owner r)"
        by (auto simp: login_justified_def)
      from pending_challenged [OF assms(1) e(1) assms(3)] e(2-) Ev_Verify show ?thesis
        unfolding proved_def by (metis append.right_neutral append_Cons append_Nil)
    qed (rule old)
  next
    case (Ev_Sweep_Tenants now)
    have "set (ts_by_tenant (sv_tenants (auth_step w ev ?sv))) \<subseteq> set (ts_by_tenant (sv_tenants ?sv))"
      by (auto simp: Ev_Sweep_Tenants sweep_tenants_def sweep_fold)
    moreover have "gomap_ok (ts_by_tenant (sv_tenants ?sv))"
        "gomap_ok (ts_by_tenant (sv_tenants (auth_step w ev ?sv)))"
      using run_ok [OF assms(3), of w es] auth_step_ok [OF run_ok [OF assms(3)], of w ev w es]
      by (simp_all add: service_ok_def)
    ultimately show ?thesis
      using snoc.prems by (intro old) (auto simp: gomap_in_set)
  qed (use snoc.prems old in simp_all)
qed

section \<open>Properties\<close>

definition demo_events :: "auth_event list" where
  "demo_events = [Ev_Challenge 100 demo_rand ''AAA'', Ev_Verify 200 300 demo_rand demo_verify]"

lemma demo_login:
  "lookup_by_bearer 400 (sv_tenants (run (auth_step demo_wallet) demo_events (initial_service ''svp-1'')))
     (hex_encode (replicate 32 CHR 0x07)) =
   Inr \<lparr>tr_tenant_id = ''auto-0707070707070707'', tr_owner = ''AAA'', tr_expires_at = 86400000000300\<rparr>"
  by code_simp

text \<open>C1: Whoever holds a bearer that resolves, after any interleaving of requests and sweeps from a
  fresh service, speaks for an owner who proved it: at some point before, an unexpired nonce that a
  challenge had handed to that owner came back with a signature whose recovered address, over the
  very text of that challenge, is the owner.\<close>

theorem bearer_rests_on_signature:
  assumes "lookup_by_bearer now (sv_tenants (run (auth_step w) es (initial_service chain_id))) bearer = Inr rec"
  shows "proved w (initial_service chain_id) es (tr_owner rec)"
proof -
  obtain tid where "map_of (ts_by_tenant (sv_tenants (run (auth_step w) es (initial_service chain_id)))) tid = Some rec"
    using assms by (auto simp: lookup_Inr_iff)
  then show ?thesis
    by (rule tenant_proved [rotated 3])
      (simp_all add: initial_service_def new_service_def new_nonce_store_def new_tenant_store_def
        initial_service_ok [unfolded initial_service_def new_service_def new_nonce_store_def
          new_tenant_store_def])
qed

theorem bearer_rests_on_signature_witness:
  "proved demo_wallet (initial_service ''svp-1'') demo_events ''AAA''"
  using bearer_rests_on_signature [OF demo_login] by simp

text \<open>C2: Over any run of requests and sweeps from a fresh service a nonce buys at most as many logins
  as challenges handed it out: a signed challenge cannot be replayed.\<close>

theorem nonce_buys_one_login:
  "hits (nonce_spent w) (auth_step w) n es (initial_service chain_id)
     \<le> hits nonce_issued (auth_step w) n es (initial_service chain_id)"
  using su.redeemed_le_issued [of w n es "initial_service chain_id"]
  by (simp add: nonce_pending_def initial_service_def new_service_def new_nonce_store_def)

end
