(* ===== verification/Rate_Limiter.thy ===== *)
theory Rate_Limiter
  imports Prelude
begin

text \<open>
  The fixed-window limiter of login attempts per IP address
  (\<open>internal/mcp/auth/ip_rate_limiter.go\<close>), with the bound on what it lets through.
\<close>

section \<open>State and operations\<close>

definition default_ip_challenge_rate :: int where
  "default_ip_challenge_rate = 10"

definition default_ip_challenge_window :: duration where
  "default_ip_challenge_window = go_minute"

record ip_entry =
  ie_count :: int
  ie_window_start :: time

record ip_limiter =
  il_max :: int
  il_window :: duration
  il_entries :: "(string, ip_entry) gomap"

definition new_ip_limiter :: "int \<Rightarrow> duration \<Rightarrow> ip_limiter" where
  "new_ip_limiter mx window = \<lparr>il_max = mx, il_window = window, il_entries = []\<rparr>"

definition window_over :: "ip_limiter \<Rightarrow> time \<Rightarrow> ip_entry \<Rightarrow> bool" where
  "window_over l now e \<longleftrightarrow> il_window l \<le> time_sub now (ie_window_start e)"

definition allow :: "time \<Rightarrow> string \<Rightarrow> ip_limiter \<Rightarrow> ip_limiter \<times> bool" where
  "allow now ip l =
     (if ip = [] then (l, True)
      else (case map_of (il_entries l) ip of
          None \<Rightarrow>
            (l\<lparr>il_entries := AList.update ip \<lparr>ie_count = 1, ie_window_start = now\<rparr> (il_entries l)\<rparr>,
             True)
        | Some e \<Rightarrow>
            if window_over l now e
            then (l\<lparr>il_entries := AList.update ip \<lparr>ie_count = 1, ie_window_start = now\<rparr> (il_entries l)\<rparr>,
                  True)
            else (let e' = e\<lparr>ie_count := go_int (ie_count e + 1)\<rparr>
                  in (l\<lparr>il_entries := AList.update ip e' (il_entries l)\<rparr>,
                      ie_count e' \<le> il_max l))))"

definition sweep_ips :: "time \<Rightarrow> ip_limiter \<Rightarrow> ip_limiter" where
  "sweep_ips now l =
     l\<lparr>il_entries := delete_if (\<lambda>_ e. window_over l now e) (il_entries l) (il_entries l)\<rparr>"

definition ip_count :: "ip_limiter \<Rightarrow> nat" where
  "ip_count l = length (il_entries l)"

section \<open>Invariant\<close>

text \<open>
  A counter is a 64-bit number that is incremented on every call of its window and never checked:
  after \<open>2\<^sup>6\<^sup>3\<close> calls of one window it wraps to a negative number.
\<close>

definition limiter_ok :: "ip_limiter \<Rightarrow> bool" where
  "limiter_ok l \<longleftrightarrow> gomap_ok (il_entries l)
     \<and> (\<forall>ip e. map_of (il_entries l) ip = Some e \<longrightarrow> int_range (ie_count e))"

lemma limiter_ok_gomap: "limiter_ok l \<Longrightarrow> gomap_ok (il_entries l)"
  by (simp add: limiter_ok_def)

lemma new_ip_limiter_ok: "limiter_ok (new_ip_limiter mx w)"
  by (simp add: limiter_ok_def new_ip_limiter_def)

lemma allow_frame [go_frame, simp]:
  "il_max (fst (allow now ip l)) = il_max l"
  "il_window (fst (allow now ip l)) = il_window l"
  by (auto simp: allow_def Let_def split: option.splits)

lemma limiter_ok_update:
  "limiter_ok l \<Longrightarrow> int_range (ie_count e) \<Longrightarrow>
     limiter_ok (l\<lparr>il_entries := AList.update ip e (il_entries l)\<rparr>)"
  by (auto simp: limiter_ok_def update_conv')

lemma allow_ok: "limiter_ok l \<Longrightarrow> limiter_ok (fst (allow now ip l))"
  by (auto simp: allow_def Let_def int_range_def [of 1] split: option.splits intro!: limiter_ok_update)

lemma sweep_ips_entries:
  "limiter_ok l \<Longrightarrow>
     il_entries (sweep_ips now l) = gomap_filter (\<lambda>_ e. \<not> window_over l now e) (il_entries l)"
  by (simp add: sweep_ips_def limiter_ok_def delete_if_any_order)

lemma sweep_ips_frame [go_frame, simp]:
  "il_max (sweep_ips now l) = il_max l"
  "il_window (sweep_ips now l) = il_window l"
  "window_over (sweep_ips now l) = window_over l"
  by (auto simp: sweep_ips_def window_over_def fun_eq_iff)

lemma sweep_ips_ok: "limiter_ok l \<Longrightarrow> limiter_ok (sweep_ips now l)"
  by (auto simp: limiter_ok_def sweep_ips_entries [unfolded limiter_ok_def]
      gomap_get_filter split: option.splits if_splits)

lemma window_over_mono: "window_over l now e \<Longrightarrow> now \<le> later \<Longrightarrow> window_over l later e"
  by (auto simp: window_over_def time_sub_def)

interpretation il: expiring_store il_entries window_over sweep_ips limiter_ok
  by unfold_locales
    (auto simp: sweep_ips_entries sweep_ips_ok intro: limiter_ok_gomap window_over_mono)

text \<open>A sweep changes no later verdict.\<close>

lemma allow_after_sweep:
  assumes "limiter_ok l" and "now \<le> later"
  shows "snd (allow later ip (sweep_ips now l)) = snd (allow later ip l)"
  using assms window_over_mono [of l now _ later]
  by (auto simp: allow_def Let_def il.sweep_lookup split: option.splits)

section \<open>How much a limiter lets through\<close>

text \<open>A run of calls, each at its instant; the answers in order.\<close>

fun run_allow :: "ip_limiter \<Rightarrow> (time \<times> string) list \<Rightarrow> bool list" where
  "run_allow l [] = []"
| "run_allow l ((now, ip) # cs) = snd (allow now ip l) # run_allow (fst (allow now ip l)) cs"

definition granted :: "string \<Rightarrow> ip_limiter \<Rightarrow> (time \<times> string) list \<Rightarrow> nat" where
  "granted ip l cs = length (filter (\<lambda>(c, ok). snd c = ip \<and> ok) (zip cs (run_allow l cs)))"

text \<open>
  What is left for one address before the instant \<open>end_at\<close>: the rest of its open window, and
  a whole new window if the open one ends before then. The first call of a window is granted
  without a look at the cap, so a window grants at least one.
\<close>

definition window_cap :: "ip_limiter \<Rightarrow> nat" where
  "window_cap l = nat (max 1 (il_max l))"

definition budget :: "string \<Rightarrow> ip_limiter \<Rightarrow> time \<Rightarrow> time \<Rightarrow> nat" where
  "budget ip l now end_at =
     (case map_of (il_entries l) ip of
        None \<Rightarrow> window_cap l
      | Some e \<Rightarrow>
          if ie_window_start e + il_window l \<le> now then window_cap l
          else nat (il_max l - ie_count e)
            + (if ie_window_start e + il_window l < end_at then window_cap l else 0))"

definition window_ok :: "ip_limiter \<Rightarrow> bool" where
  "window_ok l \<longleftrightarrow> 0 < il_window l \<and> il_window l \<le> max_duration"

lemma window_over_iff:
  "window_ok l \<Longrightarrow> window_over l now e \<longleftrightarrow> ie_window_start e + il_window l \<le> now"
  by (simp add: window_over_def window_ok_def time_sub_ge_iff min_duration_def)

lemma budget_later:
  assumes "now \<le> later" and "later < end_at"
  shows "budget ip l later end_at \<le> budget ip l now end_at"
  using assms by (auto simp: budget_def split: option.splits)

text \<open>The counter of the address has room for \<open>n\<close> more calls, whichever window they fall into.\<close>

definition counts_fit :: "string \<Rightarrow> ip_limiter \<Rightarrow> nat \<Rightarrow> bool" where
  "counts_fit ip l n \<longleftrightarrow> int n < 2 ^ 63
     \<and> (\<forall>e. map_of (il_entries l) ip = Some e \<longrightarrow> 1 \<le> ie_count e \<and> ie_count e + int n < 2 ^ 63)"

lemma counts_fit_inc:
  assumes "counts_fit ip l (Suc n)" and "map_of (il_entries l) ip = Some e"
  shows "go_int (ie_count e + 1) = ie_count e + 1"
  using assms by (intro go_int_id) (force simp: counts_fit_def int_range_def)

lemma allow_counts_fit:
  assumes "counts_fit ip l (Suc n)"
  shows "counts_fit ip (fst (allow now ip' l)) n"
proof (cases "ip' = ip")
  case True
  show ?thesis
  proof (cases "map_of (il_entries l) ip")
    case (Some e)
    with assms have "1 \<le> ie_count e" "ie_count e + 1 + int n < 2 ^ 63" by (simp_all add: counts_fit_def)
    with Some True assms counts_fit_inc [OF assms Some] show ?thesis
      by (auto simp: counts_fit_def allow_def Let_def gomap_get_update)
  qed (use assms True in \<open>auto simp: counts_fit_def allow_def gomap_get_update\<close>)
next
  case False
  with assms show ?thesis
    by (force simp: counts_fit_def allow_def Let_def gomap_get_update split: option.splits)
qed

lemma allow_budget:
  assumes "window_ok l" and "now < end_at" and "end_at \<le> now + il_window l" and "ip \<noteq> []"
    and "counts_fit ip l (Suc n)"
  shows "budget ip (fst (allow now ip l)) now end_at + (if snd (allow now ip l) then 1 else 0)
    \<le> budget ip l now end_at"
proof (cases "map_of (il_entries l) ip")
  case None
  with assms show ?thesis
    by (simp add: allow_def budget_def window_cap_def gomap_get_update window_ok_def nat_diff_distrib')
next
  case (Some e)
  show ?thesis
  proof (cases "ie_window_start e + il_window l \<le> now")
    case True
    with Some assms show ?thesis
      by (simp add: allow_def budget_def window_cap_def gomap_get_update window_over_iff window_ok_def
          nat_diff_distrib')
  next
    case False
    with Some assms counts_fit_inc [OF assms(5) Some] have "allow now ip l =
        (l\<lparr>il_entries := AList.update ip (e\<lparr>ie_count := ie_count e + 1\<rparr>) (il_entries l)\<rparr>,
         ie_count e + 1 \<le> il_max l)"
      by (simp add: allow_def window_over_iff Let_def)
    moreover have "nat (il_max l - (ie_count e + 1)) + (if ie_count e + 1 \<le> il_max l then 1 else 0)
        \<le> nat (il_max l - ie_count e)"
      by (simp split: if_split) arith
    ultimately show ?thesis
      using Some False by (simp add: budget_def gomap_get_update window_cap_def)
  qed
qed

lemma allow_other_budget:
  "ip' \<noteq> ip \<Longrightarrow> budget ip (fst (allow now ip' l)) now end_at = budget ip l now end_at"
  by (auto simp: allow_def Let_def budget_def window_cap_def gomap_get_update split: option.splits)

lemma granted_Cons:
  "granted ip l ((now, ip') # cs) =
     (if ip' = ip \<and> snd (allow now ip' l) then 1 else 0) + granted ip (fst (allow now ip' l)) cs"
  by (auto simp: granted_def)

lemma window_ok_allow [simp]: "window_ok (fst (allow now ip l)) = window_ok l"
  by (simp add: window_ok_def)

lemma granted_le_budget:
  assumes "window_ok l" and "ip \<noteq> []" and "end_at \<le> now + il_window l"
    and "sorted (map fst cs)" and "\<forall>c \<in> set cs. now \<le> fst c \<and> fst c < end_at"
    and "counts_fit ip l (length cs)"
  shows "granted ip l cs \<le> budget ip l now end_at"
  using assms
proof (induction cs arbitrary: l now)
  case Nil
  then show ?case by (simp add: granted_def)
next
  case (Cons c cs)
  obtain t ip' where c: "c = (t, ip')" by (cases c)
  let ?l = "fst (allow t ip' l)"
  from Cons.prems c have t: "now \<le> t" "t < end_at" "end_at \<le> t + il_window l"
    and rest: "sorted (map fst cs)" "\<forall>c \<in> set cs. t \<le> fst c \<and> fst c < end_at"
    by auto
  have fit: "counts_fit ip l (Suc (length cs))" using Cons.prems(6) by simp
  have IH: "granted ip ?l cs \<le> budget ip ?l t end_at"
    using Cons.IH [of ?l t] Cons.prems(1,2) t(3) rest allow_counts_fit [OF fit, of t ip'] by simp
  have later: "budget ip l t end_at \<le> budget ip l now end_at"
    by (rule budget_later [OF t(1,2)])
  show ?case
  proof (cases "ip' = ip")
    case True
    then show ?thesis
      using IH later allow_budget [OF Cons.prems(1) t(2,3) Cons.prems(2) fit]
      by (simp add: c granted_Cons)
  next
    case False
    then show ?thesis
      using IH later allow_other_budget [OF False, of t l end_at] by (simp add: c granted_Cons)
  qed
qed

lemma budget_bound:
  assumes "counts_fit ip l n"
  shows "budget ip l now end_at \<le> nat (il_max l - 1) + window_cap l"
  using assms
  by (auto simp: counts_fit_def budget_def window_cap_def split: option.splits)

text \<open>Within one window of a fresh address the answers are known exactly.\<close>

lemma run_allow_open:
  assumes "window_ok l" and "ip \<noteq> []"
    and "map_of (il_entries l) ip = Some e" and "counts_fit ip l (length cs)"
    and "\<forall>c \<in> set cs. fst c < ie_window_start e + il_window l \<and> snd c = ip"
  shows "run_allow l cs = map (\<lambda>k. ie_count e + 1 + int k \<le> il_max l) [0..<length cs]"
  using assms
proof (induction cs arbitrary: l e)
  case Nil
  then show ?case by simp
next
  case (Cons c cs)
  obtain t where c: "c = (t, ip)" using Cons.prems(5) by (cases c) auto
  have fit: "counts_fit ip l (Suc (length cs))" using Cons.prems(4) by simp
  let ?e = "e\<lparr>ie_count := ie_count e + 1\<rparr>" and ?l = "fst (allow t ip l)"
  have "\<not> window_over l t e"
    using Cons.prems c by (simp add: window_over_iff)
  then have step: "allow t ip l =
      (l\<lparr>il_entries := AList.update ip ?e (il_entries l)\<rparr>, ie_count e + 1 \<le> il_max l)"
    using Cons.prems counts_fit_inc [OF fit Cons.prems(3)] by (simp add: allow_def)
  have "run_allow ?l cs = map (\<lambda>k. ie_count ?e + 1 + int k \<le> il_max ?l) [0..<length cs]"
    by (rule Cons.IH)
      (use Cons.prems step allow_counts_fit [OF fit, of t ip] in \<open>auto simp: gomap_get_update window_ok_def\<close>)
  moreover have "[0..<length (c # cs)] = 0 # map Suc [0..<length cs]"
    by (simp add: map_Suc_upt upt_conv_Cons del: upt_Suc)
  ultimately show ?case
    by (simp add: c step comp_def algebra_simps)
qed

lemma run_allow_fresh:
  assumes "window_ok l" and "ip \<noteq> []" and "map_of (il_entries l) ip = None" and "int (length cs) < 2 ^ 63 - 1"
    and "\<forall>c \<in> set cs. fst c < t + il_window l \<and> snd c = ip"
  shows "run_allow l ((t, ip) # cs) =
    True # map (\<lambda>k. 2 + int k \<le> il_max l) [0..<length cs]"
proof -
  let ?l = "fst (allow t ip l)"
  have "run_allow ?l cs = map (\<lambda>k. 1 + 1 + int k \<le> il_max ?l) [0..<length cs]"
    using run_allow_open [of ?l ip "\<lparr>ie_count = 1, ie_window_start = t\<rparr>" cs] assms
    by (simp add: allow_def gomap_get_update window_ok_def counts_fit_def)
  with assms show ?thesis by (simp add: allow_def)
qed

section \<open>Properties\<close>

text \<open>C36: Whatever calls other addresses make, in any stretch of time as long as one window an address is
  let through fewer than twice the cap of times, as long as its counter does not wrap. A cap below
  one does not shut the door: it lets one call through in such a stretch, because the first call of
  a window is granted whatever the cap.\<close>

theorem limiter_bounds_any_window:
  assumes "window_ok l" and "ip \<noteq> []" and "counts_fit ip l (length calls)"
    and "sorted (map fst calls)"
    and "\<forall>c \<in> set calls. t \<le> fst c \<and> fst c < t + il_window l"
  shows "(if 1 \<le> il_max l then int (granted ip l calls) < 2 * il_max l else granted ip l calls \<le> 1)
    \<and> snd (allow t' ip (new_ip_limiter mx w))
    \<and> (\<forall>e. map_of (il_entries l) ip = Some e \<and> ie_window_start e + il_window l \<le> t' \<longrightarrow> snd (allow t' ip l))"
proof (intro conjI allI impI)
  have "granted ip l calls \<le> nat (il_max l - 1) + nat (max 1 (il_max l))"
    using granted_le_budget [OF assms(1,2) _ assms(4,5,3)] budget_bound [OF assms(3), of t "t + il_window l"]
    by (simp add: window_cap_def)
  then show "if 1 \<le> il_max l then int (granted ip l calls) < 2 * il_max l else granted ip l calls \<le> 1"
    by (auto simp: nat_add_distrib [symmetric] split: if_splits)
next
  show "snd (allow t' ip (new_ip_limiter mx w))" by (simp add: allow_def new_ip_limiter_def)
next
  fix e assume "map_of (il_entries l) ip = Some e \<and> ie_window_start e + il_window l \<le> t'"
  then show "snd (allow t' ip l)" using assms(1) by (simp add: allow_def window_over_iff)
qed

lemma limiter_bounds_any_window_witness:
  "granted ''1.2.3.4'' (new_ip_limiter 2 100)
     [(0, ''1.2.3.4''), (10, ''5.6.7.8''), (20, ''1.2.3.4''), (30, ''1.2.3.4''), (99, ''1.2.3.4'')] < 4
   \<and> granted ''1.2.3.4'' (new_ip_limiter 0 100) [(0, ''1.2.3.4''), (20, ''1.2.3.4'')] \<le> 1
   \<and> snd (allow 0 ''1.2.3.4'' (new_ip_limiter 0 100))"
  using limiter_bounds_any_window [of "new_ip_limiter 2 100" "''1.2.3.4''"
      "[(0, ''1.2.3.4''), (10, ''5.6.7.8''), (20, ''1.2.3.4''), (30, ''1.2.3.4''), (99, ''1.2.3.4'')]" 0]
    limiter_bounds_any_window [of "new_ip_limiter 0 100" "''1.2.3.4''" "[(0, ''1.2.3.4''), (20, ''1.2.3.4'')]" 0 0 0 100]
  by (simp add: window_ok_def new_ip_limiter_def max_duration_def counts_fit_def)

text \<open>In one window of an address not seen before, the answers are exactly: the first call is
  granted, and the call number \<open>k\<close> after it is granted while \<open>k\<close> does not pass the cap.
  With a cap below one the first call of every window is still let through.\<close>

theorem limiter_exact_in_fresh_window:
  assumes "window_ok l" and "ip \<noteq> []" and "map_of (il_entries l) ip = None" and "int (length calls) < 2 ^ 63 - 1"
    and "\<forall>c \<in> set calls. fst c < t + il_window l \<and> snd c = ip"
  shows "run_allow l ((t, ip) # calls) =
    True # map (\<lambda>k. 2 + int k \<le> il_max l) [0..<length calls]"
  using assms by (intro run_allow_fresh)

theorem limiter_exact_in_fresh_window_witness:
  "run_allow (new_ip_limiter 2 100) [(5, ''a''), (6, ''a''), (7, ''a'')] = [True, True, False]"
  using limiter_exact_in_fresh_window [of "new_ip_limiter 2 100" "''a''" "[(6, ''a''), (7, ''a'')]" 5]
  by (simp add: window_ok_def new_ip_limiter_def max_duration_def upt_rec)

end
