(* ===== verification/Mcp_Client.thy ===== *)
theory Mcp_Client
  imports Go_Strings
begin

text \<open>
  The private tool service behind the agent (\<open>internal/defimcp/client.go\<close>): the catalog frozen
  at start-up, calls with one guarded retry, and the reconnection of a broken session.

  The MCP SDK and the service behind it are a record \<open>mcp_sdk\<close> of functions on an arbitrary
  world \<open>'w\<close>; a session is an arbitrary value \<open>'sess\<close>, a JSON schema an arbitrary \<open>'j\<close>. A
  \<open>gateway\<close> is the client together with that world and the log of what was sent to it.
\<close>

section \<open>Caller and headers\<close>

definition agent_token_header :: string where
  "agent_token_header = ''X-Svpchain-Evm-Agent-Token''"

definition caller_header :: string where
  "caller_header = ''X-Svpchain-Caller''"

text \<open>The request context carries at most a caller.\<close>

type_synonym req_context = "string option"

definition with_caller :: "req_context \<Rightarrow> string \<Rightarrow> req_context" where
  "with_caller ctx caller =
     (let caller = trim_space caller in if caller = [] then ctx else Some caller)"

definition caller_from :: "req_context \<Rightarrow> string" where
  "caller_from ctx = (case ctx of None \<Rightarrow> [] | Some c \<Rightarrow> c)"

text \<open>The headers \<open>trustedTransport.RoundTrip\<close> sends on: those of a clone of the request.\<close>

definition round_trip_headers ::
    "string \<Rightarrow> req_context \<Rightarrow> (string, string) gomap \<Rightarrow> (string, string) gomap" where
  "round_trip_headers token ctx hs =
     (let cloned = AList.update agent_token_header token hs
      in if caller_from ctx \<noteq> [] then AList.update caller_header (caller_from ctx) cloned else cloned)"

section \<open>Catalog\<close>

record 'j listed_tool =
  lt_name :: string
  lt_description :: string
  lt_input_schema :: "'j option"

record 'j tool =
  tl_name :: string
  tl_description :: string
  tl_input_schema :: 'j

type_synonym 'j catalog = "(string, 'j tool) gomap"

datatype mcp_error =
    Token_Required
  | Connect_Failed string
  | List_Failed string
  | Invalid_Tool
  | Duplicate_Tool string
  | No_Tools
  | Catalog_Changed
  | Not_In_Catalog string
  | Session_Failed string mcp_error
  | Call_Failed string
  | Tool_Error string

fun build_catalog :: "'j catalog \<Rightarrow> 'j listed_tool list \<Rightarrow> mcp_error + 'j catalog" where
  "build_catalog tools [] = Inr tools"
| "build_catalog tools (t # ts) =
     (let name = trim_space (lt_name t)
      in case lt_input_schema t of
           None \<Rightarrow> Inl Invalid_Tool
         | Some schema \<Rightarrow>
             if name = [] then Inl Invalid_Tool
             else if map_of tools name \<noteq> None then Inl (Duplicate_Tool name)
             else build_catalog
                 (AList.update name
                   \<lparr>tl_name = name, tl_description = lt_description t, tl_input_schema = schema\<rparr> tools)
                 ts)"

text \<open>Every tool of \<open>want\<close>, in any order of the range, is in \<open>got\<close> with an equal schema.\<close>

definition same_catalog :: "'j catalog \<Rightarrow> 'j catalog \<Rightarrow> bool" where
  "same_catalog want got \<longleftrightarrow>
     length want = length got
     \<and> list_all (\<lambda>(name, expected). case map_of got name of None \<Rightarrow> False
          | Some actual \<Rightarrow> tl_input_schema expected = tl_input_schema actual) want"

section \<open>The SDK, the client and the gateway\<close>

datatype content = Text_Content string | Other_Content

record call_result =
  cr_content :: "content list"
  cr_is_error :: bool

record ('w, 'sess, 'j, 'a) mcp_sdk =
  sdk_connect :: "string \<Rightarrow> string \<Rightarrow> 'w \<Rightarrow> 'w \<times> (string + 'sess)"
  sdk_list_tools :: "duration \<Rightarrow> 'sess \<Rightarrow> 'w \<Rightarrow> 'w \<times> (string + 'j listed_tool list)"
  sdk_call_tool :: "duration \<Rightarrow> req_context \<Rightarrow> 'sess \<Rightarrow> string \<Rightarrow> 'a \<Rightarrow> 'w \<Rightarrow> 'w \<times> (string + call_result)"
  sdk_close :: "'sess \<Rightarrow> 'w \<Rightarrow> 'w \<times> string option"

record ('sess, 'j) client =
  cl_session :: "'sess option"
  cl_tools :: "'j catalog"
  cl_endpoint :: string
  cl_auth_token :: string
  cl_timeout :: duration

datatype mcp_event = Sent_Connect string | Sent_Call string

record ('w, 'sess, 'j) gateway =
  gw_client :: "('sess, 'j) client"
  gw_world :: 'w
  gw_log :: "mcp_event list"

section \<open>Connecting\<close>

definition default_timeout :: duration where
  "default_timeout = 90 * go_second"

definition connect_session ::
    "('w, 'sess, 'j, 'a) mcp_sdk \<Rightarrow> string \<Rightarrow> string \<Rightarrow> duration \<Rightarrow> 'w \<Rightarrow>
     'w \<times> (mcp_error + 'sess \<times> 'j catalog)" where
  "connect_session sdk endpoint token timeout w =
     (case sdk_connect sdk endpoint token w of
        (w, Inl e) \<Rightarrow> (w, Inl (Connect_Failed e))
      | (w, Inr session) \<Rightarrow>
          (case sdk_list_tools sdk timeout session w of
             (w, Inl e) \<Rightarrow> (fst (sdk_close sdk session w), Inl (List_Failed e))
           | (w, Inr listed) \<Rightarrow>
               (case build_catalog [] listed of
                  Inl e \<Rightarrow> (fst (sdk_close sdk session w), Inl e)
                | Inr tools \<Rightarrow>
                    if tools = [] then (fst (sdk_close sdk session w), Inl No_Tools)
                    else (w, Inr (session, tools)))))"

definition connect ::
    "('w, 'sess, 'j, 'a) mcp_sdk \<Rightarrow> string \<Rightarrow> string \<Rightarrow> duration \<Rightarrow> 'w \<Rightarrow>
     'w \<times> (mcp_error + ('sess, 'j) client)" where
  "connect sdk endpoint token timeout w =
     (let timeout = (if timeout \<le> 0 then default_timeout else timeout);
          token = trim_space token
      in if token = [] then (w, Inl Token_Required)
         else (let endpoint = trim_space endpoint
               in case connect_session sdk endpoint token timeout w of
                    (w, Inl e) \<Rightarrow> (w, Inl e)
                  | (w, Inr (session, tools)) \<Rightarrow>
                      (w, Inr \<lparr>cl_session = Some session, cl_tools = tools, cl_endpoint = endpoint,
                               cl_auth_token = token, cl_timeout = timeout\<rparr>)))"

section \<open>Calling\<close>

definition session_failure_marks :: "string list" where
  "session_failure_marks =
    [''409 conflict'', ''stream id conflicts'', ''connection closed'', ''broken session'',
     ''client is closing'', ''hanging get'', ''failed to reconnect'', ''consumer stopped'',
     ''session is closed'', ''session not found'']"

definition session_failure :: "string \<Rightarrow> bool" where
  "session_failure message = list_ex (contains (to_lower message)) session_failure_marks"

definition retry_safe_tool :: "string \<Rightarrow> bool" where
  "retry_safe_tool name =
     (let name = to_lower (trim_space name)
      in has_prefix name ''get_'' \<or> has_prefix name ''list_'' \<or> has_prefix name ''quote_''
         \<or> has_prefix name ''build_''
         \<or> (contains name ''_build_'' \<and> has_suffix name ''_tx'')
         \<or> name = ''whoami'')"

definition not_connected :: string where
  "not_connected = ''private defi mcp session is not connected''"

definition call_tool ::
    "('w, 'sess, 'j, 'a) mcp_sdk \<Rightarrow> req_context \<Rightarrow> string \<Rightarrow> 'a \<Rightarrow> ('w, 'sess, 'j) gateway \<Rightarrow>
     ('w, 'sess, 'j) gateway \<times> (string + call_result)" where
  "call_tool sdk ctx name args g =
     (case cl_session (gw_client g) of
        None \<Rightarrow> (g, Inl not_connected)
      | Some session \<Rightarrow>
          (case sdk_call_tool sdk (cl_timeout (gw_client g)) ctx session name args (gw_world g) of
             (w, r) \<Rightarrow> (g\<lparr>gw_world := w, gw_log := gw_log g @ [Sent_Call name]\<rparr>, r)))"

definition reconnect ::
    "('w, 'sess, 'j, 'a) mcp_sdk \<Rightarrow> ('w, 'sess, 'j) gateway \<Rightarrow>
     ('w, 'sess, 'j) gateway \<times> mcp_error option" where
  "reconnect sdk g =
     (let c = gw_client g;
          w = (case cl_session c of None \<Rightarrow> gw_world g | Some old \<Rightarrow> fst (sdk_close sdk old (gw_world g)));
          c = c\<lparr>cl_session := None\<rparr>;
          log = gw_log g @ [Sent_Connect (cl_endpoint c)]
      in case connect_session sdk (cl_endpoint c) (cl_auth_token c) (cl_timeout c) w of
           (w, Inl e) \<Rightarrow> (\<lparr>gw_client = c, gw_world = w, gw_log = log\<rparr>, Some e)
         | (w, Inr (session, tools)) \<Rightarrow>
             if \<not> same_catalog (cl_tools c) tools
             then (\<lparr>gw_client = c, gw_world = fst (sdk_close sdk session w), gw_log = log\<rparr>,
                   Some Catalog_Changed)
             else (\<lparr>gw_client = c\<lparr>cl_session := Some session\<rparr>, gw_world = w, gw_log = log\<rparr>, None))"

fun text_of :: "content \<Rightarrow> string" where
  "text_of (Text_Content t) = t"
| "text_of Other_Content = []"

text \<open>What \<open>Call\<close> makes of the outcome: the text, and the error beside it if there is one.\<close>

definition call_outcome :: "string + call_result \<Rightarrow> string \<times> mcp_error option" where
  "call_outcome r =
     (case r of
        Inl e \<Rightarrow> ([], Some (Call_Failed e))
      | Inr res \<Rightarrow>
          (let out = concat (map text_of (cr_content res))
           in if cr_is_error res then (out, Some (Tool_Error (trim_space out))) else (out, None)))"

definition call ::
    "('w, 'sess, 'j, 'a) mcp_sdk \<Rightarrow> req_context \<Rightarrow> string \<Rightarrow> 'a \<Rightarrow> ('w, 'sess, 'j) gateway \<Rightarrow>
     ('w, 'sess, 'j) gateway \<times> string \<times> mcp_error option" where
  "call sdk ctx name args g =
     (if map_of (cl_tools (gw_client g)) name = None
      then (g, [], Some (Not_In_Catalog name))
      else (case call_tool sdk ctx name args g of
          (g, Inl e) \<Rightarrow>
            if session_failure e
            then (case reconnect sdk g of
                (g, Some re) \<Rightarrow> (g, [], Some (Session_Failed e re))
              | (g, None) \<Rightarrow>
                  if retry_safe_tool name
                  then (case call_tool sdk ctx name args g of (g, r) \<Rightarrow> (g, call_outcome r))
                  else (g, call_outcome (Inl e)))
            else (g, call_outcome (Inl e))
        | (g, Inr res) \<Rightarrow> (g, call_outcome (Inr res))))"

text \<open>
  What \<open>Error()\<close> says. The verb \<open>%q\<close> quotes a name: quotes, backslashes and control bytes
  are escaped, printable text stands for itself; bytes above 0x7F are taken as printable.
\<close>

definition hex_byte :: "char \<Rightarrow> string" where
  "hex_byte c = [CHR 0x5C, CHR ''x''] @ hex_encode [c]"

definition quote_byte :: "char \<Rightarrow> string" where
  "quote_byte c =
     (if c = CHR 0x22 \<or> c = CHR 0x5C then [CHR 0x5C, c]
      else if c = CHR 0x07 then [CHR 0x5C, CHR ''a'']
      else if c = CHR 0x08 then [CHR 0x5C, CHR ''b'']
      else if c = CHR 0x0C then [CHR 0x5C, CHR ''f'']
      else if c = CHR 0x0A then [CHR 0x5C, CHR ''n'']
      else if c = CHR 0x0D then [CHR 0x5C, CHR ''r'']
      else if c = CHR 0x09 then [CHR 0x5C, CHR ''t'']
      else if c = CHR 0x0B then [CHR 0x5C, CHR ''v'']
      else if (of_char c :: int) < 0x20 \<or> c = CHR 0x7F then hex_byte c
      else [c])"

definition go_quote :: "string \<Rightarrow> string" where
  "go_quote s = [CHR 0x22] @ concat (map quote_byte s) @ [CHR 0x22]"

fun mcp_error_text :: "mcp_error \<Rightarrow> string" where
  "mcp_error_text Token_Required = ''private defi mcp auth token is required''"
| "mcp_error_text (Connect_Failed e) = ''connect private defi mcp: '' @ e"
| "mcp_error_text (List_Failed e) = ''list private defi mcp tools: '' @ e"
| "mcp_error_text Invalid_Tool = ''private defi mcp returned invalid tool''"
| "mcp_error_text (Duplicate_Tool n) = ''private defi mcp returned duplicate tool '' @ go_quote n"
| "mcp_error_text No_Tools = ''private defi mcp returned no tools''"
| "mcp_error_text Catalog_Changed =
     ''private defi mcp catalog changed; restart the EVM Agent to synchronize it''"
| "mcp_error_text (Not_In_Catalog n) = ''tool '' @ go_quote n @ '' is not in the startup MCP catalog''"
| "mcp_error_text (Session_Failed e re) =
     ''private defi mcp session failed: '' @ e @ '' (reconnect failed: '' @ mcp_error_text re @ '')''"
| "mcp_error_text (Call_Failed e) = e"
| "mcp_error_text (Tool_Error e) = e"

definition close_client ::
    "('w, 'sess, 'j, 'a) mcp_sdk \<Rightarrow> ('w, 'sess, 'j) gateway \<Rightarrow>
     ('w, 'sess, 'j) gateway \<times> string option" where
  "close_client sdk g =
     (case cl_session (gw_client g) of
        None \<Rightarrow> (g, None)
      | Some s \<Rightarrow>
          (case sdk_close sdk s (gw_world g) of
             (w, e) \<Rightarrow> (g\<lparr>gw_client := (gw_client g)\<lparr>cl_session := None\<rparr>, gw_world := w\<rparr>, e)))"

text \<open>\<open>Tools()\<close> ranges over the catalog.\<close>

definition client_tools :: "('sess, 'j) client \<Rightarrow> 'j tool list" where
  "client_tools c = map snd (cl_tools c)"

section \<open>The catalog is what was listed\<close>

lemma build_catalog_Cons:
  "build_catalog tools (t # ts) = Inr tools' \<longleftrightarrow>
     (\<exists>j. lt_input_schema t = Some j \<and> trim_space (lt_name t) \<noteq> []
        \<and> map_of tools (trim_space (lt_name t)) = None
        \<and> build_catalog (AList.update (trim_space (lt_name t))
            \<lparr>tl_name = trim_space (lt_name t), tl_description = lt_description t, tl_input_schema = j\<rparr>
            tools) ts = Inr tools')"
  by (auto simp: Let_def split: option.splits)

declare build_catalog.simps(2) [simp del]

lemma build_catalog_ConsE:
  assumes "build_catalog tools (t # ts) = Inr tools'"
  obtains j where "lt_input_schema t = Some j" and "trim_space (lt_name t) \<noteq> []"
    and "map_of tools (trim_space (lt_name t)) = None"
    and "build_catalog (AList.update (trim_space (lt_name t))
        \<lparr>tl_name = trim_space (lt_name t), tl_description = lt_description t, tl_input_schema = j\<rparr>
        tools) ts = Inr tools'"
  using assms by (auto simp: build_catalog_Cons)

lemma build_catalog_ok:
  "gomap_ok tools \<Longrightarrow> build_catalog tools ts = Inr tools' \<Longrightarrow> gomap_ok tools'"
proof (induction ts arbitrary: tools)
  case (Cons t ts)
  from Cons.prems(2) show ?case
    by (rule build_catalog_ConsE) (rule Cons.IH [rotated], assumption, simp add: Cons.prems(1))
qed simp

lemma build_catalog_keeps:
  "build_catalog tools ts = Inr tools' \<Longrightarrow> map_of tools n = Some t \<Longrightarrow> map_of tools' n = Some t"
proof (induction ts arbitrary: tools)
  case (Cons t' ts)
  from Cons.prems(1) show ?case
    by (rule build_catalog_ConsE)
      (erule Cons.IH, use Cons.prems(2) in \<open>auto simp: update_conv'\<close>)
qed simp

lemma build_catalog_entry:
  "build_catalog tools ts = Inr tools' \<Longrightarrow> t \<in> set ts \<Longrightarrow>
     \<exists>j. lt_input_schema t = Some j \<and> trim_space (lt_name t) \<noteq> [] \<and>
       map_of tools' (trim_space (lt_name t)) =
         Some \<lparr>tl_name = trim_space (lt_name t), tl_description = lt_description t, tl_input_schema = j\<rparr>"
proof (induction ts arbitrary: tools)
  case (Cons t' ts)
  then show ?case
    by (auto simp: build_catalog_Cons update_conv' dest: build_catalog_keeps
        [where n = "trim_space (lt_name t)"])
qed simp

lemma build_catalog_dom:
  "build_catalog tools ts = Inr tools' \<Longrightarrow>
     dom (map_of tools') = dom (map_of tools) \<union> (trim_space \<circ> lt_name) ` set ts"
proof (induction ts arbitrary: tools)
  case (Cons t ts)
  from Cons.prems show ?case
    by (rule build_catalog_ConsE) (drule Cons.IH, simp add: gomap_dom_update)
qed simp

lemma build_catalog_distinct:
  "build_catalog tools ts = Inr tools' \<Longrightarrow>
     distinct (map (trim_space \<circ> lt_name) ts)
     \<and> (trim_space \<circ> lt_name) ` set ts \<inter> dom (map_of tools) = {}"
proof (induction ts arbitrary: tools)
  case (Cons t ts)
  from Cons.prems show ?case
    by (rule build_catalog_ConsE) (drule Cons.IH, auto simp: gomap_dom_update)
qed simp

lemma same_catalog_iff:
  assumes "gomap_ok want" and "gomap_ok got"
  shows "same_catalog want got \<longleftrightarrow>
    (\<forall>n. map_option tl_input_schema (map_of want n) = map_option tl_input_schema (map_of got n))"
proof
  assume same: "same_catalog want got"
  have sub: "map_option tl_input_schema (map_of got n) = Some (tl_input_schema t)"
    if "map_of want n = Some t" for n t
  proof -
    from that assms(1) have "(n, t) \<in> set want" by (simp add: gomap_in_set)
    with same show ?thesis by (auto simp: same_catalog_def list_all_iff split: option.splits)
  qed
  then have "dom (map_of want) \<subseteq> dom (map_of got)" by fastforce
  then have "dom (map_of want) = dom (map_of got)"
    using same gomap_card [OF assms(1)] gomap_card [OF assms(2)]
    by (intro card_subset_eq) (auto simp: same_catalog_def finite_dom_map_of)
  then have "map_of want n = None \<longleftrightarrow> map_of got n = None" for n by (metis domIff)
  with sub show "\<forall>n. map_option tl_input_schema (map_of want n) = map_option tl_input_schema (map_of got n)"
    by (metis not_None_eq option.simps(8,9))
next
  assume eq: "\<forall>n. map_option tl_input_schema (map_of want n) = map_option tl_input_schema (map_of got n)"
  then have "dom (map_of want) = dom (map_of got)"
    by (metis (no_types, lifting) domIff option.map_disc_iff subsetI subset_antisym)
  then have "length want = length got"
    using gomap_card [OF assms(1)] gomap_card [OF assms(2)] by simp
  moreover have "case map_of got n of None \<Rightarrow> False
      | Some actual \<Rightarrow> tl_input_schema t = tl_input_schema actual" if "(n, t) \<in> set want" for n t
  proof -
    from that assms(1) have "map_of want n = Some t" by (simp add: gomap_in_set)
    with eq [rule_format, of n] show ?thesis by (cases "map_of got n") auto
  qed
  ultimately show "same_catalog want got"
    by (auto simp: same_catalog_def list_all_iff)
qed

section \<open>What a call does to the gateway\<close>

definition sent_calls :: "('w, 'sess, 'j) gateway \<Rightarrow> string list" where
  "sent_calls g = concat (map (\<lambda>e. case e of Sent_Call n \<Rightarrow> [n] | _ \<Rightarrow> []) (gw_log g))"

lemma call_tool_frame [go_frame]:
  "call_tool sdk ctx n a g = (g', r) \<Longrightarrow> gw_client g' = gw_client g"
  by (auto simp: call_tool_def split: option.splits prod.splits)

lemma call_tool_sent:
  "call_tool sdk ctx n a g = (g', r) \<Longrightarrow>
     sent_calls g' = sent_calls g @ (if cl_session (gw_client g) = None then [] else [n])"
  by (auto simp: call_tool_def sent_calls_def split: option.splits prod.splits)

lemma reconnect_frame [go_frame]:
  assumes "reconnect sdk g = (g', r)"
  shows "cl_tools (gw_client g') = cl_tools (gw_client g)"
    and "cl_endpoint (gw_client g') = cl_endpoint (gw_client g)"
    and "cl_auth_token (gw_client g') = cl_auth_token (gw_client g)"
    and "cl_timeout (gw_client g') = cl_timeout (gw_client g)"
    and "sent_calls g' = sent_calls g"
    and "r \<noteq> None \<longleftrightarrow> cl_session (gw_client g') = None"
  using assms
  by (auto simp: reconnect_def Let_def sent_calls_def split: prod.splits sum.splits if_splits)

lemma call_cases:
  assumes "call sdk ctx n a g = (g', out, err)"
  obtains (gate) "map_of (cl_tools (gw_client g)) n = None" "g' = g" "out = []" "err = Some (Not_In_Catalog n)"
  | (first) r where "map_of (cl_tools (gw_client g)) n \<noteq> None"
      "call_tool sdk ctx n a g = (g', r)" "\<And>e. r = Inl e \<Longrightarrow> \<not> session_failure e" "(out, err) = call_outcome r"
  | (broken) g1 e re where "map_of (cl_tools (gw_client g)) n \<noteq> None"
      "call_tool sdk ctx n a g = (g1, Inl e)" "session_failure e"
      "reconnect sdk g1 = (g', Some re)" "out = []" "err = Some (Session_Failed e re)"
  | (unsafe) g1 e where "map_of (cl_tools (gw_client g)) n \<noteq> None"
      "call_tool sdk ctx n a g = (g1, Inl e)" "session_failure e" "\<not> retry_safe_tool n"
      "reconnect sdk g1 = (g', None)" "(out, err) = call_outcome (Inl e)"
  | (retried) g1 e g2 r where "map_of (cl_tools (gw_client g)) n \<noteq> None"
      "call_tool sdk ctx n a g = (g1, Inl e)" "session_failure e" "retry_safe_tool n"
      "reconnect sdk g1 = (g2, None)" "call_tool sdk ctx n a g2 = (g', r)" "(out, err) = call_outcome r"
  using assms
  by (auto simp: call_def split: prod.splits sum.splits if_splits option.splits)

lemma call_catalog: "call sdk ctx n a g = (g', out, err) \<Longrightarrow> cl_tools (gw_client g') = cl_tools (gw_client g)"
  by (erule call_cases) (simp_all add: call_tool_frame reconnect_frame)

text \<open>A text without an error is what the service answered.\<close>

lemma call_text:
  assumes "call sdk ctx n args g = (g', out, None)"
  shows "\<exists>timeout sess w w' res. sdk_call_tool sdk timeout ctx sess n args w = (w', Inr res)
    \<and> out = concat (map text_of (cr_content res))"
proof -
  have outcome: "\<exists>timeout sess w w'. sdk_call_tool sdk timeout ctx sess n args w = (w', r)"
    if "call_tool sdk ctx n args h = (h', r)" "r \<noteq> Inl not_connected" for h h' r
    using that by (auto simp: call_tool_def split: option.splits prod.splits)
  have ok: "\<exists>res. r = Inr res \<and> out = concat (map text_of (cr_content res))" if "call_outcome r = (out, None)" for r
    using that by (auto simp: call_outcome_def Let_def split: sum.splits if_splits)
  obtain h h' r where "call_tool sdk ctx n args h = (h', r)" "call_outcome r = (out, None)"
    using assms by (auto simp: call_def call_outcome_def [of "Inl e" for e] split: if_splits prod.splits sum.splits option.splits)
  with ok outcome show ?thesis by blast
qed

lemma call_sent:
  assumes "call sdk ctx n a g = (g', out, err)"
  shows "\<exists>k. sent_calls g' = sent_calls g @ replicate k n
    \<and> k \<le> (if map_of (cl_tools (gw_client g)) n = None then 0 else if retry_safe_tool n then 2 else 1)"
  using assms
proof (cases rule: call_cases)
  case gate
  then show ?thesis by (intro exI [of _ 0]) simp
next
  case (first r)
  then show ?thesis
    using call_tool_sent [OF first(2)]
    by (intro exI [of _ "if cl_session (gw_client g) = None then 0 else 1"]) auto
next
  case (broken g1 e re)
  then show ?thesis
    using call_tool_sent [OF broken(2)] reconnect_frame(5) [OF broken(4)]
    by (intro exI [of _ "if cl_session (gw_client g) = None then 0 else 1"]) auto
next
  case (unsafe g1 e)
  then show ?thesis
    using call_tool_sent [OF unsafe(2)] reconnect_frame(5) [OF unsafe(5)]
    by (intro exI [of _ "if cl_session (gw_client g) = None then 0 else 1"]) auto
next
  case (retried g1 e g2 r)
  have "sent_calls g' = sent_calls g2 @ [n]" "sent_calls g2 = sent_calls g1"
    using call_tool_sent [OF retried(6)] reconnect_frame(5,6) [OF retried(5)] by auto
  then show ?thesis
    using call_tool_sent [OF retried(2)] retried(1,4)
    by (intro exI [of _ "if cl_session (gw_client g) = None then 1 else 2"])
      (auto simp: numeral_2_eq_2)
qed

text \<open>A session that is gone stays gone: its error is none of those that reconnect.\<close>

lemma not_connected_no_failure: "\<not> session_failure not_connected"
  by code_simp

lemma call_without_session:
  "cl_session (gw_client g) = None \<Longrightarrow>
     call sdk ctx n a g =
       (g, [], Some (if map_of (cl_tools (gw_client g)) n = None then Not_In_Catalog n
                     else Call_Failed not_connected))"
  using not_connected_no_failure by (simp add: call_def call_tool_def call_outcome_def)

section \<open>The client is a gateway to its catalog\<close>

definition send_bound :: "string \<Rightarrow> nat" where
  "send_bound n = (if retry_safe_tool n then 2 else 1)"

abbreviation catalog_names :: "('w, 'sess, 'j) gateway \<Rightarrow> string set" where
  "catalog_names g \<equiv> dom (map_of (cl_tools (gw_client g)))"

definition call_state ::
    "('w, 'sess, 'j, 'a) mcp_sdk \<Rightarrow> string \<Rightarrow> req_context \<times> 'a \<Rightarrow> ('w, 'sess, 'j) gateway \<Rightarrow>
     ('w, 'sess, 'j) gateway" where
  "call_state sdk n ca g = fst (call sdk (fst ca) n (snd ca) g)"

interpretation gw: tool_gateway "call_state sdk" catalog_names sent_calls send_bound for sdk
proof unfold_locales
  fix n ca g
  obtain g' out err where c: "call sdk (fst ca) n (snd ca) g = (g', out, err)"
    by (cases "call sdk (fst ca) n (snd ca) g") auto
  show "catalog_names (call_state sdk n ca g) = catalog_names g"
    using call_catalog [OF c] by (simp add: call_state_def c)
  show "\<exists>k. sent_calls (call_state sdk n ca g) = sent_calls g @ replicate k n
      \<and> k \<le> (if n \<in> catalog_names g then send_bound n else 0)"
    using call_sent [OF c] by (auto simp: call_state_def c send_bound_def domIff)
qed

lemma call_run_tools:
  "cl_tools (gw_client (run (\<lambda>(n, a). call_state sdk n a) cs g)) = cl_tools (gw_client g)"
proof (induction cs arbitrary: g)
  case (Cons c cs)
  obtain n ca where c: "c = (n, ca)" by (cases c)
  obtain g' out err where "call sdk (fst ca) n (snd ca) g = (g', out, err)"
    by (cases "call sdk (fst ca) n (snd ca) g") auto
  then have "cl_tools (gw_client (call_state sdk n ca g)) = cl_tools (gw_client g)"
    using call_catalog by (auto simp: call_state_def)
  then show ?case by (simp add: c Cons.IH)
qed simp

lemma call_run_without_session:
  "cl_session (gw_client g) = None \<Longrightarrow> run (\<lambda>(n, a). call_state sdk n a) cs g = g"
  by (induction cs) (auto simp: call_state_def call_without_session)

lemma connect_ok:
  assumes "connect sdk endpoint token timeout w = (w', Inr c)"
  obtains w1 session w2 listed
  where "trim_space token \<noteq> []"
    and "sdk_connect sdk (trim_space endpoint) (trim_space token) w = (w1, Inr session)"
    and "sdk_list_tools sdk (cl_timeout c) session w1 = (w2, Inr listed)"
    and "build_catalog [] listed = Inr (cl_tools c)" "cl_tools c \<noteq> []" "w' = w2"
    and "cl_session c = Some session" "cl_endpoint c = trim_space endpoint"
    and "cl_auth_token c = trim_space token"
    and "cl_timeout c = (if timeout \<le> 0 then default_timeout else timeout)"
  using assms
  by (auto simp: connect_def connect_session_def Let_def
      split: if_splits prod.splits sum.splits)

section \<open>Properties\<close>

text \<open>C7: the start-up snapshot is immutable and every call is checked against it. Whatever
  calls are made, in any order, the catalog stays the one frozen at start-up; the names sent to
  the private service are names of that catalog; and a tool is sent at most once per call of it,
  at most twice when it is one that is safe to repeat.\<close>

theorem calls_stay_in_the_catalog:
  "cl_tools (gw_client (run (\<lambda>(n, a). call_state sdk n a) cs g)) = cl_tools (gw_client g)
   \<and> (\<exists>ns. sent_calls (run (\<lambda>(n, a). call_state sdk n a) cs g) = sent_calls g @ ns
        \<and> set ns \<subseteq> catalog_names g
        \<and> (\<forall>m. count_list ns m \<le> (if retry_safe_tool m then 2 else 1) * count_list (map fst cs) m))"
  using call_run_tools gw.run_sent [of sdk cs g] by (simp add: send_bound_def)

text \<open>C30: a failed reconnection is final. When a call reports that its session failed and could
  not be re-established, every later call of every tool leaves the gateway as it is: nothing is
  sent, no connection is tried, and the tools of the catalog fail with \<open>not connected\<close>.\<close>

theorem failed_reconnect_is_final:
  assumes "call sdk ctx n a g = (g', out, Some (Session_Failed e re))"
  shows "run (\<lambda>(m, b). call_state sdk m b) cs g' = g'
    \<and> call sdk ctx' m b g' =
        (g', [], Some (if m \<in> catalog_names g then Call_Failed not_connected else Not_In_Catalog m))"
proof -
  from assms have "cl_session (gw_client g') = None"
  proof (cases rule: call_cases)
    case (broken g1 e re)
    then show ?thesis using reconnect_frame(6) [OF broken(4)] by simp
  qed (auto simp: call_outcome_def Let_def split: sum.splits if_splits)
  moreover have "catalog_names g' = catalog_names g" using call_catalog [OF assms] by simp
  ultimately show ?thesis
    by (auto simp: call_run_without_session call_without_session domIff)
qed

text \<open>A service that accepts one connection, whose session is then lost.\<close>

definition one_shot_sdk :: "(nat, unit, nat, unit) mcp_sdk" where
  "one_shot_sdk =
     \<lparr>sdk_connect = (\<lambda>_ _ w. (w + 1, if w = 0 then Inr () else Inl ''connection refused'')),
      sdk_list_tools = (\<lambda>_ _ w. (w, Inr [\<lparr>lt_name = '' get_price '', lt_description = [],
                                          lt_input_schema = Some 7\<rparr>])),
      sdk_call_tool = (\<lambda>_ _ _ _ _ w. (w, Inl ''session not found'')),
      sdk_close = (\<lambda>_ w. (w, None))\<rparr>"

definition one_shot_gateway :: "(nat, unit, nat) gateway" where
  "one_shot_gateway =
     \<lparr>gw_client = \<lparr>cl_session = Some (), cl_tools = [(''get_price'', \<lparr>tl_name = ''get_price'',
          tl_description = [], tl_input_schema = 7\<rparr>)], cl_endpoint = ''http://mcp'',
          cl_auth_token = ''tok'', cl_timeout = default_timeout\<rparr>,
      gw_world = 1, gw_log = []\<rparr>"

definition one_shot_broken :: "(nat, unit, nat) gateway" where
  "one_shot_broken =
     \<lparr>gw_client = (gw_client one_shot_gateway)\<lparr>cl_session := None\<rparr>, gw_world = 2,
      gw_log = [Sent_Call ''get_price'', Sent_Connect ''http://mcp'']\<rparr>"

lemma one_shot_call:
  "call one_shot_sdk None ''get_price'' () one_shot_gateway =
     (one_shot_broken, [], Some (Session_Failed ''session not found'' (Connect_Failed ''connection refused'')))"
  by code_simp

lemma failed_reconnect_is_final_witness:
  "call one_shot_sdk None ''get_price'' () one_shot_broken =
     (one_shot_broken, [], Some (Call_Failed not_connected))"
  using failed_reconnect_is_final [OF one_shot_call, of "[]" None "''get_price''" "()"]
  by (simp add: one_shot_gateway_def)

text \<open>C39: A client that connects has opened one session, at the trimmed endpoint with the trimmed token,
  which is never empty, and has frozen exactly what the service listed there. Every listed tool has a
  schema and a name; the trimmed names are distinct and are the catalog's names, each bound to the
  description and schema it was listed with. A timeout that is not positive becomes ninety seconds.\<close>

theorem connect_freezes_the_listing:
  assumes "connect sdk endpoint token timeout w = (w', Inr c)"
  shows "cl_endpoint c = trim_space endpoint \<and> cl_auth_token c = trim_space token \<and> trim_space token \<noteq> []
    \<and> cl_timeout c = (if timeout \<le> 0 then 90 * go_second else timeout)
    \<and> gomap_ok (cl_tools c) \<and> cl_tools c \<noteq> []
    \<and> (\<exists>listed session w1. sdk_connect sdk (trim_space endpoint) (trim_space token) w = (w1, Inr session)
         \<and> sdk_list_tools sdk (cl_timeout c) session w1 = (w', Inr listed)
         \<and> cl_session c = Some session
         \<and> dom (map_of (cl_tools c)) = set (map (trim_space \<circ> lt_name) listed)
         \<and> distinct (map (trim_space \<circ> lt_name) listed)
         \<and> (\<forall>t\<in>set listed. \<exists>j. lt_input_schema t = Some j \<and> trim_space (lt_name t) \<noteq> []
              \<and> map_of (cl_tools c) (trim_space (lt_name t)) =
                  Some \<lparr>tl_name = trim_space (lt_name t), tl_description = lt_description t,
                        tl_input_schema = j\<rparr>))"
proof -
  from assms show ?thesis
  proof (rule connect_ok)
    fix w1 session w2 listed
    assume h: "trim_space token \<noteq> []" "sdk_connect sdk (trim_space endpoint) (trim_space token) w = (w1, Inr session)"
      "sdk_list_tools sdk (cl_timeout c) session w1 = (w2, Inr listed)"
      "build_catalog [] listed = Inr (cl_tools c)" "cl_tools c \<noteq> []" "w' = w2"
      "cl_session c = Some session" "cl_endpoint c = trim_space endpoint" "cl_auth_token c = trim_space token"
      "cl_timeout c = (if timeout \<le> 0 then default_timeout else timeout)"
    have "dom (map_of (cl_tools c)) = set (map (trim_space \<circ> lt_name) listed)"
      using build_catalog_dom [OF h(4)] by simp
    moreover have "distinct (map (trim_space \<circ> lt_name) listed)"
      using build_catalog_distinct [OF h(4)] by simp
    moreover have "cl_timeout c = (if timeout \<le> 0 then 90 * go_second else timeout)"
      using h(10) by (simp add: default_timeout_def)
    ultimately show ?thesis
      using h(1-9) build_catalog_ok [OF _ h(4)] build_catalog_entry [OF h(4)]
      by (intro conjI exI [of _ listed] exI [of _ session] exI [of _ w1]) auto
  qed
qed

lemma one_shot_connect:
  "connect one_shot_sdk '' http://mcp'' '' tok '' 0 0 = (1, Inr (gw_client one_shot_gateway))"
  by code_simp

lemma connect_freezes_the_listing_witness:
  "dom (map_of (cl_tools (gw_client one_shot_gateway))) \<noteq> {}
   \<and> cl_auth_token (gw_client one_shot_gateway) \<noteq> []"
  using connect_freezes_the_listing [OF one_shot_connect] by auto

text \<open>C29: a reconnection succeeds exactly when the service can be connected and lists, under the
  same names, tools with the same schemas as the catalog frozen at start-up; otherwise the
  client is left without a session.\<close>

theorem reconnect_iff_same_catalog:
  assumes "gomap_ok (cl_tools (gw_client g))"
  shows "cl_session (gw_client (fst (reconnect sdk g))) \<noteq> None \<longleftrightarrow>
    (\<exists>w session tools.
       connect_session sdk (cl_endpoint (gw_client g)) (cl_auth_token (gw_client g))
         (cl_timeout (gw_client g))
         (case cl_session (gw_client g) of None \<Rightarrow> gw_world g
          | Some old \<Rightarrow> fst (sdk_close sdk old (gw_world g))) = (w, Inr (session, tools))
       \<and> (\<forall>n. map_option tl_input_schema (map_of (cl_tools (gw_client g)) n)
              = map_option tl_input_schema (map_of tools n)))"
proof -
  have ok: "gomap_ok tools" if "connect_session sdk e t d w = (w', Inr (s, tools))" for e t d w w' s tools
    using that build_catalog_ok [of "[]"]
    by (auto simp: connect_session_def split: prod.splits sum.splits if_splits)
  show ?thesis
    by (auto simp: reconnect_def Let_def same_catalog_iff [OF assms ok] split: prod.splits sum.splits)
qed

lemma reconnect_iff_same_catalog_witness:
  "cl_session (gw_client (fst (reconnect one_shot_sdk (one_shot_gateway\<lparr>gw_world := 0\<rparr>)))) \<noteq> None"
proof -
  have ok: "gomap_ok (cl_tools (gw_client (one_shot_gateway\<lparr>gw_world := 0\<rparr>)))" by code_simp
  show ?thesis
    unfolding reconnect_iff_same_catalog [OF ok]
    by (intro exI [of _ 1] exI [of _ "()"] exI [of _ "cl_tools (gw_client one_shot_gateway)"])
      (simp add: one_shot_gateway_def, code_simp)
qed

end
