(* ===== verification/Json.thy ===== *)
theory Json
  imports Go_Strings "HOL-Library.List_Lexorder" "HOL-Library.Char_ord"
begin

text \<open>
  What the program uses of \<open>encoding/json\<close>: the decoder's grammar and its values, the
  decoding of a value into the fields of a struct, and the encoder of strings and values. A
  number is kept as the literal it was written with.
\<close>

section \<open>UTF-8\<close>

definition byte :: "char \<Rightarrow> int" where
  "byte c = of_char c"

lemma byte_nat: "byte c = int (of_char c)"
  by (cases c) (simp add: byte_def of_char_def of_bool_def horner_sum_simps)

definition in_bytes :: "int \<Rightarrow> int \<Rightarrow> char \<Rightarrow> bool" where
  "in_bytes lo hi c \<longleftrightarrow> lo \<le> byte c \<and> byte c \<le> hi"

definition cont :: "char \<Rightarrow> bool" where
  "cont c = in_bytes 0x80 0xBF c"

text \<open>The length the first byte announces, and the range it allows for the second.\<close>

definition rune_len :: "char \<Rightarrow> nat" where
  "rune_len a =
     (if byte a < 0x80 then 1
      else if in_bytes 0xC2 0xDF a then 2
      else if in_bytes 0xE0 0xEF a then 3
      else if in_bytes 0xF0 0xF4 a then 4
      else 0)"

definition second_ok :: "char \<Rightarrow> char \<Rightarrow> bool" where
  "second_ok a b =
     in_bytes (if byte a = 0xE0 then 0xA0 else if byte a = 0xF0 then 0x90 else 0x80)
       (if byte a = 0xED then 0x9F else if byte a = 0xF4 then 0x8F else 0xBF) b"

text \<open>The size of the encoded rune at the front, and 0 when the bytes there encode none.\<close>

definition rune_size :: "string \<Rightarrow> nat" where
  "rune_size s =
     (case s of
        [] \<Rightarrow> 0
      | a # t \<Rightarrow>
          (let n = rune_len a
           in if n \<le> 1 then n
              else if n \<le> length s \<and> second_ok a (hd t) \<and> list_all cont (take (n - 1) t) then n
              else 0))"

definition replacement :: string where
  "replacement = [CHR 0xEF, CHR 0xBF, CHR 0xBD]"

text \<open>Invalid bytes are replaced one by one.\<close>

function valid_utf8 :: "string \<Rightarrow> string" where
  "valid_utf8 s =
     (if s = [] then []
      else if rune_size s = 0 then replacement @ valid_utf8 (tl s)
      else take (rune_size s) s @ valid_utf8 (drop (rune_size s) s))"
  by pat_completeness auto
termination
  by (relation "measure length") auto

declare valid_utf8.simps [simp del]

definition utf8_encode :: "nat \<Rightarrow> string" where
  "utf8_encode r =
     (if r < 0x80 then [char_of r]
      else if r < 0x800 then [char_of (0xC0 + r div 64), char_of (0x80 + r mod 64)]
      else if r < 0x10000 then
        [char_of (0xE0 + r div 4096), char_of (0x80 + r div 64 mod 64), char_of (0x80 + r mod 64)]
      else
        [char_of (0xF0 + r div 262144), char_of (0x80 + r div 4096 mod 64),
         char_of (0x80 + r div 64 mod 64), char_of (0x80 + r mod 64)])"

section \<open>String literals\<close>

text \<open>The body of a literal up to the closing quote, as the scanner accepts it.\<close>

fun scan_string :: "string \<Rightarrow> (string \<times> string) option" where
  "scan_string [] = None"
| "scan_string (c # s) =
     (if c = CHR 0x22 then Some ([], s)
      else if byte c < 0x20 then None
      else if c = CHR 0x5C then
        (case s of
           [] \<Rightarrow> None
         | e # t \<Rightarrow>
             if e \<in> set [CHR 0x22, CHR 0x5C, CHR ''/'', CHR ''b'', CHR ''f'', CHR ''n'', CHR ''r'', CHR ''t'']
             then map_option (map_prod (\<lambda>b. c # e # b) id) (scan_string t)
             else if e = CHR ''u'' then
               (case t of
                  h1 # h2 # h3 # h4 # u \<Rightarrow>
                    if list_all (\<lambda>h. hex_value h \<noteq> None) [h1, h2, h3, h4]
                    then map_option (map_prod (\<lambda>b. [c, e, h1, h2, h3, h4] @ b) id) (scan_string u)
                    else None
                | _ \<Rightarrow> None)
             else None)
      else map_option (map_prod (\<lambda>b. c # b) id) (scan_string s))"

fun hex4 :: "string \<Rightarrow> nat option" where
  "hex4 (a # b # c # d # _) =
     (case (hex_value a, hex_value b, hex_value c, hex_value d) of
        (Some a, Some b, Some c, Some d) \<Rightarrow> Some (((a * 16 + b) * 16 + c) * 16 + d)
      | _ \<Rightarrow> None)"
| "hex4 _ = None"

definition surrogate :: "nat \<Rightarrow> bool" where
  "surrogate r \<longleftrightarrow> 0xD800 \<le> r \<and> r < 0xE000"

text \<open>The second half of a surrogate pair, when the bytes at the front are its escape.\<close>

definition low_surrogate :: "nat \<Rightarrow> string \<Rightarrow> nat option" where
  "low_surrogate r s =
     (if has_prefix s [CHR 0x5C, CHR ''u''] \<and> 0xD800 \<le> r \<and> r < 0xDC00
      then (case hex4 (drop 2 s) of
              Some q \<Rightarrow> if 0xDC00 \<le> q \<and> q < 0xE000
                then Some (0x10000 + (r - 0xD800) * 1024 + (q - 0xDC00)) else None
            | None \<Rightarrow> None)
      else None)"

function unescape :: "string \<Rightarrow> string" where
  "unescape s =
     (case s of
        [] \<Rightarrow> []
      | c # t \<Rightarrow>
          if c \<noteq> CHR 0x5C then c # unescape t
          else (case t of
              [] \<Rightarrow> []
            | e # u \<Rightarrow>
                if e = CHR ''b'' then CHR 0x08 # unescape u
                else if e = CHR ''f'' then CHR 0x0C # unescape u
                else if e = CHR ''n'' then CHR 0x0A # unescape u
                else if e = CHR ''r'' then CHR 0x0D # unescape u
                else if e = CHR ''t'' then CHR 0x09 # unescape u
                else if e = CHR ''u'' then
                  (case hex4 u of
                     None \<Rightarrow> []
                   | Some r \<Rightarrow>
                       if surrogate r then
                         (case low_surrogate r (drop 4 u) of
                            Some q \<Rightarrow> utf8_encode q @ unescape (drop 10 u)
                          | None \<Rightarrow> replacement @ unescape (drop 4 u))
                       else utf8_encode r @ unescape (drop 4 u))
                else e # unescape u))"
  by pat_completeness auto
termination
  by (relation "measure length") auto

declare unescape.simps [simp del]

definition unquote :: "string \<Rightarrow> string" where
  "unquote body = unescape (valid_utf8 body)"

section \<open>Values\<close>

datatype json =
    J_Null
  | J_Bool bool
  | J_Num string
  | J_Str string
  | J_Arr "json list"
  | J_Obj "(string \<times> json) list"

definition is_ws :: "char \<Rightarrow> bool" where
  "is_ws c \<longleftrightarrow> c \<in> set [CHR 0x20, CHR 0x09, CHR 0x0D, CHR 0x0A]"

definition skip_ws :: "string \<Rightarrow> string" where
  "skip_ws s = dropWhile is_ws s"

definition is_digit :: "char \<Rightarrow> bool" where
  "is_digit c \<longleftrightarrow> in_bytes 0x30 0x39 c"

definition scan_digits :: "string \<Rightarrow> (string \<times> string) option" where
  "scan_digits s = (let d = takeWhile is_digit s in if d = [] then None else Some (d, dropWhile is_digit s))"

definition scan_int :: "string \<Rightarrow> (string \<times> string) option" where
  "scan_int s =
     (case s of
        [] \<Rightarrow> None
      | c # t \<Rightarrow> if c = CHR ''0'' then Some ([c], t) else scan_digits s)"

definition scan_frac :: "string \<Rightarrow> (string \<times> string) option" where
  "scan_frac s =
     (case s of
        c # t \<Rightarrow> if c = CHR ''.'' then map_option (map_prod (\<lambda>d. c # d) id) (scan_digits t) else Some ([], s)
      | [] \<Rightarrow> Some ([], s))"

definition scan_exp :: "string \<Rightarrow> (string \<times> string) option" where
  "scan_exp s =
     (case s of
        c # t \<Rightarrow>
          if c = CHR ''e'' \<or> c = CHR ''E'' then
            (case t of
               g # u \<Rightarrow>
                 if g = CHR ''+'' \<or> g = CHR ''-''
                 then map_option (map_prod (\<lambda>d. c # g # d) id) (scan_digits u)
                 else map_option (map_prod (\<lambda>d. c # d) id) (scan_digits t)
             | [] \<Rightarrow> None)
          else Some ([], s)
      | [] \<Rightarrow> Some ([], s))"

definition scan_number :: "string \<Rightarrow> (string \<times> string) option" where
  "scan_number s =
     (let (sign, s) = (if has_prefix s ''-'' then (''-'', tl s) else ([], s))
      in case scan_int s of
           None \<Rightarrow> None
         | Some (i, s) \<Rightarrow>
             (case scan_frac s of
                None \<Rightarrow> None
              | Some (f, s) \<Rightarrow>
                  (case scan_exp s of
                     None \<Rightarrow> None
                   | Some (e, s) \<Rightarrow> Some (sign @ i @ f @ e, s))))"

text \<open>At most this many arrays and objects may be open at once.\<close>

definition max_nesting :: int where
  "max_nesting = 10000"

text \<open>
  The first argument bounds the number of calls, the second counts the open arrays and objects.
  \<open>parse_elems\<close> is at the first value of a non-empty array, \<open>parse_members\<close> at the first
  key of a non-empty object.
\<close>

fun parse_value :: "nat \<Rightarrow> nat \<Rightarrow> string \<Rightarrow> (json \<times> string) option"
  and parse_elems :: "nat \<Rightarrow> nat \<Rightarrow> string \<Rightarrow> (json list \<times> string) option"
  and parse_members :: "nat \<Rightarrow> nat \<Rightarrow> string \<Rightarrow> ((string \<times> json) list \<times> string) option" where
  "parse_value 0 d s = None"
| "parse_value (Suc n) d s =
     (case skip_ws s of
        [] \<Rightarrow> None
      | c # t \<Rightarrow>
          if c = CHR ''{'' then
            (if int d \<ge> max_nesting then None
             else if has_prefix (skip_ws t) ''}'' then Some (J_Obj [], tl (skip_ws t))
             else map_option (map_prod J_Obj id) (parse_members n (Suc d) t))
          else if c = CHR ''['' then
            (if int d \<ge> max_nesting then None
             else if has_prefix (skip_ws t) '']'' then Some (J_Arr [], tl (skip_ws t))
             else map_option (map_prod J_Arr id) (parse_elems n (Suc d) t))
          else if c = CHR 0x22 then map_option (map_prod (J_Str \<circ> unquote) id) (scan_string t)
          else if c = CHR ''-'' \<or> is_digit c then map_option (map_prod J_Num id) (scan_number (c # t))
          else if has_prefix (c # t) ''true'' then Some (J_Bool True, drop 4 (c # t))
          else if has_prefix (c # t) ''false'' then Some (J_Bool False, drop 5 (c # t))
          else if has_prefix (c # t) ''null'' then Some (J_Null, drop 4 (c # t))
          else None)"
| "parse_elems 0 d s = None"
| "parse_elems (Suc n) d s =
     (case parse_value n d s of
        None \<Rightarrow> None
      | Some (v, r) \<Rightarrow>
          (case skip_ws r of
             c # t \<Rightarrow>
               if c = CHR '','' then map_option (map_prod (\<lambda>vs. v # vs) id) (parse_elems n d t)
               else if c = CHR '']'' then Some ([v], t)
               else None
           | [] \<Rightarrow> None))"
| "parse_members 0 d s = None"
| "parse_members (Suc n) d s =
     (case skip_ws s of
        [] \<Rightarrow> None
      | q # t \<Rightarrow>
          if q \<noteq> CHR 0x22 then None
          else (case scan_string t of
              None \<Rightarrow> None
            | Some (k, r) \<Rightarrow>
                if \<not> has_prefix (skip_ws r) '':'' then None
                else (case parse_value n d (tl (skip_ws r)) of
                    None \<Rightarrow> None
                  | Some (v, r) \<Rightarrow>
                      (case skip_ws r of
                         c # t \<Rightarrow>
                           if c = CHR '','' then
                             map_option (map_prod (\<lambda>ms. (unquote k, v) # ms) id) (parse_members n d t)
                           else if c = CHR ''}'' then Some ([(unquote k, v)], t)
                           else None
                       | [] \<Rightarrow> None))))"

text \<open>\<open>json.Unmarshal\<close> up to the value: one value and nothing but white space around it.\<close>

definition json_fuel :: "string \<Rightarrow> nat" where
  "json_fuel s = 2 * length s + 1"

definition json_parse :: "string \<Rightarrow> json option" where
  "json_parse s =
     (case parse_value (json_fuel s) 0 s of
        Some (v, r) \<Rightarrow> if skip_ws r = [] then Some v else None
      | None \<Rightarrow> None)"

section \<open>The parser needs no more calls than it is given\<close>

lemma scan_string_shorter: "scan_string s = Some (b, r) \<Longrightarrow> length r < length s"
proof (induction s arbitrary: b r rule: scan_string.induct)
  case (2 c s)
  then show ?case
    by (fastforce split: if_splits list.splits)
qed simp

lemma scan_digits_shorter: "scan_digits s = Some (d, r) \<Longrightarrow> length r < length s"
  by (cases s) (auto simp: scan_digits_def Let_def length_dropWhile_le le_imp_less_Suc split: if_splits)

lemma scan_number_shorter: "scan_number s = Some (l, r) \<Longrightarrow> length r < length s"
proof -
  assume h: "scan_number s = Some (l, r)"
  obtain sg t where sg: "(if has_prefix s ''-'' then (''-'', tl s) else ([], s)) = (sg, t)" by fastforce
  with h obtain i u f v e where steps: "scan_int t = Some (i, u)" "scan_frac u = Some (f, v)"
      "scan_exp v = Some (e, r)"
    by (auto simp: scan_number_def Let_def split: option.splits)
  have "length t \<le> length s" using sg by (auto split: if_splits)
  moreover have "length u < length t"
    using steps(1) by (auto simp: scan_int_def dest: scan_digits_shorter split: list.splits if_splits)
  moreover have "length v \<le> length u"
    using steps(2) by (auto simp: scan_frac_def dest!: scan_digits_shorter split: list.splits if_splits)
  moreover have "length r \<le> length v"
    using steps(3) by (auto simp: scan_exp_def dest!: scan_digits_shorter split: list.splits if_splits)
  ultimately show ?thesis by linarith
qed

lemma skip_ws_le: "length (skip_ws s) \<le> length s"
  by (simp add: skip_ws_def length_dropWhile_le)

lemma skip_ws_ConsD: "skip_ws s = c # t \<Longrightarrow> length t < length s"
  using skip_ws_le [of s] by simp

lemma skip_ws_tlD: "has_prefix (skip_ws s) [c] \<Longrightarrow> length (tl (skip_ws s)) < length s"
  using skip_ws_le [of s] by (cases "skip_ws s") (auto simp: has_prefix_def)

lemma parse_shorter:
  "parse_value n d s = Some (v, r) \<Longrightarrow> length r < length s"
  "parse_elems n d s = Some (vs, r) \<Longrightarrow> length r < length s"
  "parse_members n d s = Some (ms, r) \<Longrightarrow> length r < length s"
proof (induction n d s and n d s and n d s arbitrary: v r and vs r and ms r
    rule: parse_value_parse_elems_parse_members.induct)
  case (2 n d s)
  show ?case
  proof (cases "skip_ws s")
    case Nil
    with 2(3) show ?thesis by simp
  next
    case (Cons c t)
    note len = skip_ws_ConsD [OF Cons]
    have drop: "length (drop (Suc k) (c # t)) < length s" for k
      using len by simp
    show ?thesis
    proof (cases "c = CHR ''-'' \<or> is_digit c")
      case True
      then have "c \<noteq> CHR ''{''" "c \<noteq> CHR ''[''" "c \<noteq> CHR 0x22"
        by (auto simp: is_digit_def in_bytes_def byte_def)
      with 2(3) Cons True obtain l where "scan_number (c # t) = Some (l, r)" by auto
      from scan_number_shorter [OF this] len show ?thesis by simp
    next
      case False
      with 2 Cons len show ?thesis
        by (auto simp: eval_nat_numeral dest!: scan_string_shorter skip_ws_tlD split: if_splits)
          fastforce+
    qed
  qed
next
  case (4 n d s)
  then show ?case
    by (fastforce split: option.splits list.splits if_splits dest: skip_ws_ConsD)
next
  case (6 n d s)
  then show ?case
    by (fastforce split: option.splits list.splits if_splits prod.splits
        dest: skip_ws_ConsD scan_string_shorter skip_ws_tlD)
qed simp_all

lemma parse_fuel:
  "2 * length s + 1 \<le> n \<Longrightarrow> 2 * length s + 1 \<le> m \<Longrightarrow> parse_value n d s = parse_value m d s"
  "2 * length s + 2 \<le> n \<Longrightarrow> 2 * length s + 2 \<le> m \<Longrightarrow> parse_elems n d s = parse_elems m d s"
  "2 * length s + 2 \<le> n \<Longrightarrow> 2 * length s + 2 \<le> m \<Longrightarrow> parse_members n d s = parse_members m d s"
proof (induction n d s and n d s and n d s arbitrary: m and m and m
    rule: parse_value_parse_elems_parse_members.induct)
  case (2 n d s)
  obtain k where m: "m = Suc k" using 2(4) by (cases m) auto
  show ?case
  proof (cases "skip_ws s")
    case (Cons c t)
    have len: "2 * length t + 2 \<le> n" "2 * length t + 2 \<le> k"
      using skip_ws_ConsD [OF Cons] 2(3,4) m by simp_all
    have members: "parse_members n (Suc d) t = parse_members k (Suc d) t"
      if "c = CHR ''{''" "\<not> max_nesting \<le> int d" "\<not> has_prefix (skip_ws t) ''}''"
      by (rule 2(1) [OF Cons that len])
    have elems: "parse_elems n (Suc d) t = parse_elems k (Suc d) t"
      if "c \<noteq> CHR ''{''" "c = CHR ''[''" "\<not> max_nesting \<le> int d" "\<not> has_prefix (skip_ws t) '']''"
      by (rule 2(2) [OF Cons that len])
    show ?thesis by (auto simp: m Cons members elems)
  qed (simp add: m)
next
  case (4 n d s)
  obtain k where m: "m = Suc k" using 4(4) by (cases m) auto
  have head: "parse_value k d s = parse_value n d s"
    using 4(3,4) m by (intro 4(1) [symmetric]) simp_all
  show ?case
  proof (cases "parse_value n d s")
    case (Some p)
    obtain v r where p: "p = (v, r)" by (cases p)
    show ?thesis
    proof (cases "skip_ws r")
      case (Cons c t)
      have "length t < length s"
        using skip_ws_ConsD [OF Cons] parse_shorter(1) [of n d s v r] Some p by simp
      then have len: "2 * length t + 2 \<le> n" "2 * length t + 2 \<le> k"
        using 4(3,4) m by simp_all
      have elems: "parse_elems n d t = parse_elems k d t" if "c = CHR '',''"
        by (rule 4(2) [OF Some p [symmetric] Cons that len])
      show ?thesis by (simp add: m Some p Cons head elems)
    qed (simp add: m Some p head)
  qed (simp add: m head)
next
  case (6 n d s)
  obtain k where m: "m = Suc k" using 6(4) by (cases m) auto
  show ?case
  proof (cases "skip_ws s")
    case (Cons q t)
    note t = skip_ws_ConsD [OF Cons]
    show ?thesis
    proof (cases "q = CHR 0x22 \<and> (\<exists>key r. scan_string t = Some (key, r) \<and> has_prefix (skip_ws r) '':'')")
      case True
      then obtain key r where r: "scan_string t = Some (key, r)" "has_prefix (skip_ws r) '':''" by blast
      have len: "length (tl (skip_ws r)) < length s"
        using skip_ws_tlD [OF r(2)] scan_string_shorter [OF r(1)] t by simp
      have head: "parse_value k d (tl (skip_ws r)) = parse_value n d (tl (skip_ws r))"
        using 6(3,4) m True r len by (intro 6(1) [OF Cons, symmetric]) auto
      show ?thesis
      proof (cases "parse_value n d (tl (skip_ws r))")
        case (Some p)
        obtain v u where p: "p = (v, u)" by (cases p)
        show ?thesis
        proof (cases "skip_ws u")
          case (Cons c w)
          have "length w < length s"
            using skip_ws_ConsD [OF Cons] parse_shorter(1) [of n d "tl (skip_ws r)" v u] Some p len by simp
          then have bound: "2 * length w + 2 \<le> n" "2 * length w + 2 \<le> k"
            using 6(3,4) m by simp_all
          have members: "parse_members n d w = parse_members k d w" if "c = CHR '',''"
            by (rule 6(2) [OF \<open>skip_ws s = q # t\<close> _ r(1) refl _ Some p [symmetric] Cons that bound])
              (use True r in auto)
          show ?thesis by (simp add: m Some p Cons \<open>skip_ws s = q # t\<close> r True head members)
        qed (simp add: m Some p r True \<open>skip_ws s = q # t\<close> head)
      qed (simp add: m r True Cons head)
    qed (auto simp: m Cons split: option.splits)
  qed (simp add: m)
qed simp_all

section \<open>The encoder\<close>

definition escape_u :: "nat \<Rightarrow> string" where
  "escape_u n = [CHR 0x5C, CHR ''u''] @ map (\<lambda>k. hex_digit (n div 16 ^ k mod 16)) [3, 2, 1, 0]"

definition escape_rune :: "string \<Rightarrow> string" where
  "escape_rune u =
     (if u = [CHR 0x22] \<or> u = [CHR 0x5C] then CHR 0x5C # u
      else if u = [CHR 0x08] then [CHR 0x5C, CHR ''b'']
      else if u = [CHR 0x0C] then [CHR 0x5C, CHR ''f'']
      else if u = [CHR 0x0A] then [CHR 0x5C, CHR ''n'']
      else if u = [CHR 0x0D] then [CHR 0x5C, CHR ''r'']
      else if u = [CHR 0x09] then [CHR 0x5C, CHR ''t'']
      else if length u = 1 \<and> (byte (hd u) < 0x20 \<or> hd u \<in> set ''<>&'') then escape_u (nat (byte (hd u)))
      else if u = [CHR 0xE2, CHR 0x80, CHR 0xA8] then escape_u 0x2028
      else if u = [CHR 0xE2, CHR 0x80, CHR 0xA9] then escape_u 0x2029
      else u)"

function escape :: "string \<Rightarrow> string" where
  "escape s =
     (if s = [] then []
      else if rune_size s = 0 then escape_u 0xFFFD @ escape (tl s)
      else escape_rune (take (rune_size s) s) @ escape (drop (rune_size s) s))"
  by pat_completeness auto
termination
  by (relation "measure length") auto

declare escape.simps [simp del]

definition json_string :: "string \<Rightarrow> string" where
  "json_string s = CHR 0x22 # escape s @ [CHR 0x22]"

fun json_text :: "json \<Rightarrow> string" where
  "json_text J_Null = ''null''"
| "json_text (J_Bool b) = (if b then ''true'' else ''false'')"
| "json_text (J_Num l) = l"
| "json_text (J_Str s) = json_string s"
| "json_text (J_Arr vs) = ''['' @ join '','' (map json_text vs) @ '']''"
| "json_text (J_Obj ms) =
     ''{'' @ join '','' (map (\<lambda>(k, v). json_string k @ '':'' @ json_text v) ms) @ ''}''"

section \<open>Reading back what was written\<close>

text \<open>An encoded rune is read the same whatever follows it.\<close>

definition is_rune :: "string \<Rightarrow> bool" where
  "is_rune u \<longleftrightarrow> u \<noteq> [] \<and> rune_size u = length u"

lemma rune_size_le: "rune_size s \<le> length s"
  by (auto simp: rune_size_def Let_def split: list.splits)

lemma rune_size_append: "0 < rune_size s \<Longrightarrow> rune_size (s @ t) = rune_size s"
  by (cases s) (auto simp: rune_size_def Let_def hd_append split: if_splits)

lemma rune_size_take: "0 < rune_size s \<Longrightarrow> rune_size (take (rune_size s) s) = rune_size s"
  by (cases s) (auto simp: rune_size_def Let_def take_Cons' split: if_splits)

lemma is_rune_append: "is_rune u \<Longrightarrow> rune_size (u @ t) = length u"
  by (auto simp: is_rune_def rune_size_append)

lemma is_rune_take: "0 < rune_size s \<Longrightarrow> is_rune (take (rune_size s) s)"
  using rune_size_le [of s] by (auto simp: is_rune_def rune_size_take)

lemma is_rune_ascii: "is_rune [c] \<longleftrightarrow> byte c < 0x80"
  by (auto simp: is_rune_def rune_size_def rune_len_def Let_def in_bytes_def)

lemma is_rune_high:
  assumes "is_rune u" and "length u \<noteq> 1" and "c \<in> set u"
  shows "0x80 \<le> byte c"
proof -
  obtain a t where u: "u = a # t" using assms(1) by (cases u) (auto simp: is_rune_def)
  with assms(1,2) have "rune_len a = length u" "list_all cont t"
    by (auto simp: is_rune_def rune_size_def Let_def split: if_splits)
  moreover from this assms(2) have "\<not> byte a < 0x80" by (auto simp: rune_len_def)
  ultimately show ?thesis using assms(3) u by (auto simp: list_all_iff cont_def in_bytes_def)
qed

lemma valid_utf8_Nil [simp]: "valid_utf8 [] = []"
  by (simp add: valid_utf8.simps)

lemma valid_utf8_rune: "is_rune u \<Longrightarrow> valid_utf8 (u @ t) = u @ valid_utf8 t"
  by (subst valid_utf8.simps) (auto simp: is_rune_append is_rune_def)

lemma valid_utf8_ascii: "byte c < 0x80 \<Longrightarrow> valid_utf8 (c # t) = c # valid_utf8 t"
  using valid_utf8_rune [of "[c]" t] by (simp add: is_rune_ascii)

lemma is_rune_replacement: "is_rune replacement"
  by code_simp

lemma valid_utf8_runes: "\<exists>us. list_all is_rune us \<and> valid_utf8 s = concat us"
proof (induction s rule: valid_utf8.induct)
  case (1 s)
  show ?case
  proof (cases "s = []")
    case False
    show ?thesis
    proof (cases "rune_size s = 0")
      case True
      with 1(1) False obtain us where "list_all is_rune us" "valid_utf8 (tl s) = concat us" by blast
      with True False is_rune_replacement show ?thesis
        by (subst valid_utf8.simps) (auto intro!: exI [of _ "replacement # us"])
    next
      case rune: False
      with 1(2) False obtain us where "list_all is_rune us" "valid_utf8 (drop (rune_size s) s) = concat us"
        by blast
      with rune False is_rune_take [of s] show ?thesis
        by (subst valid_utf8.simps) (auto intro!: exI [of _ "take (rune_size s) s # us"])
    qed
  qed (auto intro: exI [of _ "[]"])
qed

lemma escape_Nil [simp]: "escape [] = []"
  by (simp add: escape.simps)

lemma escape_rune_append: "is_rune u \<Longrightarrow> escape (u @ t) = escape_rune u @ escape t"
  by (subst escape.simps) (auto simp: is_rune_append is_rune_def)

lemma concat_runes:
  assumes "list_all is_rune us"
  shows "valid_utf8 (concat us) = concat us" and "escape (concat us) = concat (map escape_rune us)"
  using assms by (induction us) (simp_all add: valid_utf8_rune escape_rune_append)

lemma valid_runesE:
  assumes "valid_utf8 s = s"
  obtains us where "list_all is_rune us" "s = concat us"
  using valid_utf8_runes [of s] assms by auto

text \<open>What an escaped rune is: a rune that stands for itself or a short ASCII escape.\<close>

lemma valid_utf8_ascii_append: "list_all (\<lambda>c. byte c < 0x80) x \<Longrightarrow> valid_utf8 (x @ t) = x @ valid_utf8 t"
  by (induction x) (simp_all add: valid_utf8_ascii)

lemma hex4_digits:
  assumes "n < 0x10000"
  shows "hex4 (map (\<lambda>k. hex_digit (n div 16 ^ k mod 16)) [3, 2, 1, 0] @ t) = Some n"
proof -
  have "((n div 4096 mod 16 * 16 + n div 256 mod 16) * 16 + n div 16 mod 16) * 16 + n mod 16 = n"
  proof -
    have "n div 4096 mod 16 = n div 16 div 16 div 16" using assms by (simp flip: div_mult2_eq)
    moreover have "n div 256 = n div 16 div 16" by (simp flip: div_mult2_eq)
    ultimately show ?thesis by (simp only: div_mult_mod_eq)
  qed
  moreover have "n div 4096 < 16" using assms by simp
  ultimately show ?thesis by simp
qed

lemma hex_digit_ascii: "d < 16 \<Longrightarrow> byte (hex_digit d) < 0x80"
  by (simp add: hex_digit_def byte_nat)

lemma escape_u_ascii: "list_all (\<lambda>c. byte c < 0x80) (escape_u n)"
  by (simp add: escape_u_def hex_digit_ascii) (simp add: byte_def)

lemma unescape_escape_u:
  assumes "n < 0x10000" and "\<not> surrogate n"
  shows "unescape (escape_u n @ t) = utf8_encode n @ unescape t"
  using assms hex4_digits [OF assms(1), of t]
  by (subst unescape.simps) (simp add: escape_u_def)

lemma scan_escape_u:
  "scan_string (escape_u n @ t) = map_option (map_prod (\<lambda>b. escape_u n @ b) id) (scan_string t)"
  by (cases "scan_string t") (auto simp: escape_u_def byte_def)

lemma unescape_plain: "c \<noteq> CHR 0x5C \<Longrightarrow> unescape (c # t) = c # unescape t"
  by (subst unescape.simps) simp

lemma unescape_plain_append: "\<forall>c\<in>set u. c \<noteq> CHR 0x5C \<Longrightarrow> unescape (u @ t) = u @ unescape t"
  by (induction u) (simp_all add: unescape_plain)

lemma scan_plain:
  "0x20 \<le> byte c \<Longrightarrow> c \<noteq> CHR 0x22 \<Longrightarrow> c \<noteq> CHR 0x5C \<Longrightarrow>
     scan_string (c # t) = map_option (map_prod (\<lambda>b. c # b) id) (scan_string t)"
  by simp

lemma scan_plain_append:
  "\<forall>c\<in>set u. 0x20 \<le> byte c \<and> c \<noteq> CHR 0x22 \<and> c \<noteq> CHR 0x5C \<Longrightarrow>
     scan_string (u @ t) = map_option (map_prod (\<lambda>b. u @ b) id) (scan_string t)"
proof (induction u)
  case Nil
  show ?case by (cases "scan_string t") auto
next
  case (Cons c u)
  then have "scan_string ((c # u) @ t) = map_option (map_prod (\<lambda>b. c # b) id) (scan_string (u @ t))"
    unfolding append_Cons by (intro scan_plain) auto
  also have "scan_string (u @ t) = map_option (map_prod (\<lambda>b. u @ b) id) (scan_string t)"
    using Cons.prems by (intro Cons.IH) simp
  finally show ?case by (cases "scan_string t") (auto simp del: scan_string.simps)
qed

lemma is_rune_cases [consumes 1, case_names ascii high]:
  assumes "is_rune u"
  obtains c where "u = [c]" "byte c < 0x80"
  | "length u \<noteq> 1" "\<forall>c\<in>set u. 0x80 \<le> byte c"
proof (cases "length u = 1")
  case True
  then obtain c where "u = [c]" by (auto simp: length_Suc_conv)
  with assms that(1) show ?thesis by (simp add: is_rune_ascii)
next
  case False
  with is_rune_high [OF assms] that(2) show ?thesis by blast
qed

lemma escape_rune_cases [consumes 1, case_names plain short unicode]:
  assumes "is_rune u"
  obtains "escape_rune u = u" "\<forall>c\<in>set u. 0x20 \<le> byte c \<and> c \<noteq> CHR 0x22 \<and> c \<noteq> CHR 0x5C"
  | e where "escape_rune u = [CHR 0x5C, e]" "(e, u) \<in> set [(CHR 0x22, [CHR 0x22]), (CHR 0x5C, [CHR 0x5C]),
      (CHR ''b'', [CHR 0x08]), (CHR ''f'', [CHR 0x0C]), (CHR ''n'', [CHR 0x0A]), (CHR ''r'', [CHR 0x0D]),
      (CHR ''t'', [CHR 0x09])]"
  | n where "escape_rune u = escape_u n" "n < 0x10000" "\<not> surrogate n" "utf8_encode n = u"
  using assms
proof (cases rule: is_rune_cases)
  case (ascii c)
  have enc: "utf8_encode (nat (byte c)) = [c]" "nat (byte c) < 0x10000" "\<not> surrogate (nat (byte c))"
    using ascii by (simp_all add: utf8_encode_def byte_nat surrogate_def)
  have ne: "[c] \<noteq> [CHR 0xE2, CHR 0x80, CHR 0xA8]" "[c] \<noteq> [CHR 0xE2, CHR 0x80, CHR 0xA9]" by simp_all
  consider (short) "c \<in> set [CHR 0x22, CHR 0x5C, CHR 0x08, CHR 0x0C, CHR 0x0A, CHR 0x0D, CHR 0x09]"
    | (code) "c \<notin> set [CHR 0x22, CHR 0x5C, CHR 0x08, CHR 0x0C, CHR 0x0A, CHR 0x0D, CHR 0x09]"
        "byte c < 0x20 \<or> c \<in> set ''<>&''"
    | (plain) "c \<notin> set [CHR 0x22, CHR 0x5C, CHR 0x08, CHR 0x0C, CHR 0x0A, CHR 0x0D, CHR 0x09]"
        "0x20 \<le> byte c" "c \<notin> set ''<>&''" by linarith
  then show ?thesis
  proof cases
    case short
    then show ?thesis using that(2) ascii(1) by (auto simp: escape_rune_def)
  next
    case code
    then have "escape_rune u = escape_u (nat (byte c))" using ascii(1) by (simp add: escape_rune_def)
    then show ?thesis using that(3) enc ascii(1) by simp
  next
    case plain
    then have "escape_rune u = u" using ascii(1) ne by (simp add: escape_rune_def)
    then show ?thesis using that(1) plain ascii(1) by simp
  qed
next
  case high
  have single: "u \<noteq> [c]" for c using high(1) by auto
  have plain: "escape_rune u = u" if "u \<noteq> [CHR 0xE2, CHR 0x80, CHR 0xA8]" "u \<noteq> [CHR 0xE2, CHR 0x80, CHR 0xA9]"
    using that high(1) by (simp add: escape_rune_def single)
  show ?thesis
  proof (cases "u = [CHR 0xE2, CHR 0x80, CHR 0xA8] \<or> u = [CHR 0xE2, CHR 0x80, CHR 0xA9]")
    case True
    moreover have "escape_rune [CHR 0xE2, CHR 0x80, CHR 0xA8] = escape_u 0x2028"
      "escape_rune [CHR 0xE2, CHR 0x80, CHR 0xA9] = escape_u 0x2029"
      "utf8_encode 0x2028 = [CHR 0xE2, CHR 0x80, CHR 0xA8]" "utf8_encode 0x2029 = [CHR 0xE2, CHR 0x80, CHR 0xA9]"
      by (simp_all add: escape_rune_def utf8_encode_def char_of_eq_iff take_bit_eq_mod)
    moreover have "\<not> surrogate 0x2028" "\<not> surrogate 0x2029" by (simp_all add: surrogate_def)
    ultimately show ?thesis
      using that(3) [of "0x2028"] that(3) [of "0x2029"] by fastforce
  next
    case False
    then have "escape_rune u = u" using plain by blast
    moreover have "0x20 \<le> byte c \<and> c \<noteq> CHR 0x22 \<and> c \<noteq> CHR 0x5C" if "c \<in> set u" for c
      using high(2) that by (force simp: byte_def)
    ultimately show ?thesis using that(1) by blast
  qed
qed

lemma valid_utf8_escape_rune:
  assumes "is_rune u"
  shows "valid_utf8 (escape_rune u @ t) = escape_rune u @ valid_utf8 t"
  using assms
proof (cases rule: escape_rune_cases)
  case plain
  with assms show ?thesis by (simp add: valid_utf8_rune)
next
  case (short e)
  then have "list_all (\<lambda>c. byte c < 0x80) (escape_rune u)" by (auto simp: byte_def)
  then show ?thesis by (rule valid_utf8_ascii_append)
next
  case (unicode n)
  then show ?thesis using valid_utf8_ascii_append [OF escape_u_ascii] by simp
qed

lemma unescape_escape_rune:
  assumes "is_rune u"
  shows "unescape (escape_rune u @ t) = u @ unescape t"
  using assms
proof (cases rule: escape_rune_cases)
  case plain
  then show ?thesis by (simp add: unescape_plain_append)
next
  case (short e)
  then show ?thesis by (subst unescape.simps) auto
next
  case (unicode n)
  then show ?thesis by (simp add: unescape_escape_u)
qed

lemma scan_escape_rune:
  assumes "is_rune u"
  shows "scan_string (escape_rune u @ t) = map_option (map_prod (\<lambda>b. escape_rune u @ b) id) (scan_string t)"
  using assms
proof (cases rule: escape_rune_cases)
  case plain
  then show ?thesis by (simp add: scan_plain_append)
next
  case (short e)
  then show ?thesis by (cases "scan_string t") (auto simp: byte_def)
next
  case (unicode n)
  then show ?thesis by (simp add: scan_escape_u)
qed

lemma escape_bad_byte: "s \<noteq> [] \<Longrightarrow> rune_size s = 0 \<Longrightarrow> escape s = escape_u 0xFFFD @ escape (tl s)"
  by (subst escape.simps) simp

lemma valid_utf8_bad_byte: "s \<noteq> [] \<Longrightarrow> rune_size s = 0 \<Longrightarrow> valid_utf8 s = replacement @ valid_utf8 (tl s)"
  by (subst valid_utf8.simps) simp

lemma encode_replacement: "utf8_encode 0xFFFD = replacement" "\<not> surrogate 0xFFFD"
  by (simp_all add: utf8_encode_def replacement_def surrogate_def char_of_def bit_Suc_0_iff)

text \<open>Every string is runes and bytes that belong to none; the latter are written as the replacement.\<close>

lemma runes_induct [case_names Nil bad rune]:
  assumes "P []" and "\<And>s. s \<noteq> [] \<Longrightarrow> rune_size s = 0 \<Longrightarrow> P (tl s) \<Longrightarrow> P s"
    and "\<And>u t. is_rune u \<Longrightarrow> P t \<Longrightarrow> P (u @ t)"
  shows "P s"
proof (induction s rule: measure_induct_rule [of length])
  case (less s)
  show ?case
  proof (cases "s = []")
    case False
    show ?thesis
    proof (cases "rune_size s = 0")
      case True
      show ?thesis by (rule assms(2) [OF False True less]) (use False in simp)
    next
      case rune: False
      have "P (take (rune_size s) s @ drop (rune_size s) s)"
        by (rule assms(3) [OF is_rune_take less]) (use rune False in simp_all)
      then show ?thesis by simp
    qed
  qed (use assms(1) in simp)
qed

lemma escape_valid: "valid_utf8 (escape s) = escape s"
  by (induction s rule: runes_induct)
    (simp_all add: escape_bad_byte valid_utf8_ascii_append [OF escape_u_ascii] escape_rune_append valid_utf8_escape_rune)

lemma unquote_escape: "unquote (escape s) = valid_utf8 s"
proof -
  have "unescape (escape s) = valid_utf8 s"
    by (induction s rule: runes_induct)
      (simp_all add: escape_bad_byte valid_utf8_bad_byte unescape_escape_u encode_replacement escape_rune_append
        valid_utf8_rune unescape_escape_rune unescape.simps [of "[]"])
  then show ?thesis by (simp add: unquote_def escape_valid)
qed

lemma scan_escape: "scan_string (escape s @ CHR 0x22 # t) = Some (escape s, t)"
  by (induction s rule: runes_induct)
    (simp_all add: escape_bad_byte scan_escape_u escape_rune_append scan_escape_rune)

text \<open>A literal is read up to what cannot continue it.\<close>

definition ends_number :: "string \<Rightarrow> bool" where
  "ends_number s \<longleftrightarrow> (case s of [] \<Rightarrow> True | c # _ \<Rightarrow> \<not> is_digit c \<and> c \<notin> set ''.eE'')"

lemma ends_number_digits: "ends_number t \<Longrightarrow> takeWhile is_digit t = [] \<and> dropWhile is_digit t = t"
  by (cases t) (simp_all add: ends_number_def)

lemma scan_digits_append:
  assumes "scan_digits s = Some (d, r)" and "ends_number t"
  shows "scan_digits (s @ t) = Some (d, r @ t)"
proof (cases "\<forall>c\<in>set s. is_digit c")
  case True
  then have tw: "takeWhile is_digit s = s" "dropWhile is_digit s = []"
    and tw': "takeWhile is_digit (s @ t) = s @ takeWhile is_digit t" "dropWhile is_digit (s @ t) = dropWhile is_digit t"
    by (simp_all add: takeWhile_append2 dropWhile_append2)
  have "s \<noteq> [] \<and> d = s \<and> r = []"
    using assms(1) unfolding scan_digits_def Let_def tw by (simp split: if_splits)
  then show ?thesis
    unfolding scan_digits_def Let_def tw' using ends_number_digits [OF assms(2)] by simp
next
  case False
  then obtain c where "c \<in> set s" "\<not> is_digit c" by blast
  with assms(1) show ?thesis
    by (simp add: scan_digits_def Let_def takeWhile_append1 dropWhile_append1 split: if_splits)
qed

lemma scan_int_append:
  assumes "scan_int s = Some (i, r)" and "ends_number t"
  shows "scan_int (s @ t) = Some (i, r @ t)"
proof (cases s)
  case (Cons c w)
  with assms scan_digits_append [of s i r t] show ?thesis
    by (simp add: scan_int_def split: if_splits)
qed (use assms in \<open>simp add: scan_int_def\<close>)

lemma scan_frac_append:
  assumes "scan_frac s = Some (f, r)" and "ends_number t"
  shows "scan_frac (s @ t) = Some (f, r @ t)"
proof (cases s)
  case Nil
  with assms show ?thesis by (cases t) (simp_all add: scan_frac_def ends_number_def)
next
  case (Cons c w)
  show ?thesis
  proof (cases "c = CHR ''.''")
    case True
    with assms(1) Cons obtain d where "scan_digits w = Some (d, r)" "f = c # d"
      by (auto simp: scan_frac_def)
    with True Cons scan_digits_append [OF _ assms(2)] show ?thesis by (simp add: scan_frac_def)
  qed (use assms(1) Cons in \<open>auto simp: scan_frac_def\<close>)
qed

lemma scan_exp_append:
  assumes "scan_exp s = Some (e, r)" and "ends_number t"
  shows "scan_exp (s @ t) = Some (e, r @ t)"
proof (cases s)
  case Nil
  with assms show ?thesis by (cases t) (simp_all add: scan_exp_def ends_number_def)
next
  case (Cons c w)
  show ?thesis
  proof (cases "c = CHR ''e'' \<or> c = CHR ''E''")
    case True
    with assms(1) Cons obtain g u where w: "w = g # u" by (cases w) (auto simp: scan_exp_def)
    show ?thesis
    proof (cases "g = CHR ''+'' \<or> g = CHR ''-''")
      case sign: True
      with assms(1) Cons True w obtain d where "scan_digits u = Some (d, r)" "e = c # g # d"
        by (auto simp: scan_exp_def)
      with True sign Cons w scan_digits_append [OF _ assms(2)] show ?thesis
        by (simp add: scan_exp_def)
    next
      case False
      with assms(1) Cons True w obtain d where "scan_digits w = Some (d, r)" "e = c # d"
        by (auto simp: scan_exp_def)
      with True False Cons w scan_digits_append [of w d r t] assms(2) show ?thesis
        by (simp add: scan_exp_def)
    qed
  qed (use assms(1) Cons in \<open>auto simp: scan_exp_def\<close>)
qed

lemma scan_number_append:
  assumes "scan_number l = Some (l, [])" and "ends_number t"
  shows "scan_number (l @ t) = Some (l, t)"
proof -
  obtain sg s where sg: "(if has_prefix l ''-'' then (''-'', tl l) else ([], l)) = (sg, s)" by fastforce
  with assms(1) obtain i u f v e where steps: "scan_int s = Some (i, u)" "scan_frac u = Some (f, v)"
      "scan_exp v = Some (e, [])" "l = sg @ i @ f @ e"
    by (auto simp: scan_number_def Let_def split: option.splits)
  have "s \<noteq> []" using steps(1) by (auto simp: scan_int_def)
  then have sg': "(if has_prefix (l @ t) ''-'' then (''-'', tl (l @ t)) else ([], l @ t)) = (sg, s @ t)"
    using sg by (cases l) (auto simp: has_prefix_def split: if_splits)
  show ?thesis
    unfolding scan_number_def sg'
    using steps(4) scan_int_append [OF steps(1) assms(2)] scan_frac_append [OF steps(2) assms(2)]
      scan_exp_append [OF steps(3) assms(2)]
    by simp
qed

text \<open>
  The values the encoder writes in a form the decoder reads back as they are: number literals,
  valid UTF-8, and no more than \<open>b\<close> nested arrays and objects.
\<close>

fun wf_json :: "nat \<Rightarrow> json \<Rightarrow> bool" where
  "wf_json b J_Null = True"
| "wf_json b (J_Bool _) = True"
| "wf_json b (J_Num l) = (scan_number l = Some (l, []))"
| "wf_json b (J_Str s) = (valid_utf8 s = s)"
| "wf_json b (J_Arr vs) = (0 < b \<and> list_all (\<lambda>v. wf_json (b - 1) v) vs)"
| "wf_json b (J_Obj ms) = (0 < b \<and> list_all (\<lambda>(k, v). valid_utf8 k = k \<and> wf_json (b - 1) v) ms)"

lemma wf_json_mono: "wf_json b v \<Longrightarrow> b \<le> c \<Longrightarrow> wf_json c v"
proof (induction b v arbitrary: c rule: wf_json.induct)
  case (5 b vs)
  then show ?case by (fastforce simp: list_all_iff)
next
  case (6 b ms)
  then show ?case by (fastforce simp: list_all_iff)
qed auto

text \<open>
  Any value with number literals and no more than \<open>b\<close> nested arrays and objects reads back as its
  clean form: bytes that are no UTF-8 have become replacement characters.
\<close>

fun fits :: "nat \<Rightarrow> json \<Rightarrow> bool" where
  "fits b (J_Num l) = (scan_number l = Some (l, []))"
| "fits b (J_Arr vs) = (0 < b \<and> list_all (\<lambda>v. fits (b - 1) v) vs)"
| "fits b (J_Obj ms) = (0 < b \<and> list_all (\<lambda>(_, v). fits (b - 1) v) ms)"
| "fits b _ = True"

fun clean :: "json \<Rightarrow> json" where
  "clean (J_Str s) = J_Str (valid_utf8 s)"
| "clean (J_Arr vs) = J_Arr (map clean vs)"
| "clean (J_Obj ms) = J_Obj (map (\<lambda>(k, v). (valid_utf8 k, clean v)) ms)"
| "clean v = v"

lemma wf_json_fits: "wf_json b v \<Longrightarrow> fits b v \<and> clean v = v"
proof (induction b v rule: wf_json.induct)
  case (5 b vs)
  then show ?case by (auto simp: list_all_iff intro: map_idI)
next
  case (6 b ms)
  then show ?case by (fastforce simp: list_all_iff intro!: map_idI)
qed simp_all

text \<open>No text of a value starts with white space or a closing bracket.\<close>

definition starts_value :: "string \<Rightarrow> bool" where
  "starts_value s \<longleftrightarrow> (case s of [] \<Rightarrow> False | c # _ \<Rightarrow> \<not> is_ws c \<and> c \<noteq> CHR '']'')"

lemma scan_number_Nil [simp]: "scan_number [] = None"
  by code_simp

lemma number_start:
  assumes "scan_number l = Some (l, [])"
  obtains c u where "l = c # u" "c = CHR ''-'' \<or> is_digit c"
    "c \<noteq> CHR ''{''" "c \<noteq> CHR ''[''" "c \<noteq> CHR 0x22" "\<not> is_ws c"
proof -
  from assms obtain c u where c: "l = c # u" by (cases l) auto
  with assms have "c = CHR ''-'' \<or> is_digit c"
    by (auto simp: scan_number_def scan_int_def scan_digits_def Let_def has_prefix_def is_digit_def in_bytes_def
        byte_def split: if_splits)
  moreover from this have "c \<noteq> CHR ''{''" "c \<noteq> CHR ''[''" "c \<noteq> CHR 0x22" "\<not> is_ws c"
    by (auto simp: is_ws_def is_digit_def in_bytes_def byte_def)
  ultimately show ?thesis using that [OF c] by blast
qed

lemma starts_value_text: "fits b v \<Longrightarrow> starts_value (json_text v @ t)"
proof (cases v)
  case (J_Num l)
  assume "fits b v"
  with J_Num have l: "scan_number l = Some (l, [])" by simp
  obtain c u where "l = c # u" "c = CHR ''-'' \<or> is_digit c" "\<not> is_ws c"
    by (rule number_start [OF l])
  then show ?thesis
    by (auto simp: J_Num starts_value_def is_digit_def in_bytes_def byte_def)
qed (auto simp: starts_value_def is_ws_def json_string_def)

lemma starts_value_skip: "starts_value s \<Longrightarrow> skip_ws s = s \<and> \<not> has_prefix s '']''"
  by (cases s) (auto simp: starts_value_def skip_ws_def has_prefix_def)

lemma skip_ws_plain: "\<not> is_ws c \<Longrightarrow> skip_ws (c # t) = c # t"
  by (simp add: skip_ws_def)

lemma punctuation_not_ws [simp]:
  "\<not> is_ws CHR '',''" "\<not> is_ws CHR '']''" "\<not> is_ws CHR ''}''" "\<not> is_ws CHR '':''" "\<not> is_ws CHR 0x22"
  "\<not> is_ws CHR ''{''" "\<not> is_ws CHR ''[''"
  by (simp_all add: is_ws_def)

lemma punctuation_ends [simp]: "ends_number (CHR '','' # t)" "ends_number (CHR '']'' # t)" "ends_number (CHR ''}'' # t)"
  by (simp_all add: ends_number_def is_digit_def in_bytes_def byte_def)

definition reads_back :: "nat \<Rightarrow> json \<Rightarrow> bool" where
  "reads_back d v \<longleftrightarrow> (\<forall>n t. ends_number t \<longrightarrow> 2 * length (json_text v @ t) + 1 \<le> n \<longrightarrow>
     parse_value n d (json_text v @ t) = Some (clean v, t))"

lemma parse_elems_text:
  assumes "vs \<noteq> []" and "\<forall>v\<in>set vs. reads_back d v"
    and "2 * length (join '','' (map json_text vs) @ CHR '']'' # t) + 2 \<le> n"
  shows "parse_elems n d (join '','' (map json_text vs) @ CHR '']'' # t) = Some (map clean vs, t)"
  using assms
proof (induction vs arbitrary: n)
  case (Cons v vs)
  obtain k where n: "n = Suc k" using Cons.prems(3) by (cases n) auto
  have v: "parse_value k d (json_text v @ x) = Some (clean v, x)"
    if "ends_number x" "2 * length (json_text v @ x) + 1 \<le> k" for x
    using Cons.prems(2) that by (simp add: reads_back_def)
  show ?case
  proof (cases vs)
    case Nil
    with Cons.prems(3) n v [of "CHR '']'' # t"] show ?thesis
      by (simp add: skip_ws_plain)
  next
    case (Cons w ws)
    have "parse_elems k d (join '','' (map json_text vs) @ CHR '']'' # t) = Some (map clean vs, t)"
      using Cons.prems n Cons by (intro Cons.IH) simp_all
    with Cons Cons.prems(3) n v [of "CHR '','' # join '','' (map json_text vs) @ CHR '']'' # t"]
    show ?thesis by (simp add: skip_ws_plain)
  qed
qed simp

lemma parse_members_text:
  assumes "ms \<noteq> []" and "\<forall>(k, v)\<in>set ms. reads_back d v"
    and "2 * length (join '','' (map (\<lambda>(k, v). json_string k @ '':'' @ json_text v) ms) @ CHR ''}'' # t) + 2 \<le> n"
  shows "parse_members n d (join '','' (map (\<lambda>(k, v). json_string k @ '':'' @ json_text v) ms) @ CHR ''}'' # t)
    = Some (map (\<lambda>(k, v). (valid_utf8 k, clean v)) ms, t)"
  using assms
proof (induction ms arbitrary: n)
  case (Cons kv ms)
  obtain key v where kv: "kv = (key, v)" by (cases kv)
  obtain k where n: "n = Suc k" using Cons.prems(3) by (cases n) auto
  have v: "parse_value k d (json_text v @ x) = Some (clean v, x)"
    if "ends_number x" "2 * length (json_text v @ x) + 1 \<le> k" for x
    using Cons.prems(2) that kv by (simp add: reads_back_def)
  show ?case
  proof (cases ms)
    case Nil
    with Cons.prems(3) n kv v [of "CHR ''}'' # t"] show ?thesis
      by (simp add: json_string_def skip_ws_plain scan_escape unquote_escape has_prefix_def)
  next
    case (Cons w ws)
    let ?rest = "join '','' (map (\<lambda>(k, v). json_string k @ '':'' @ json_text v) ms) @ CHR ''}'' # t"
    have "parse_members k d ?rest = Some (map (\<lambda>(k, v). (valid_utf8 k, clean v)) ms, t)"
      using Cons.prems n Cons kv by (intro Cons.IH) (simp_all add: json_string_def)
    with Cons Cons.prems(3) n kv v [of "CHR '','' # ?rest"]
    show ?thesis
      by (simp add: json_string_def skip_ws_plain scan_escape unquote_escape has_prefix_def)
  qed
qed simp

lemma text_reads_back: "fits b v \<Longrightarrow> int (b + d) \<le> max_nesting \<Longrightarrow> reads_back d v"
proof (induction v arbitrary: b d)
  case (J_Num l)
  then have l: "scan_number l = Some (l, [])" by simp
  obtain c u where c: "l = c # u" "c = CHR ''-'' \<or> is_digit c" "c \<noteq> CHR ''{''" "c \<noteq> CHR ''[''" "c \<noteq> CHR 0x22" "\<not> is_ws c"
    by (rule number_start [OF l])
  show ?case
    unfolding reads_back_def
  proof (intro allI impI)
    fix n t assume "ends_number t" "2 * length (json_text (J_Num l) @ t) + 1 \<le> n"
    then obtain k where "n = Suc k" by (cases n) auto
    with c scan_number_append [OF l \<open>ends_number t\<close>] show "parse_value n d (json_text (J_Num l) @ t) = Some (clean (J_Num l), t)"
      by (simp add: skip_ws_plain)
  qed
next
  case (J_Bool x)
  have "parse_value (Suc k) d (json_text (J_Bool x) @ t) = Some (clean (J_Bool x), t)" for k t
    by (cases x) (simp_all add: skip_ws_plain is_ws_def has_prefix_def is_digit_def in_bytes_def byte_def)
  then show ?case
    unfolding reads_back_def by (metis Suc_eq_plus1 Suc_le_D)
next
  case (J_Str s)
  then show ?case
    unfolding reads_back_def
    by (auto simp: json_string_def skip_ws_plain scan_escape unquote_escape Suc_le_D
        dest!: Suc_le_D split: if_splits)
next
  case (J_Arr vs)
  then have d: "int d < max_nesting" "\<forall>v\<in>set vs. reads_back (Suc d) v"
    by (auto simp: list_all_iff)
  show ?case
    unfolding reads_back_def
  proof (intro allI impI)
    fix n t assume len: "2 * length (json_text (J_Arr vs) @ t) + 1 \<le> n"
    then obtain k where n: "n = Suc k" by (cases n) auto
    show "parse_value n d (json_text (J_Arr vs) @ t) = Some (clean (J_Arr vs), t)"
    proof (cases "vs = []")
      case True
      with d(1) n show ?thesis by (simp add: skip_ws_plain has_prefix_def)
    next
      case False
      let ?body = "join '','' (map json_text vs) @ CHR '']'' # t"
      have "starts_value ?body"
        using False J_Arr.prems(1) starts_value_text
        by (cases vs rule: remdups_adj.cases) auto
      with starts_value_skip [OF this] d n len parse_elems_text [OF False d(2), of t k] show ?thesis
        by (simp add: skip_ws_plain)
    qed
  qed
next
  case (J_Obj ms)
  then have d: "int d < max_nesting" "\<forall>(k, v)\<in>set ms. reads_back (Suc d) v"
    by (fastforce simp: list_all_iff)+
  show ?case
    unfolding reads_back_def
  proof (intro allI impI)
    fix n t assume len: "2 * length (json_text (J_Obj ms) @ t) + 1 \<le> n"
    then obtain k where n: "n = Suc k" by (cases n) auto
    show "parse_value n d (json_text (J_Obj ms) @ t) = Some (clean (J_Obj ms), t)"
    proof (cases "ms = []")
      case True
      with d(1) n show ?thesis by (simp add: skip_ws_plain has_prefix_def)
    next
      case False
      let ?body = "join '','' (map (\<lambda>(k, v). json_string k @ '':'' @ json_text v) ms) @ CHR ''}'' # t"
      have "\<exists>u. ?body = CHR 0x22 # u"
        using False by (cases ms rule: remdups_adj.cases) (auto simp: json_string_def)
      then obtain u where u: "?body = CHR 0x22 # u" by blast
      have "skip_ws ?body = ?body" "\<not> has_prefix ?body ''}''"
        unfolding u by (simp_all add: skip_ws_plain has_prefix_def)
      with d n len parse_members_text [OF False d(2), of t k] show ?thesis
        by (simp add: skip_ws_plain)
    qed
  qed
qed (auto simp: reads_back_def skip_ws_plain is_ws_def has_prefix_def is_digit_def in_bytes_def byte_def dest!: Suc_le_D)

lemma json_parse_clean:
  assumes "fits (nat max_nesting) v"
  shows "json_parse (json_text v) = Some (clean v)"
proof -
  have "reads_back 0 v" using text_reads_back [OF assms, of 0] by (simp add: max_nesting_def)
  moreover have "ends_number []" by (simp add: ends_number_def)
  ultimately have "parse_value (json_fuel (json_text v)) 0 (json_text v @ []) = Some (clean v, [])"
    unfolding reads_back_def json_fuel_def by (metis append_Nil2 order_refl)
  then show ?thesis by (simp add: json_parse_def skip_ws_def)
qed

lemma json_parse_text: "wf_json (nat max_nesting) v \<Longrightarrow> json_parse (json_text v) = Some v"
  using json_parse_clean wf_json_fits by metis

section \<open>Decoding into structs\<close>

text \<open>
  A decoder takes what the target holds and a value and gives what it holds then, or nothing
  when the value has the wrong type. A member goes to the field whose name equals its key up
  to case folding; for an ASCII field name that is ASCII case and the two other runes that
  fold to \<open>s\<close> and \<open>k\<close>. Members are decoded in order, so the last of several wins, and
  \<open>null\<close> leaves the target as it is.
\<close>

type_synonym members = "(string \<times> json) list"

type_synonym 'a decoder = "'a \<Rightarrow> json \<Rightarrow> 'a option"

function fold_name :: "string \<Rightarrow> string" where
  "fold_name s =
     (if s = [] then []
      else if has_prefix s [CHR 0xC5, CHR 0xBF] then CHR ''s'' # fold_name (drop 2 s)
      else if has_prefix s [CHR 0xE2, CHR 0x84, CHR 0xAA] then CHR ''k'' # fold_name (drop 3 s)
      else ascii_lower (hd s) # fold_name (tl s))"
  by pat_completeness auto
termination
  by (relation "measure length") auto

declare fold_name.simps [simp del]

fun dec_field :: "'a decoder \<Rightarrow> string \<Rightarrow> members \<Rightarrow> 'a \<Rightarrow> 'a option" where
  "dec_field dec f [] cur = Some cur"
| "dec_field dec f ((k, v) # ms) cur =
     (if fold_name k = fold_name f
      then (case dec cur v of None \<Rightarrow> None | Some cur' \<Rightarrow> dec_field dec f ms cur')
      else dec_field dec f ms cur)"

fun dec_string :: "string decoder" where
  "dec_string cur (J_Str s) = Some s"
| "dec_string cur J_Null = Some cur"
| "dec_string cur _ = None"

fun dec_int :: "int decoder" where
  "dec_int cur (J_Num l) = parse_int64 l"
| "dec_int cur J_Null = Some cur"
| "dec_int cur _ = None"

text \<open>A \<open>json.RawMessage\<close> keeps any value, \<open>null\<close> too; here it is the value it holds.\<close>

definition dec_raw :: "json option decoder" where
  "dec_raw cur v = Some (Some v)"

fun dec_object :: "('a \<Rightarrow> members \<Rightarrow> 'a option) \<Rightarrow> 'a decoder" where
  "dec_object f cur (J_Obj ms) = f cur ms"
| "dec_object f cur J_Null = Some cur"
| "dec_object f cur _ = None"

text \<open>
  An element is decoded into the one the slice has at its place, and into a zero value beyond its
  end. (Elements a shorter array cut off stay in the slice's capacity; a third array under the same
  key would see them. Here it sees zero values.)
\<close>

fun dec_all :: "'a \<Rightarrow> 'a decoder \<Rightarrow> 'a list \<Rightarrow> json list \<Rightarrow> 'a list option" where
  "dec_all zero dec cur [] = Some []"
| "dec_all zero dec cur (v # vs) =
     (case dec (case cur of [] \<Rightarrow> zero | x # _ \<Rightarrow> x) v of
        None \<Rightarrow> None
      | Some x \<Rightarrow> map_option (\<lambda>xs. x # xs) (dec_all zero dec (drop 1 cur) vs))"

fun dec_array :: "'a \<Rightarrow> 'a decoder \<Rightarrow> 'a list decoder" where
  "dec_array zero dec cur (J_Arr vs) = dec_all zero dec cur vs"
| "dec_array zero dec cur J_Null = Some []"
| "dec_array zero dec cur _ = None"

text \<open>A pointer is set to a fresh target unless the value is \<open>null\<close>.\<close>

definition dec_pointer :: "'a \<Rightarrow> 'a decoder \<Rightarrow> 'a option decoder" where
  "dec_pointer zero dec cur v =
     (if v = J_Null then Some None
      else map_option Some (dec (case cur of None \<Rightarrow> zero | Some x \<Rightarrow> x) v))"

text \<open>A \<open>map[string]any\<close>: the members assigned in order.\<close>

fun dec_map :: "(string, json) gomap decoder" where
  "dec_map cur (J_Obj ms) = Some (fold (\<lambda>(k, v) m. AList.update k v m) ms cur)"
| "dec_map cur J_Null = Some []"
| "dec_map cur _ = None"

lemma dec_map_ok: "gomap_ok cur \<Longrightarrow> dec_map cur v = Some m \<Longrightarrow> gomap_ok m"
proof (cases v)
  case (J_Obj ms)
  assume "gomap_ok cur" "dec_map cur v = Some m"
  then have m: "m = fold (\<lambda>(k, v) m. AList.update k v m) ms cur" using J_Obj by simp
  show ?thesis
    unfolding m using \<open>gomap_ok cur\<close> by (induction ms arbitrary: cur) auto
qed auto

text \<open>
  A struct is decoded field by field. \<open>field_into f dec get upd\<close> is one field: its name, the
  decoder of its type, and how it is read and set in the target.
\<close>

definition field_into ::
    "string \<Rightarrow> 'b decoder \<Rightarrow> ('a \<Rightarrow> 'b) \<Rightarrow> (('b \<Rightarrow> 'b) \<Rightarrow> 'a \<Rightarrow> 'a) \<Rightarrow> members \<Rightarrow> 'a \<Rightarrow> 'a option" where
  "field_into f dec get upd ms cur = map_option (\<lambda>x. upd (\<lambda>_. x) cur) (dec_field dec f ms (get cur))"

fun dec_fields :: "(members \<Rightarrow> 'a \<Rightarrow> 'a option) list \<Rightarrow> 'a \<Rightarrow> members \<Rightarrow> 'a option" where
  "dec_fields [] cur ms = Some cur"
| "dec_fields (f # fs) cur ms = (case f ms cur of None \<Rightarrow> None | Some cur' \<Rightarrow> dec_fields fs cur' ms)"

definition dec_struct :: "(members \<Rightarrow> 'a \<Rightarrow> 'a option) list \<Rightarrow> 'a decoder" where
  "dec_struct fs = dec_object (dec_fields fs)"

section \<open>Decoding into any\<close>

text \<open>
  A number becomes a \<open>float64\<close>. \<open>ft\<close> gives the text the encoder writes for the float a
  literal denotes, and nothing when the literal is out of range; the decoder then reports an
  error and leaves \<open>nil\<close>. An object becomes a map, which the encoder writes with its keys sorted.
\<close>

fun any_value :: "(string \<Rightarrow> string option) \<Rightarrow> json \<Rightarrow> json" where
  "any_value ft (J_Num l) = (case ft l of None \<Rightarrow> J_Null | Some t \<Rightarrow> J_Num t)"
| "any_value ft (J_Arr vs) = J_Arr (map (any_value ft) vs)"
| "any_value ft (J_Obj ms) =
     J_Obj (sort_key fst (fold (\<lambda>(k, v) m. AList.update k v m) (map (\<lambda>(k, v). (k, any_value ft v)) ms) []))"
| "any_value ft v = v"

fun any_ok :: "(string \<Rightarrow> string option) \<Rightarrow> json \<Rightarrow> bool" where
  "any_ok ft (J_Num l) = (ft l \<noteq> None)"
| "any_ok ft (J_Arr vs) = list_all (any_ok ft) vs"
| "any_ok ft (J_Obj ms) = list_all (\<lambda>(_, v). any_ok ft v) ms"
| "any_ok ft v = True"

definition unmarshal_any :: "(string \<Rightarrow> string option) \<Rightarrow> string \<Rightarrow> json option" where
  "unmarshal_any ft s =
     (case json_parse s of
        None \<Rightarrow> None
      | Some v \<Rightarrow> if any_ok ft v then Some (any_value ft v) else None)"

end
