(* ===== verification/Tool_Registry.thy ===== *)
theory Tool_Registry
  imports Auth_Service Mcp_Client Json "HOL-Library.List_Lexorder" "HOL-Library.Char_ord"
begin

text \<open>
  The registry of operations (\<open>internal/toolbridge\<close>): operations by tool name, the two ways
  of adding one, and the listings the Agent Card and \<open>list_tools\<close> are made from.

  An operation acts on a world \<open>'g\<close>, the state of everything behind the agent. Argument
  schemas are values of an arbitrary type \<open>'j\<close>: reflected from Go types by a library, or
  handed through from the private service.
\<close>

section \<open>Operations\<close>

record tenant =
  tn_id :: string
  tn_owner :: string

record call_ctx =
  cx_tenant :: "tenant option"
  cx_caller :: req_context

datatype op_error =
    Decode_Args
  | Decode_Listing_Input
  | Proxy_Failed mcp_error
  | Relay_Failed relay_error

datatype 'j schema_value = Reflected_Schema "'j option" | Raw_Schema 'j

datatype 'j tool_descriptor =
  Tool_Descriptor (td_skill: string) (td_tool: string) (td_schema: "'j schema_value")

text \<open>A proxy answers with text; a handler of the agent's own with a value to be encoded.\<close>

datatype 'j op_result =
    Op_Text string
  | Op_Relayed string
  | Op_Status tx_status_output
  | Op_Listing "'j tool_descriptor list"

type_synonym raw_message = "json option"

type_synonym ('g, 'j) handler = "call_ctx \<Rightarrow> raw_message \<Rightarrow> 'g \<Rightarrow> 'g \<times> (op_error + 'j op_result)"

text \<open>
  \<open>list_tools\<close> closes over the registry it is itself in and reads it when it is called: its
  body is a constant that \<open>call_op\<close> interprets in the registry at hand.
\<close>

datatype ('g, 'j) op_body = Handler "('g, 'j) handler" | List_Registry

record ('g, 'j) op =
  op_skill :: string
  op_tool :: string
  op_call :: "('g, 'j) op_body"
  op_input_schema :: "'j option"
  op_raw_schema :: "'j option"

record ('g, 'j) bound =
  bd_call :: "('g, 'j) op_body"
  bd_input_schema :: "'j option"

type_synonym ('g, 'j) registry = "(string, ('g, 'j) op) gomap"

datatype registry_error = Duplicate_Op string

definition new_registry :: "('g, 'j) registry" where
  "new_registry = []"

text \<open>
  The arguments of a proxy: an absent or \<open>null\<close> message is no arguments, anything else must
  decode into a \<open>map[string]any\<close>; \<open>ft\<close> is the decoder's reading of numbers.
\<close>

definition decode_args :: "(string \<Rightarrow> string option) \<Rightarrow> json \<Rightarrow> (string, json) gomap option" where
  "decode_args ft v =
     (if any_ok ft v then map_option (map (\<lambda>(k, x). (k, any_value ft x))) (dec_map [] v) else None)"

definition proxy_args :: "(string \<Rightarrow> string option) \<Rightarrow> raw_message \<Rightarrow> op_error + (string, json) gomap" where
  "proxy_args ft raw =
     (case raw of
        None \<Rightarrow> Inr []
      | Some J_Null \<Rightarrow> Inr []
      | Some v \<Rightarrow> (case decode_args ft v of None \<Rightarrow> Inl Decode_Args | Some m \<Rightarrow> Inr m))"

type_synonym 'g proxy = "call_ctx \<Rightarrow> (string, json) gomap \<Rightarrow> 'g \<Rightarrow> 'g \<times> (op_error + string)"

definition proxy_op :: "(string \<Rightarrow> string option) \<Rightarrow> string \<Rightarrow> string \<Rightarrow> 'j option \<Rightarrow> 'g proxy \<Rightarrow> ('g, 'j) op" where
  "proxy_op ft skill tool schema proxy =
     \<lparr>op_skill = skill, op_tool = tool,
      op_call = Handler (\<lambda>ctx raw g. case proxy_args ft raw of
          Inl e \<Rightarrow> (g, Inl e)
        | Inr args \<Rightarrow>
            (case proxy ctx args g of
               (g, Inl e) \<Rightarrow> (g, Inl e)
             | (g, Inr s) \<Rightarrow> (g, Inr (Op_Text s)))),
      op_input_schema = None, op_raw_schema = schema\<rparr>"

definition add_proxy ::
    "(string \<Rightarrow> string option) \<Rightarrow> string \<Rightarrow> string \<Rightarrow> 'j option \<Rightarrow> 'g proxy \<Rightarrow> ('g, 'j) registry \<Rightarrow>
     registry_error + ('g, 'j) registry" where
  "add_proxy ft skill tool schema proxy r =
     (if map_of r tool \<noteq> None then Inl (Duplicate_Op tool)
      else Inr (AList.update tool (proxy_op ft skill tool schema proxy) r))"

text \<open>A typed handler: the message, if there is one, is decoded over the zero input.\<close>

definition native ::
    "'j option \<Rightarrow> 'in \<Rightarrow> 'in decoder \<Rightarrow> (call_ctx \<Rightarrow> 'in \<Rightarrow> 'g \<Rightarrow> 'g \<times> (op_error + 'j op_result)) \<Rightarrow>
     ('g, 'j) bound" where
  "native schema zero dec f =
     \<lparr>bd_call = Handler (\<lambda>ctx raw g.
        case (case raw of None \<Rightarrow> Some zero | Some v \<Rightarrow> dec zero v) of
          None \<Rightarrow> (g, Inl Decode_Args)
        | Some inp \<Rightarrow> f ctx inp g),
      bd_input_schema = schema\<rparr>"

definition add_op ::
    "string \<Rightarrow> string \<Rightarrow> ('g, 'j) bound \<Rightarrow> ('g, 'j) registry \<Rightarrow>
     registry_error + ('g, 'j) registry" where
  "add_op skill tool b r =
     (if map_of r tool \<noteq> None then Inl (Duplicate_Op tool)
      else Inr (AList.update tool
        \<lparr>op_skill = skill, op_tool = tool, op_call = bd_call b,
         op_input_schema = bd_input_schema b, op_raw_schema = None\<rparr> r))"

definition lookup_op :: "('g, 'j) registry \<Rightarrow> string \<Rightarrow> ('g, 'j) op option" where
  "lookup_op r tool = map_of r tool"

section \<open>Listings\<close>

definition list_ops :: "('g, 'j) registry \<Rightarrow> ('g, 'j) op list" where
  "list_ops r = sort_key op_tool (map snd r)"

definition by_skill :: "('g, 'j) registry \<Rightarrow> (string, string list) gomap" where
  "by_skill r =
     map (\<lambda>(skill, tools). (skill, sort tools))
       (fold (\<lambda>(_, op) m. AList.update (op_skill op)
           ((case map_of m (op_skill op) of None \<Rightarrow> [] | Some ts \<Rightarrow> ts) @ [op_tool op]) m) r [])"

definition list_tools :: "string \<Rightarrow> ('g, 'j) registry \<Rightarrow> 'j tool_descriptor list" where
  "list_tools skill r =
     map (\<lambda>op. Tool_Descriptor (op_skill op) (op_tool op)
         (case op_raw_schema op of Some s \<Rightarrow> Raw_Schema s | None \<Rightarrow> Reflected_Schema (op_input_schema op)))
       (filter (\<lambda>op. \<not> (skill \<noteq> [] \<and> op_skill op \<noteq> skill)) (list_ops r))"

definition skill_auth :: string where
  "skill_auth = ''svpchain-auth''"

definition skill_evm :: string where
  "skill_evm = ''svpchain-evm''"

definition skill_meta :: string where
  "skill_meta = ''svpchain-meta''"

definition dec_list_tools_input :: "string decoder" where
  "dec_list_tools_input = dec_object (\<lambda>cur ms. dec_field dec_string ''skill'' ms cur)"

definition register_meta :: "'j option \<Rightarrow> ('g, 'j) registry \<Rightarrow> registry_error + ('g, 'j) registry" where
  "register_meta schema r =
     add_op skill_meta ''list_tools'' \<lparr>bd_call = List_Registry, bd_input_schema = schema\<rparr> r"

definition call_op ::
    "('g, 'j) registry \<Rightarrow> ('g, 'j) op \<Rightarrow> ('g, 'j) handler" where
  "call_op r op ctx raw g =
     (case op_call op of
        Handler h \<Rightarrow> h ctx raw g
      | List_Registry \<Rightarrow>
          (case (case raw of None \<Rightarrow> Some [] | Some v \<Rightarrow> dec_list_tools_input [] v) of
             None \<Rightarrow> (g, Inl Decode_Listing_Input)
           | Some skill \<Rightarrow> (g, Inr (Op_Listing (list_tools skill r)))))"

section \<open>The registry invariant\<close>

text \<open>Every operation is registered under its own name.\<close>

definition registry_ok :: "('g, 'j) registry \<Rightarrow> bool" where
  "registry_ok r \<longleftrightarrow> gomap_ok r \<and> (\<forall>t op. map_of r t = Some op \<longrightarrow> op_tool op = t)"

lemma new_registry_ok [simp]: "registry_ok new_registry"
  by (simp add: registry_ok_def new_registry_def)

lemma proxy_op_fields [simp]:
  "op_skill (proxy_op ft skill t schema proxy) = skill"
  "op_tool (proxy_op ft skill t schema proxy) = t"
  "op_raw_schema (proxy_op ft skill t schema proxy) = schema"
  by (simp_all add: proxy_op_def)

lemma add_op_ok: "registry_ok r \<Longrightarrow> add_op skill tool b r = Inr r' \<Longrightarrow> registry_ok r'"
  by (auto simp: registry_ok_def add_op_def gomap_get_update split: if_splits)

lemma add_proxy_ok: "registry_ok r \<Longrightarrow> add_proxy ft skill tool schema p r = Inr r' \<Longrightarrow> registry_ok r'"
  by (auto simp: registry_ok_def add_proxy_def gomap_get_update split: if_splits)

lemma add_op_Inr:
  "add_op skill tool b r = Inr r' \<longleftrightarrow> map_of r tool = None \<and>
     r' = AList.update tool \<lparr>op_skill = skill, op_tool = tool, op_call = bd_call b,
         op_input_schema = bd_input_schema b, op_raw_schema = None\<rparr> r"
  by (auto simp: add_op_def)

lemma registry_tools:
  assumes "registry_ok r"
  shows "map (op_tool \<circ> snd) r = map fst r"
proof (intro map_cong refl)
  fix x assume "x \<in> set r"
  then have "map_of r (fst x) = Some (snd x)"
    using assms gomap_in_set [of r "fst x" "snd x"] by (simp add: registry_ok_def)
  with assms show "(op_tool \<circ> snd) x = fst x" by (simp add: registry_ok_def)
qed

section \<open>The listings say what is registered\<close>

lemma list_ops_sorted: "sorted (map op_tool (list_ops r))"
  by (simp add: list_ops_def)

lemma list_ops_set: "set (list_ops r) = snd ` set r"
  by (simp add: list_ops_def)

lemma list_ops_tools:
  assumes "registry_ok r"
  shows "set (map op_tool (list_ops r)) = dom (map_of r) \<and> distinct (map op_tool (list_ops r))"
proof
  have "mset (map op_tool (list_ops r)) = mset (map (op_tool \<circ> snd) r)"
    by (simp only: list_ops_def mset_map mset_sort multiset.map_comp)
  then have mset: "mset (map op_tool (list_ops r)) = mset (map fst r)"
    by (simp only: registry_tools [OF assms])
  from mset_eq_setD [OF this] show "set (map op_tool (list_ops r)) = dom (map_of r)"
    by (simp add: dom_map_of_conv_image_fst)
  from mset_eq_imp_distinct_iff [OF mset] show "distinct (map op_tool (list_ops r))"
    using assms by (simp add: registry_ok_def gomap_ok_def)
qed

lemma list_ops_lookup:
  assumes "registry_ok r"
  shows "op \<in> set (list_ops r) \<longleftrightarrow> lookup_op r (op_tool op) = Some op"
proof -
  have "(t, op) \<in> set r \<longleftrightarrow> map_of r t = Some op" for t
    using assms by (simp add: registry_ok_def gomap_in_set)
  with assms show ?thesis
    by (auto simp: list_ops_set lookup_op_def registry_ok_def image_iff) (metis snd_conv)
qed

definition skill_tools :: "('g, 'j) registry \<Rightarrow> string \<Rightarrow> string list" where
  "skill_tools r skill = map op_tool (filter (\<lambda>op. op_skill op = skill) (map snd r))"

definition skill_add :: "string \<times> ('g, 'j) op \<Rightarrow> (string, string list) gomap \<Rightarrow> (string, string list) gomap" where
  "skill_add kv m = AList.update (op_skill (snd kv))
     ((case map_of m (op_skill (snd kv)) of None \<Rightarrow> [] | Some ts \<Rightarrow> ts) @ [op_tool (snd kv)]) m"

lemma by_skill_fold: "by_skill r = map (\<lambda>(skill, tools). (skill, sort tools)) (fold skill_add r [])"
  unfolding by_skill_def skill_add_def [abs_def] by (simp add: case_prod_unfold)

lemma skill_add_lookup:
  "map_of (skill_add kv m) s =
     (if s = op_skill (snd kv) then Some ((case map_of m s of None \<Rightarrow> [] | Some ts \<Rightarrow> ts) @ [op_tool (snd kv)])
      else map_of m s)"
  by (simp add: skill_add_def gomap_get_update)

lemma skill_add_fold:
  "map_of (fold skill_add r m) s =
     (if map_of m s = None \<and> skill_tools r s = [] then None
      else Some ((case map_of m s of None \<Rightarrow> [] | Some ts \<Rightarrow> ts) @ skill_tools r s))"
proof (induction r arbitrary: m)
  case Nil
  then show ?case by (auto simp: skill_tools_def split: option.splits)
next
  case (Cons kv r)
  have "skill_tools (kv # r) s = (if op_skill (snd kv) = s then [op_tool (snd kv)] else []) @ skill_tools r s"
    by (simp add: skill_tools_def)
  then show ?case
    by (auto simp: Cons.IH skill_add_lookup split: option.splits)
qed

lemma map_of_map_values: "map_of (map (\<lambda>(k, v). (k, f v)) m) k = map_option f (map_of m k)"
  by (induction m) auto

lemma by_skill_lookup:
  "map_of (by_skill r) s = (if skill_tools r s = [] then None else Some (sort (skill_tools r s)))"
  by (simp add: by_skill_fold map_of_map_values skill_add_fold)

text \<open>What the range order of the Go map leaves open does not show in either listing.\<close>

lemma skill_tools_perm: "mset r = mset r' \<Longrightarrow> mset (skill_tools r s) = mset (skill_tools r' s)"
  by (simp add: skill_tools_def mset_map mset_filter)

section \<open>A table of operations\<close>

text \<open>
  What the start-up code relies on when it fills the registry: adding succeeds exactly under a
  fresh name, and then that name, and no other, leads to what was added.
\<close>

locale op_table =
  fixes add :: "string \<Rightarrow> 'b \<Rightarrow> 'r \<Rightarrow> 'e + 'r"
    and lookup :: "'r \<Rightarrow> string \<Rightarrow> 'o option"
    and op_of :: "string \<Rightarrow> 'b \<Rightarrow> 'o"
  assumes add_ok: "is_ok (add t b r) \<longleftrightarrow> lookup r t = None"
    and lookup_add: "add t b r = Inr r' \<Longrightarrow> lookup r' u = (if u = t then Some (op_of t b) else lookup r u)"
begin

lemma add_fresh: "lookup r t = None \<Longrightarrow> \<exists>r'. add t b r = Inr r'"
  using add_ok [of t b r] by (auto simp: is_ok_iff)

lemma add_all:
  assumes "distinct (map fst xs)" and "\<And>t. t \<in> set (map fst xs) \<Longrightarrow> lookup r t = None"
  shows "\<exists>r'. foldE (\<lambda>(t, b). add t b) xs r = Inr r'
    \<and> (\<forall>u. lookup r' u = (case map_of xs u of None \<Rightarrow> lookup r u | Some b \<Rightarrow> Some (op_of u b)))"
  using assms
proof (induction xs arbitrary: r)
  case (Cons x xs)
  obtain t b where x: "x = (t, b)" by (cases x)
  obtain r1 where r1: "add t b r = Inr r1" using add_fresh [of r t b] Cons.prems(2) x by auto
  have "\<exists>r'. foldE (\<lambda>(t, b). add t b) xs r1 = Inr r'
      \<and> (\<forall>u. lookup r' u = (case map_of xs u of None \<Rightarrow> lookup r1 u | Some b \<Rightarrow> Some (op_of u b)))"
    using Cons.prems x lookup_add [OF r1] by (intro Cons.IH) auto
  moreover have "map_of xs t = None" using Cons.prems(1) x by (auto simp: map_of_eq_None_iff)
  ultimately show ?case
    using x r1 lookup_add [OF r1] by (fastforce split: option.splits)
qed simp

end

interpretation ops: op_table "\<lambda>t (skill, b). add_op skill t b" lookup_op
  "\<lambda>t (skill, b). \<lparr>op_skill = skill, op_tool = t, op_call = bd_call b,
     op_input_schema = bd_input_schema b, op_raw_schema = None\<rparr>"
  by unfold_locales (auto simp: add_op_def lookup_op_def gomap_get_update split: if_splits)

interpretation proxies: op_table "\<lambda>t (skill, schema, proxy). add_proxy ft skill t schema proxy" lookup_op
  "\<lambda>t (skill, schema, proxy). proxy_op ft skill t schema proxy" for ft
  by unfold_locales (auto simp: add_proxy_def lookup_op_def gomap_get_update split: if_splits)

lemma call_proxy_op:
  "call_op r (proxy_op ft skill t schema proxy) ctx raw g =
     (case proxy_args ft raw of
        Inl e \<Rightarrow> (g, Inl e)
      | Inr args \<Rightarrow>
          (case proxy ctx args g of (g, Inl e) \<Rightarrow> (g, Inl e) | (g, Inr s) \<Rightarrow> (g, Inr (Op_Text s))))"
  by (simp add: call_op_def proxy_op_def)

lemma listed_iff:
  assumes "registry_ok r"
  shows "(\<exists>op\<in>set (list_ops r). op_skill op = skill \<and> op_tool op = t) \<longleftrightarrow>
    (\<exists>op. lookup_op r t = Some op \<and> op_skill op = skill)"
proof -
  have "op_tool op = t" if "lookup_op r t = Some op" for op
    using that assms by (simp add: registry_ok_def lookup_op_def)
  with list_ops_lookup [OF assms] show ?thesis by blast
qed

text \<open>What a group of the card holds.\<close>

definition tools_of :: "('g, 'j) registry \<Rightarrow> string \<Rightarrow> string set" where
  "tools_of r skill = {t. \<exists>op. lookup_op r t = Some op \<and> op_skill op = skill}"

lemma by_skill_groups:
  assumes "registry_ok r"
  shows "case map_of (by_skill r) skill of
      None \<Rightarrow> tools_of r skill = {}
    | Some ts \<Rightarrow> sorted ts \<and> distinct ts \<and> set ts = tools_of r skill \<and> ts \<noteq> []"
proof -
  have found: "set (skill_tools r skill) = tools_of r skill"
    unfolding tools_of_def listed_iff [OF assms, symmetric] by (auto simp: skill_tools_def list_ops_set)
  have "mset (map op_tool (map snd r)) = mset (map op_tool (list_ops r))"
    by (simp only: list_ops_def mset_map mset_sort)
  then have "distinct (map op_tool (map snd r))"
    using list_ops_tools [OF assms] mset_eq_imp_distinct_iff by metis
  then have "distinct (skill_tools r skill)"
    unfolding skill_tools_def by (rule distinct_map_filter)
  then show ?thesis using found by (auto simp: by_skill_lookup dest: arg_cong [of _ _ length])
qed

section \<open>Properties\<close>

text \<open>What is listed is what runs. An operation is listed, by \<open>list_tools\<close> and in the group of its skill,
  exactly when a request naming it would be dispatched to an operation of that skill; each listing is
  sorted and names no tool twice.\<close>

theorem listings_match_dispatch:
  assumes "registry_ok r"
  shows "sorted (map td_tool (list_tools s r)) \<and> distinct (map td_tool (list_tools s r))
    \<and> (\<forall>skill t. (\<exists>d\<in>set (list_tools s r). td_skill d = skill \<and> td_tool d = t) \<longleftrightarrow>
         (\<exists>op. lookup_op r t = Some op \<and> op_skill op = skill \<and> (s = [] \<or> skill = s)))
    \<and> (\<forall>skill. case map_of (by_skill r) skill of
         None \<Rightarrow> \<forall>t op. lookup_op r t = Some op \<longrightarrow> op_skill op \<noteq> skill
       | Some ts \<Rightarrow> sorted ts \<and> distinct ts \<and> set ts = {t. \<exists>op. lookup_op r t = Some op \<and> op_skill op = skill})"
proof (intro conjI allI)
  let ?shown = "filter (\<lambda>op. \<not> (s \<noteq> [] \<and> op_skill op \<noteq> s)) (list_ops r)"
  have tools: "map td_tool (list_tools s r) = map op_tool ?shown"
    by (simp add: list_tools_def)
  show "sorted (map td_tool (list_tools s r))"
    unfolding tools by (rule sorted_filter) (rule list_ops_sorted)
  show "distinct (map td_tool (list_tools s r))"
    unfolding tools using list_ops_tools [OF assms] by (simp add: distinct_map_filter)
  show "(\<exists>d\<in>set (list_tools s r). td_skill d = skill \<and> td_tool d = t) \<longleftrightarrow>
      (\<exists>op. lookup_op r t = Some op \<and> op_skill op = skill \<and> (s = [] \<or> skill = s))" for skill t
  proof -
    have "(\<exists>d\<in>set (list_tools s r). td_skill d = skill \<and> td_tool d = t) \<longleftrightarrow>
        (\<exists>op\<in>set (list_ops r). op_skill op = skill \<and> op_tool op = t) \<and> (s = [] \<or> skill = s)"
      by (auto simp: list_tools_def)
    then show ?thesis unfolding listed_iff [OF assms] by blast
  qed
next
  fix skill
  show "case map_of (by_skill r) skill of
      None \<Rightarrow> \<forall>t op. lookup_op r t = Some op \<longrightarrow> op_skill op \<noteq> skill
    | Some ts \<Rightarrow> sorted ts \<and> distinct ts \<and> set ts = {t. \<exists>op. lookup_op r t = Some op \<and> op_skill op = skill}"
    using by_skill_groups [OF assms, of skill] by (auto simp: tools_of_def split: option.splits)
qed

lemma listings_match_dispatch_witness:
  "\<exists>r :: (nat, nat) registry. register_meta None new_registry = Inr r \<and>
     (\<exists>d\<in>set (list_tools [] r). td_skill d = skill_meta \<and> td_tool d = ''list_tools'')"
proof -
  obtain r :: "(nat, nat) registry" where r: "register_meta None new_registry = Inr r"
    by (simp add: register_meta_def add_op_def new_registry_def)
  then have "registry_ok r" by (auto simp: register_meta_def intro: add_op_ok [OF new_registry_ok])
  moreover have "\<exists>op. lookup_op r ''list_tools'' = Some op \<and> op_skill op = skill_meta"
    using r by (auto simp: register_meta_def add_op_def new_registry_def lookup_op_def)
  ultimately show ?thesis
    using r listings_match_dispatch [of r "[]"] by blast
qed

end
