(* ===== verification/Json_Wf.thy ===== *)
theory Json_Wf
  imports Json
begin

text \<open>
  The type of what the JSON decoder gives: whatever the input, strings are valid UTF-8, numbers are
  literals, and no more than \<open>max_nesting\<close> arrays and objects are nested. So a decoded value reads
  back as itself after it is encoded again.
\<close>

section \<open>Number literals\<close>

lemma scan_digitsE:
  assumes "scan_digits s = Some (d, r)"
  obtains "s = d @ r" "d \<noteq> []" "\<forall>c\<in>set d. is_digit c"
proof -
  from assms have "d = takeWhile is_digit s" "r = dropWhile is_digit s" "d \<noteq> []"
    by (auto simp: scan_digits_def Let_def simp del: takeWhile_eq_Nil_iff split: if_splits)
  then show ?thesis using that by (auto dest: set_takeWhileD)
qed

definition no_digit :: "string \<Rightarrow> bool" where
  "no_digit t \<longleftrightarrow> (case t of [] \<Rightarrow> True | c # _ \<Rightarrow> \<not> is_digit c)"

lemma scan_digits_exact:
  assumes "d \<noteq> []" and "\<forall>c\<in>set d. is_digit c" and "no_digit t"
  shows "scan_digits (d @ t) = Some (d, t)"
proof -
  have "takeWhile is_digit (d @ t) = d" "dropWhile is_digit (d @ t) = t"
    using assms(2,3) by (cases t; simp add: takeWhile_append2 dropWhile_append2 no_digit_def)+
  then show ?thesis using assms(1) by (simp add: scan_digits_def Let_def)
qed

lemma scan_int_exact:
  assumes "scan_int s = Some (i, r)"
  shows "s = i @ r" and "no_digit t \<Longrightarrow> scan_int (i @ t) = Some (i, t)" and "\<not> has_prefix (i @ t) ''-''"
proof -
  obtain c w where s: "s = c # w" using assms by (cases s) (simp_all add: scan_int_def)
  have minus: "\<not> is_digit CHR ''-''" by code_simp
  consider "c = CHR ''0''" "i = [c]" "r = w" | "c \<noteq> CHR ''0''" "scan_digits s = Some (i, r)"
    using assms s by (auto simp: scan_int_def split: if_splits)
  then have "s = i @ r \<and> (no_digit t \<longrightarrow> scan_int (i @ t) = Some (i, t)) \<and> \<not> has_prefix (i @ t) ''-''"
  proof cases
    case 1
    then show ?thesis by (simp add: s scan_int_def has_prefix_def)
  next
    case 2
    from 2(2) obtain i': "s = i @ r" "i \<noteq> []" "\<forall>c\<in>set i. is_digit c" by (rule scan_digitsE)
    then obtain v where v: "i = c # v" using s by (cases i) auto
    with i' 2(1) minus scan_digits_exact [OF i'(2,3), of t] show ?thesis
      by (auto simp: scan_int_def has_prefix_def)
  qed
  then show "s = i @ r" "no_digit t \<Longrightarrow> scan_int (i @ t) = Some (i, t)" "\<not> has_prefix (i @ t) ''-''"
    by blast+
qed

lemma scan_frac_exact:
  assumes "scan_frac s = Some (f, r)" and "no_digit t" and "\<not> has_prefix t ''.''"
  shows "scan_frac (f @ t) = Some (f, t)" and "no_digit (f @ t)"
proof -
  have dot: "\<not> is_digit CHR ''.''" by code_simp
  consider "f = []" | d w where "f = CHR ''.'' # d" "scan_digits w = Some (d, r)"
    using assms(1) by (auto simp: scan_frac_def split: list.splits if_splits)
  then have "scan_frac (f @ t) = Some (f, t) \<and> no_digit (f @ t)"
  proof cases
    case 1
    with assms show ?thesis by (cases t) (auto simp: scan_frac_def has_prefix_def)
  next
    case 2
    from 2(2) obtain d: "d \<noteq> []" "\<forall>c\<in>set d. is_digit c" by (rule scan_digitsE)
    with 2(1) dot scan_digits_exact [OF d assms(2)] show ?thesis by (simp add: scan_frac_def no_digit_def)
  qed
  then show "scan_frac (f @ t) = Some (f, t)" "no_digit (f @ t)" by blast+
qed

lemma scan_exp_exact:
  assumes "scan_exp s = Some (e, r)"
  shows "scan_exp e = Some (e, [])" and "no_digit e" and "\<not> has_prefix e ''.''"
proof -
  have not_digit: "\<not> is_digit CHR ''e''" "\<not> is_digit CHR ''E''" "\<not> is_digit CHR ''+''" "\<not> is_digit CHR ''-''"
    by code_simp+
  consider "e = []"
    | c g d w where "c = CHR ''e'' \<or> c = CHR ''E''" "g = CHR ''+'' \<or> g = CHR ''-''" "e = c # g # d"
        "scan_digits w = Some (d, r)"
    | c d w where "c = CHR ''e'' \<or> c = CHR ''E''" "e = c # d" "scan_digits w = Some (d, r)"
    using assms by (auto simp: scan_exp_def split: list.splits if_splits)
  then have "scan_exp e = Some (e, []) \<and> no_digit e \<and> \<not> has_prefix e ''.''"
  proof cases
    case 1
    then show ?thesis by (simp add: scan_exp_def no_digit_def has_prefix_def)
  next
    case 2
    from 2(4) obtain d: "d \<noteq> []" "\<forall>c\<in>set d. is_digit c" by (rule scan_digitsE)
    with 2(1-3) not_digit scan_digits_exact [OF d, of "[]"] show ?thesis
      by (auto simp: scan_exp_def no_digit_def has_prefix_def)
  next
    case 3
    from 3(3) obtain d: "d \<noteq> []" "\<forall>c\<in>set d. is_digit c" by (rule scan_digitsE)
    then obtain g u where "d = g # u" "is_digit g" by (cases d) auto
    with 3(1,2) d not_digit scan_digits_exact [OF d, of "[]"] show ?thesis
      by (auto simp: scan_exp_def no_digit_def has_prefix_def)
  qed
  then show "scan_exp e = Some (e, [])" "no_digit e" "\<not> has_prefix e ''.''" by blast+
qed

lemma scan_number_literal:
  assumes "scan_number s = Some (l, r)"
  shows "scan_number l = Some (l, [])"
proof -
  obtain sg t where sg: "(if has_prefix s ''-'' then (''-'', tl s) else ([], s)) = (sg, t)" by fastforce
  with assms obtain i u f v e where steps: "scan_int t = Some (i, u)" "scan_frac u = Some (f, v)"
      "scan_exp v = Some (e, r)" and l: "l = sg @ i @ f @ e"
    by (auto simp: scan_number_def Let_def split: option.splits)
  note e = scan_exp_exact [OF steps(3)]
  note f = scan_frac_exact [OF steps(2) e(2,3)]
  have i: "scan_int (i @ f @ e) = Some (i, f @ e)" using scan_int_exact(2) [OF steps(1)] f(2) by simp
  have sign: "(if has_prefix l ''-'' then (''-'', tl l) else ([], l)) = (sg, i @ f @ e)"
  proof -
    from sg have "sg = ''-'' \<or> sg = []" by (simp split: if_splits)
    then show ?thesis
    proof
      assume "sg = []"
      then show ?thesis using scan_int_exact(3) [OF steps(1), of "f @ e"] by (simp add: l)
    qed (simp add: l has_prefix_def)
  qed
  show ?thesis unfolding scan_number_def sign by (simp add: i f(1) e(1) l)
qed

section \<open>Decoded strings\<close>

text \<open>A string of whole runes; the decoder's strings are.\<close>

definition utf8 :: "string \<Rightarrow> bool" where
  "utf8 s \<longleftrightarrow> valid_utf8 s = s"

lemma utf8_Nil [simp]: "utf8 []"
  by (simp add: utf8_def)

lemma utf8_rune [simp]: "is_rune u \<Longrightarrow> utf8 (u @ t) \<longleftrightarrow> utf8 t"
  by (simp add: utf8_def valid_utf8_rune)

lemma utf8_Cons [simp]: "byte c < 0x80 \<Longrightarrow> utf8 (c # t) \<longleftrightarrow> utf8 t"
  by (simp add: utf8_def valid_utf8_ascii)

lemma utf8_valid: "utf8 (valid_utf8 s)"
  using valid_utf8_runes [of s] by (auto simp: utf8_def concat_runes)

lemma utf8_cases:
  assumes "utf8 s"
  obtains "s = []" | c t where "s = c # t" "byte c < 0x80" "utf8 t"
    | u t where "s = u @ t" "is_rune u" "\<forall>c\<in>set u. 0x80 \<le> byte c" "utf8 t"
proof -
  obtain us where us: "list_all is_rune us" "s = concat us" using assms valid_runesE unfolding utf8_def by blast
  show ?thesis
  proof (cases us)
    case (Cons u vs)
    then have u: "is_rune u" "utf8 (concat vs)" using us by (simp_all add: utf8_def concat_runes)
    from u(1) show ?thesis
    proof (cases rule: is_rune_cases)
      case (ascii c)
      then show ?thesis using that(2) us Cons u by simp
    next
      case high
      then show ?thesis using that(3) us Cons u by simp
    qed
  qed (use us that(1) in simp)
qed

text \<open>Numbers that are code points are encoded as one rune.\<close>

lemma byte_char_of: "n < 256 \<Longrightarrow> byte (char_of n) = int n"
  by (simp add: byte_nat)

lemma div_in_steps:
  fixes n :: nat
  assumes "0 < a" and "0 < b"
  shows "a * (b * (n div (a * b)) + n div a mod b) \<le> n \<and> n < a * (b * (n div (a * b)) + n div a mod b) + a"
proof -
  have "b * (n div (a * b)) + n div a mod b = n div a" by (simp add: div_mult2_eq)
  then show ?thesis
    using assms(1) div_times_less_eq_dividend [of n a] dividend_less_div_times [of a n] by (simp add: mult.commute add.commute)
qed

lemma rune_of_encode:
  assumes "n < 0x110000" and "\<not> surrogate n"
  shows "is_rune (utf8_encode n)"
proof -
  consider "n < 0x80" | "0x80 \<le> n" "n < 0x800" | "0x800 \<le> n" "n < 0x10000" | "0x10000 \<le> n" by linarith
  then show ?thesis
  proof cases
    case 1
    then show ?thesis by (simp add: utf8_encode_def is_rune_ascii byte_char_of)
  next
    case 2
    then have "2 \<le> n div 64" "n div 64 < 32" by simp_all
    with 2 show ?thesis
      by (simp add: utf8_encode_def is_rune_def rune_size_def rune_len_def second_ok_def cont_def in_bytes_def
          byte_char_of)
  next
    case 3
    note steps = div_in_steps [of 64 64 n, simplified]
    have "n div 64 mod 64 \<ge> 32" if "n div 4096 = 0" using 3 that steps by simp
    moreover have "n div 64 mod 64 < 32" if "n div 4096 = 13"
      using 3 assms(2) that steps mod_less_divisor [of 64 "n div 64"] unfolding surrogate_def by force
    moreover have "n div 4096 < 16" using 3 by simp
    ultimately show ?thesis
      using 3
      by (auto simp: utf8_encode_def is_rune_def rune_size_def rune_len_def second_ok_def cont_def in_bytes_def
          byte_char_of)
  next
    case 4
    note steps = div_in_steps [of 4096 64 n, simplified]
    have "n div 4096 mod 64 \<ge> 16" if "n div 262144 = 0" using 4 that steps by simp
    moreover have "n div 4096 mod 64 < 16" if "n div 262144 = 4" using 4 assms(1) that steps by simp
    moreover have "n div 262144 < 5" using assms(1) by simp
    ultimately show ?thesis
      using 4
      by (auto simp: utf8_encode_def is_rune_def rune_size_def rune_len_def second_ok_def cont_def in_bytes_def
          byte_char_of)
  qed
qed

lemma hex_value_digit: "hex_value c = Some d \<Longrightarrow> d < 16 \<and> byte c < 0x80"
  by (auto simp: hex_value_def byte_nat Let_def split: if_splits)

lemma hex4_Some:
  assumes "hex4 s = Some n"
  obtains a b c d t where "s = a # b # c # d # t" "n < 0x10000" "list_all (\<lambda>c. byte c < 0x80) [a, b, c, d]"
proof (cases s rule: hex4.cases)
  case (1 a b c d t)
  with assms obtain w x y z where "hex_value a = Some w" "hex_value b = Some x" "hex_value c = Some y"
      "hex_value d = Some z" "n = ((w * 16 + x) * 16 + y) * 16 + z"
    by (auto split: option.splits)
  then show ?thesis using that [of a b c d t] 1 by (auto dest!: hex_value_digit)
qed (use assms in simp_all)

lemma hex4_utf8: "hex4 s = Some n \<Longrightarrow> utf8 s \<Longrightarrow> n < 0x10000 \<and> utf8 (drop 4 s)"
  by (erule hex4_Some) simp

lemma low_surrogate_utf8:
  assumes "low_surrogate r s = Some q" and "utf8 s"
  shows "is_rune (utf8_encode q) \<and> utf8 (drop 6 s)"
proof -
  obtain w where w: "has_prefix s [CHR 0x5C, CHR ''u'']" "hex4 (drop 2 s) = Some w" "0xD800 \<le> r" "r < 0xDC00"
      "0xDC00 \<le> w" "w < 0xE000" "q = 0x10000 + (r - 0xD800) * 1024 + (w - 0xDC00)"
    using assms(1) by (auto simp: low_surrogate_def split: if_splits option.splits)
  from w(1) obtain t where t: "s = CHR 0x5C # CHR ''u'' # t"
    by (cases s rule: remdups_adj.cases) (auto simp: has_prefix_def)
  have "byte CHR 0x5C < 0x80" "byte CHR ''u'' < 0x80" by (simp_all add: byte_def)
  then have "utf8 (drop 4 t)" using assms(2) w(2) hex4_utf8 [of t w] by (simp add: t)
  moreover have "q < 0x110000" "\<not> surrogate q" using w(3-7) by (auto simp: surrogate_def)
  ultimately show ?thesis using rune_of_encode by (simp add: t)
qed

lemma unescape_ends: "unescape [] = []" "unescape [CHR 0x5C] = []"
  by (subst unescape.simps, simp)+

lemmas unescape_escaped = unescape.simps [of "CHR 0x5C # e # u" for e u, simplified]

lemma unescape_utf8: "utf8 s \<Longrightarrow> utf8 (unescape s)"
proof (induction s rule: measure_induct_rule [of length])
  case (less s)
  from less.prems show ?case
  proof (cases rule: utf8_cases)
    case 1
    then show ?thesis by (simp add: unescape_ends)
  next
    case (3 u t)
    then have "\<forall>c\<in>set u. c \<noteq> CHR 0x5C" by (auto simp: byte_def)
    moreover have "length t < length s" using 3(1,2) by (simp add: is_rune_def)
    ultimately show ?thesis using 3 less.IH [of t] by (simp add: unescape_plain_append)
  next
    case (2 c t)
    show ?thesis
    proof (cases "c = CHR 0x5C")
      case False
      with 2 less.IH [of t] show ?thesis by (simp add: unescape_plain)
    next
      case True
      from 2(3) show ?thesis
      proof (cases rule: utf8_cases)
        case 1
        with 2 True show ?thesis by (simp add: unescape_ends)
      next
        case (3 u v)
        then obtain e w where u: "u = e # w" by (cases u) (auto simp: is_rune_def)
        have high: "\<forall>c\<in>set w. c \<noteq> CHR 0x5C" using 3(3) by (auto simp: u byte_def)
        have "e \<noteq> CHR ''b''" "e \<noteq> CHR ''f''" "e \<noteq> CHR ''n''" "e \<noteq> CHR ''r''" "e \<noteq> CHR ''t''" "e \<noteq> CHR ''u''"
          using 3(3) by (auto simp: u byte_def)
        then have "unescape s = u @ unescape v"
          using 2(1) True 3(1) unescape_plain_append [OF high] by (simp add: unescape_escaped u)
        moreover have "length v < length s" by (simp add: 2(1) 3(1))
        ultimately show ?thesis using 3(2,4) less.IH [of v] by simp
      next
        case esc: (2 e v)
        have IH: "utf8 (unescape x)" if "utf8 x" "length x \<le> length v" for x
          using less.IH [of x] that 2(1) esc(1) by simp
        have ascii: "byte CHR 0x08 < 0x80" "byte CHR 0x0C < 0x80" "byte CHR 0x0A < 0x80" "byte CHR 0x0D < 0x80"
          "byte CHR 0x09 < 0x80" by (simp_all add: byte_def)
        show ?thesis
        proof (cases "e = CHR ''u''")
          case False
          with 2(1) True esc IH [of v] ascii show ?thesis by (simp add: unescape_escaped)
        next
          case u: True
          show ?thesis
          proof (cases "hex4 v")
            case None
            with 2(1) True esc u show ?thesis by (simp add: unescape_escaped)
          next
            case (Some r)
            note h = hex4_utf8 [OF Some esc(3)]
            have rest: "utf8 (unescape (drop 4 v))" by (rule IH) (use h in auto)
            show ?thesis
            proof (cases "surrogate r")
              case False
              with 2(1) True esc(1) u Some rest rune_of_encode [of r] h show ?thesis
                by (simp add: unescape_escaped)
            next
              case sur: True
              show ?thesis
              proof (cases "low_surrogate r (drop 4 v)")
                case None
                with 2(1) True esc(1) u Some sur rest is_rune_replacement show ?thesis
                  by (simp add: unescape_escaped)
              next
                case low: (Some q)
                from low_surrogate_utf8 [OF low] h
                have q: "is_rune (utf8_encode q)" "utf8 (drop 10 v)" by simp_all
                have "utf8 (unescape (drop 10 v))" by (rule IH) (use q in auto)
                with 2(1) True esc(1) u Some sur low q show ?thesis
                  by (simp add: unescape_escaped)
              qed
            qed
          qed
        qed
      qed
    qed
  qed
qed

lemma unquote_utf8: "utf8 (unquote b)"
  unfolding unquote_def by (intro unescape_utf8 utf8_valid)

section \<open>Decoded values\<close>

lemma parse_wf:
  "parse_value n d s = Some (v, r) \<Longrightarrow> wf_json (nat max_nesting - d) v"
  "parse_elems n d s = Some (vs, r) \<Longrightarrow> list_all (wf_json (nat max_nesting - d)) vs"
  "parse_members n d s = Some (ms, r) \<Longrightarrow> list_all (\<lambda>(k, v). utf8 k \<and> wf_json (nat max_nesting - d) v) ms"
proof (induction n d s and n d s and n d s arbitrary: v r and vs r and ms r
    rule: parse_value_parse_elems_parse_members.induct)
  case (2 n d s)
  show ?case
  proof (cases "skip_ws s")
    case (Cons c t)
    have deep: "0 < nat max_nesting - d" if "\<not> max_nesting \<le> int d" using that by linarith
    consider (leaf) "v \<in> {J_Null, J_Bool True, J_Bool False}" | (number) l u where "scan_number u = Some (l, r)" "v = J_Num l"
      | (string) b where "v = J_Str (unquote b)"
      | (empty) "\<not> max_nesting \<le> int d" "v \<in> {J_Obj [], J_Arr []}"
      | (object) ms where "c = CHR ''{''" "\<not> max_nesting \<le> int d" "\<not> has_prefix (skip_ws t) ''}''"
          "parse_members n (Suc d) t = Some (ms, r)" "v = J_Obj ms"
      | (array) vs where "c \<noteq> CHR ''{''" "c = CHR ''[''" "\<not> max_nesting \<le> int d" "\<not> has_prefix (skip_ws t) '']''"
          "parse_elems n (Suc d) t = Some (vs, r)" "v = J_Arr vs"
      using 2(3) by (auto simp: Cons split: if_splits)
    then show ?thesis
    proof cases
      case (number l u)
      then show ?thesis using scan_number_literal by simp
    next
      case (string b)
      then show ?thesis using unquote_utf8 [of b] by (simp add: utf8_def)
    next
      case (object ms)
      show ?thesis
        using 2(1) [OF Cons object(1-4)] deep [OF object(2)] by (simp add: object(5) utf8_def)
    next
      case (array vs)
      show ?thesis
        using 2(2) [OF Cons array(1-5)] deep [OF array(3)] by (simp add: array(6))
    qed (use deep in auto)
  qed (use 2(3) in simp)
next
  case (4 n d s)
  then obtain v u where v: "parse_value n d s = Some (v, u)" by (auto split: option.splits)
  with 4(3) obtain c t where t: "skip_ws u = c # t" by (auto split: list.splits)
  consider vs' where "c = CHR '',''" "parse_elems n d t = Some (vs', r)" "vs = v # vs'" | "vs = [v]"
    using 4(3) by (auto simp: v t split: if_splits)
  then show ?case
  proof cases
    case (1 vs')
    with 4(1) [OF v] 4(2) [OF v refl t 1(1,2)] show ?thesis by simp
  qed (use 4(1) [OF v] in simp)
next
  case (6 n d s)
  from 6(3) obtain q t where q: "skip_ws s = q # t" "\<not> q \<noteq> CHR 0x22" by (auto split: list.splits if_splits)
  with 6(3) obtain k u where k: "scan_string t = Some (k, u)" by (auto split: option.splits)
  with 6(3) q have colon: "\<not> \<not> has_prefix (skip_ws u) '':''" by (auto split: if_splits)
  with 6(3) q k obtain v w where v: "parse_value n d (tl (skip_ws u)) = Some (v, w)" by (auto split: option.splits)
  with 6(3) q k colon obtain c x where x: "skip_ws w = c # x" by (auto split: list.splits)
  consider ms' where "c = CHR '',''" "parse_members n d x = Some (ms', r)" "ms = (unquote k, v) # ms'"
    | "ms = [(unquote k, v)]"
    using 6(3) q k colon by (auto simp: v x split: if_splits)
  then show ?case
  proof cases
    case (1 ms')
    with 6(1) [OF q k refl colon v] 6(2) [OF q k refl colon v refl x 1(1,2)] unquote_utf8 show ?thesis by simp
  qed (use 6(1) [OF q k refl colon v] unquote_utf8 in simp)
qed simp_all

lemma json_parse_wf: "json_parse s = Some v \<Longrightarrow> wf_json (nat max_nesting) v"
  using parse_wf(1) [of "json_fuel s" 0 s] by (auto simp: json_parse_def split: option.splits if_splits)

lemma json_parse_again: "json_parse s = Some v \<Longrightarrow> json_parse (json_text v) = Some v"
  by (rule json_parse_text [OF json_parse_wf])

section \<open>Decoded into Go values\<close>

text \<open>The members of an object the decoder gives, at the nesting left for their values.\<close>

definition wf_members :: "nat \<Rightarrow> members \<Rightarrow> bool" where
  "wf_members b ms \<longleftrightarrow> list_all (\<lambda>(k, v). utf8 k \<and> wf_json b v) ms"

lemma wf_json_Obj: "wf_json b (J_Obj ms) \<longleftrightarrow> 0 < b \<and> wf_members (b - 1) ms"
  by (auto simp: wf_members_def utf8_def)

lemma wf_members_update: "wf_members b ms \<Longrightarrow> utf8 k \<Longrightarrow> wf_json b v \<Longrightarrow> wf_members b (AList.update k v ms)"
  by (induction ms) (auto simp: wf_members_def)

lemma wf_members_fold:
  "wf_members b ms \<Longrightarrow> wf_members b cur \<Longrightarrow> wf_members b (fold (\<lambda>(k, v) m. AList.update k v m) ms cur)"
proof (induction ms arbitrary: cur)
  case (Cons kv ms)
  obtain k v where kv: "kv = (k, v)" by (cases kv)
  from Cons.prems have "utf8 k" "wf_json b v" "wf_members b ms" by (simp_all add: kv wf_members_def)
  with Cons.prems(2) show ?case by (auto simp: kv intro: Cons.IH wf_members_update)
qed simp

text \<open>The encoder's text of a float is a number.\<close>

definition floats_ok :: "(string \<Rightarrow> string option) \<Rightarrow> bool" where
  "floats_ok ft \<longleftrightarrow> (\<forall>l t. ft l = Some t \<longrightarrow> scan_number t = Some (t, []))"

lemma any_value_wf: "floats_ok ft \<Longrightarrow> wf_json b v \<Longrightarrow> wf_json b (any_value ft v)"
proof (induction b v rule: wf_json.induct)
  case (3 b l)
  then show ?case by (auto simp: floats_ok_def split: option.splits)
next
  case (5 b vs)
  then show ?case by (auto simp: list_all_iff)
next
  case (6 b ms)
  let ?ms = "map (\<lambda>(k, v). (k, any_value ft v)) ms"
  have "wf_members (b - 1) ?ms" using 6 by (fastforce simp: wf_members_def utf8_def list_all_iff)
  then have "wf_members (b - 1) (fold (\<lambda>(k, v) m. AList.update k v m) ?ms [])"
    by (rule wf_members_fold) (simp add: wf_members_def)
  moreover have "0 < b" using 6 by simp
  ultimately show ?case
    unfolding any_value.simps wf_json_Obj by (simp add: wf_members_def list_all_iff)
qed simp_all

text \<open>Decoders that keep a property of their target on values nested at most \<open>b\<close> deep.\<close>

definition keeps :: "nat \<Rightarrow> ('a \<Rightarrow> bool) \<Rightarrow> 'a decoder \<Rightarrow> bool" where
  "keeps b P dec \<longleftrightarrow> (\<forall>cur v x. P cur \<longrightarrow> wf_json b v \<longrightarrow> dec cur v = Some x \<longrightarrow> P x)"

lemma keepsD: "keeps b P dec \<Longrightarrow> P cur \<Longrightarrow> wf_json b v \<Longrightarrow> dec cur v = Some x \<Longrightarrow> P x"
  by (simp add: keeps_def)

lemma dec_string_keeps: "keeps b utf8 dec_string"
  unfolding keeps_def
proof (intro allI impI)
  fix cur v x assume "utf8 cur" "wf_json b v" "dec_string cur v = Some x"
  then show "utf8 x" by (cases v) (auto simp: utf8_def)
qed

lemma dec_field_keeps:
  assumes "keeps b P dec" and "wf_members b ms" and "P cur" and "dec_field dec f ms cur = Some x"
  shows "P x"
  using assms(2-)
proof (induction ms arbitrary: cur)
  case (Cons kv ms)
  obtain k v where kv: "kv = (k, v)" by (cases kv)
  from Cons.prems(1) have wf: "wf_json b v" "wf_members b ms" by (simp_all add: kv wf_members_def)
  show ?case
  proof (cases "fold_name k = fold_name f")
    case True
    with Cons.prems(3) obtain y where y: "dec cur v = Some y" "dec_field dec f ms y = Some x"
      by (auto simp: kv split: option.splits)
    show ?thesis by (rule Cons.IH [OF wf(2) keepsD [OF assms(1) Cons.prems(2) wf(1) y(1)] y(2)])
  qed (use Cons wf kv in auto)
qed simp

text \<open>A struct keeps what each of its fields keeps.\<close>

definition field_keeps :: "('a \<Rightarrow> bool) \<Rightarrow> members \<Rightarrow> (members \<Rightarrow> 'a \<Rightarrow> 'a option) \<Rightarrow> bool" where
  "field_keeps Q ms f \<longleftrightarrow> (\<forall>cur x. Q cur \<longrightarrow> f ms cur = Some x \<longrightarrow> Q x)"

lemma field_into_keeps:
  assumes "keeps b P dec" and "wf_members b ms" and "\<forall>cur. Q cur \<longrightarrow> P (get cur)"
    and "\<forall>cur y. Q cur \<longrightarrow> P y \<longrightarrow> Q (upd (\<lambda>_. y) cur)"
  shows "field_keeps Q ms (field_into f dec get upd)"
  unfolding field_keeps_def field_into_def
  using dec_field_keeps [OF assms(1,2)] assms(3,4) by (auto simp: map_option_eq_Some)

lemma dec_fields_keep:
  assumes "list_all (field_keeps Q ms) fs" and "Q cur" and "dec_fields fs cur ms = Some x"
  shows "Q x"
  using assms by (induction fs arbitrary: cur) (auto simp: field_keeps_def split: option.splits)

lemma dec_struct_keeps:
  assumes "list_all (field_keeps Q ms) fs" and "Q cur" and "dec_struct fs cur (J_Obj ms) = Some x"
  shows "Q x"
  using dec_fields_keep [of Q ms fs cur x] assms by (simp add: dec_struct_def)

lemma unmarshal_any_wf:
  "floats_ok ft \<Longrightarrow> unmarshal_any ft s = Some v \<Longrightarrow> wf_json (nat max_nesting) v"
  by (auto simp: unmarshal_any_def any_value_wf json_parse_wf split: option.splits if_splits)

section \<open>Encoded in full\<close>

lemma fits_mono: "fits b v \<Longrightarrow> b \<le> c \<Longrightarrow> fits c v"
proof (induction b v arbitrary: c rule: fits.induct)
  case (2 b vs)
  then show ?case by (fastforce simp: list_all_iff)
next
  case (3 b ms)
  then show ?case by (fastforce simp: list_all_iff)
qed auto

text \<open>What was decoded has a place wherever its nesting has one.\<close>

lemma fits_wf_json: "fits c v \<Longrightarrow> wf_json b v \<Longrightarrow> wf_json c v"
proof (induction c v arbitrary: b rule: fits.induct)
  case (2 c vs)
  then show ?case by (fastforce simp: list_all_iff)
next
  case (3 c ms)
  then show ?case by (fastforce simp: list_all_iff)
qed auto

lemma valid_utf8_eq_Nil [simp]: "valid_utf8 s = [] \<longleftrightarrow> s = []"
  by (subst valid_utf8.simps) (auto simp: replacement_def)

lemma digit_char_is_digit: "d < 10 \<Longrightarrow> is_digit (digit_char d)"
  by (simp add: digit_char_def is_digit_def in_bytes_def byte_nat)

lemma show_nat_zero: "hd (show_nat n) = CHR ''0'' \<Longrightarrow> n = 0"
proof (induction n rule: show_nat.induct)
  case (1 n)
  show ?case
  proof (cases "n < 10")
    case True
    with 1(2) show ?thesis
      by (subst (asm) show_nat.simps) (auto simp: digit_char_def dest!: arg_cong [of _ _ "of_char :: char \<Rightarrow> nat"])
  next
    case False
    with 1(2) have "hd (show_nat (n div 10)) = CHR ''0''" by (subst (asm) show_nat.simps) (simp add: hd_append)
    with 1(1) False show ?thesis by simp
  qed
qed

lemma scan_show_nat: "scan_int (show_nat n) = Some (show_nat n, [])"
proof -
  obtain c cs where n: "show_nat n = c # cs" by (cases "show_nat n") auto
  show ?thesis
  proof (cases "c = CHR ''0''")
    case True
    with n show_nat_zero [of n] have "n = 0" by simp
    with n True have "cs = []" by (subst (asm) show_nat.simps) simp
    with n True show ?thesis by (simp add: scan_int_def)
  next
    case False
    have "\<forall>c\<in>set (show_nat n). is_digit c" using show_nat_digits digit_char_is_digit by blast
    then have "scan_digits (show_nat n @ []) = Some (show_nat n, [])"
      by (intro scan_digits_exact) (simp_all add: no_digit_def)
    with n False show ?thesis by (simp add: scan_int_def)
  qed
qed

lemma scan_number_show: "scan_number (show_nat n) = Some (show_nat n, [])" "scan_number (show_int i) = Some (show_int i, [])"
proof -
  have sign: "\<not> has_prefix (show_nat n) ''-''" for n
    using show_nat_no_sign(1) [of n] by (cases "show_nat n") (auto simp: has_prefix_def)
  show nat: "scan_number (show_nat n) = Some (show_nat n, [])" for n
    by (simp add: scan_number_def sign scan_show_nat scan_frac_def scan_exp_def)
  show "scan_number (show_int i) = Some (show_int i, [])"
  proof (cases "i < 0")
    case True
    then show ?thesis
      by (simp add: show_int_def scan_number_def has_prefix_def scan_show_nat scan_frac_def scan_exp_def)
  qed (simp add: show_int_def nat)
qed

section \<open>What a struct's fields read\<close>

text \<open>
  The text an object has for a field: that of the last member under the field's name, up to case
  folding, that is not \<open>null\<close>. The raw value: that of the last member under the name.
\<close>

definition field_members :: "string \<Rightarrow> members \<Rightarrow> members" where
  "field_members f ms = filter (\<lambda>(k, _). fold_name k = fold_name f) ms"

definition text_member :: "string \<Rightarrow> members \<Rightarrow> string" where
  "text_member f ms =
     (case filter (\<lambda>(_, v). v \<noteq> J_Null) (field_members f ms) of
        [] \<Rightarrow> []
      | m # ms \<Rightarrow> (case snd (last (m # ms)) of J_Str s \<Rightarrow> s | _ \<Rightarrow> []))"

definition raw_member :: "string \<Rightarrow> members \<Rightarrow> json option" where
  "raw_member f ms = (case field_members f ms of [] \<Rightarrow> None | m # ms \<Rightarrow> Some (snd (last (m # ms))))"

definition all_text :: "string \<Rightarrow> members \<Rightarrow> bool" where
  "all_text f ms \<longleftrightarrow> list_all (\<lambda>(_, v). case v of J_Null \<Rightarrow> True | J_Str _ \<Rightarrow> True | _ \<Rightarrow> False) (field_members f ms)"

lemma field_members_simps [simp]:
  "field_members f [] = []"
  "field_members f ((k, v) # ms) = (if fold_name k = fold_name f then [(k, v)] else []) @ field_members f ms"
  by (simp_all add: field_members_def)

lemma dec_field_string_from:
  "dec_field dec_string f ms cur =
     (if all_text f ms
      then Some (case filter (\<lambda>(_, v). v \<noteq> J_Null) (field_members f ms) of
          [] \<Rightarrow> cur | m # ms \<Rightarrow> (case snd (last (m # ms)) of J_Str s \<Rightarrow> s | _ \<Rightarrow> []))
      else None)"
proof (induction ms arbitrary: cur)
  case (Cons kv ms)
  obtain k v where kv: "kv = (k, v)" by (cases kv)
  show ?case
    by (cases "fold_name k = fold_name f"; cases v)
      (auto simp: kv Cons.IH all_text_def split: list.splits)
qed (simp add: all_text_def)

lemma dec_field_string: "dec_field dec_string f ms [] = (if all_text f ms then Some (text_member f ms) else None)"
  by (simp add: dec_field_string_from text_member_def)

lemma dec_field_raw_from:
  "dec_field dec_raw f ms cur =
     Some (case field_members f ms of [] \<Rightarrow> cur | m # ms \<Rightarrow> Some (snd (last (m # ms))))"
proof (induction ms arbitrary: cur)
  case (Cons kv ms)
  obtain k v where kv: "kv = (k, v)" by (cases kv)
  have "dec_raw x v = Some (Some v)" for x by (simp add: dec_raw_def)
  then show ?case by (auto simp: kv Cons.IH split: list.splits)
qed simp

lemma dec_field_raw: "dec_field dec_raw f ms None = Some (raw_member f ms)"
  by (simp add: dec_field_raw_from raw_member_def)

text \<open>A map has, under each key, the last value written there.\<close>

lemma fold_update_last: "map_of (fold (\<lambda>(k, v) m. AList.update k v m) ms cur) k =
    (case map_of (rev ms) k of None \<Rightarrow> map_of cur k | Some v \<Rightarrow> Some v)"
proof (induction ms arbitrary: cur)
  case (Cons kv ms)
  obtain k' v where kv: "kv = (k', v)" by (cases kv)
  show ?case by (auto simp: kv Cons.IH gomap_get_update map_add_def split: option.splits)
qed simp

end
