(* ===== verification/A2A_Server.thy ===== *)
theory A2A_Server
  imports Tool_Registry Json_Wf
begin

text \<open>
  The A2A surface (\<open>internal/a2aserver\<close>): the request envelope, the caller's tenant, the
  executor that runs a request as a task, the Agent Card and the server around them.

  The A2A library is an argument where the code reads from it: the parts of a message, the
  service parameters, and the consumer of the task's events. The intent runner and every
  operation act on one world \<open>'g\<close>. Schemas are JSON values.
\<close>

section \<open>Envelope\<close>

record request =
  rq_skill :: string
  rq_tool :: string
  rq_args :: raw_message
  rq_bearer :: string
  rq_caller :: string
  rq_intent :: string
  rq_query :: string
  rq_ticker :: string
  rq_side :: string
  rq_size :: string

definition zero_request :: request where
  "zero_request =
     \<lparr>rq_skill = [], rq_tool = [], rq_args = None, rq_bearer = [], rq_caller = [], rq_intent = [],
      rq_query = [], rq_ticker = [], rq_side = [], rq_size = []\<rparr>"

definition dec_request :: "request decoder" where
  "dec_request = dec_struct
     [field_into ''skill'' dec_string rq_skill rq_skill_update,
      field_into ''tool'' dec_string rq_tool rq_tool_update,
      field_into ''args'' dec_raw rq_args rq_args_update,
      field_into ''bearer'' dec_string rq_bearer rq_bearer_update,
      field_into ''caller'' dec_string rq_caller rq_caller_update,
      field_into ''intent'' dec_string rq_intent rq_intent_update,
      field_into ''query'' dec_string rq_query rq_query_update,
      field_into ''ticker'' dec_string rq_ticker rq_ticker_update,
      field_into ''side'' dec_string rq_side rq_side_update,
      field_into ''size'' dec_string rq_size rq_size_update]"

definition unmarshal_request :: "string \<Rightarrow> request option" where
  "unmarshal_request raw =
     (case json_parse raw of None \<Rightarrow> None | Some v \<Rightarrow> dec_request zero_request v)"

text \<open>\<open>omitempty\<close> drops an empty string and a nil result; a result that is there is kept even
  when it is the empty string.\<close>

record response =
  rp_skill :: string
  rp_tool :: string
  rp_ok :: bool
  rp_result :: "json option"
  rp_error :: string

definition unless_empty :: "string \<Rightarrow> string \<Rightarrow> members" where
  "unless_empty f s = (if s = [] then [] else [(f, J_Str s)])"

definition response_json :: "response \<Rightarrow> json" where
  "response_json r = J_Obj
     ([(''skill'', J_Str (rp_skill r))] @ unless_empty ''tool'' (rp_tool r)
      @ [(''ok'', J_Bool (rp_ok r))]
      @ (case rp_result r of None \<Rightarrow> [] | Some v \<Rightarrow> [(''result'', v)])
      @ unless_empty ''error'' (rp_error r))"

section \<open>Authentication of the caller\<close>

text \<open>\<open>ServiceParams.Get\<close> is the library's lookup of a header.\<close>

datatype part = Text_Part string | Other_Part

record exec_ctx =
  xc_message :: "part option list option"
  xc_stored_task :: bool
  xc_params :: "(string \<Rightarrow> string list option) option"

definition header_value :: "exec_ctx option \<Rightarrow> string \<Rightarrow> string" where
  "header_value xc key =
     (case xc of
        None \<Rightarrow> []
      | Some xc \<Rightarrow>
          (case xc_params xc of
             None \<Rightarrow> []
           | Some get \<Rightarrow> (case get key of Some (v # _) \<Rightarrow> v | _ \<Rightarrow> [])))"

definition bearer_prefix :: string where
  "bearer_prefix = ''bearer ''"

definition bearer_from_header :: "exec_ctx option \<Rightarrow> string" where
  "bearer_from_header xc =
     (let v = header_value xc ''authorization''
      in if v = [] then []
         else if length v > length bearer_prefix
             \<and> equal_fold (take (length bearer_prefix) v) bearer_prefix
         then trim_space (drop (length bearer_prefix) v)
         else [])"

text \<open>The store is a snapshot: what it holds when the request arrives.\<close>

record auth_resolver =
  ar_tenants :: "tenant_store option"

definition attach :: "time \<Rightarrow> auth_resolver \<Rightarrow> exec_ctx \<Rightarrow> request \<Rightarrow> call_ctx \<Rightarrow> call_ctx" where
  "attach now r xc req ctx =
     (let bearer = bearer_from_header (Some xc);
          bearer = (if bearer = [] then rq_bearer req else bearer)
      in case ar_tenants r of
           None \<Rightarrow> ctx
         | Some ts \<Rightarrow>
             if bearer = [] then ctx
             else (case lookup_by_bearer now ts bearer of
                 Inl _ \<Rightarrow> ctx
               | Inr rec \<Rightarrow> ctx\<lparr>cx_tenant := Some \<lparr>tn_id = tr_tenant_id rec, tn_owner = tr_owner rec\<rparr>\<rparr>))"

section \<open>Results and their texts\<close>

fun part_text :: "part \<Rightarrow> string" where
  "part_text (Text_Part s) = s"
| "part_text Other_Part = []"

definition message_text :: "part option list option \<Rightarrow> string" where
  "message_text msg =
     (case msg of
        None \<Rightarrow> []
      | Some parts \<Rightarrow>
          trim_space (concat (map (\<lambda>p. case p of None \<Rightarrow> [] | Some p \<Rightarrow> part_text p) parts)))"

text \<open>
  A reflected schema is a typed pointer in an interface: \<open>omitempty\<close> keeps it even when the
  pointer is nil, and it is encoded as \<open>null\<close>.
\<close>

fun schema_json :: "json schema_value \<Rightarrow> json" where
  "schema_json (Raw_Schema s) = s"
| "schema_json (Reflected_Schema (Some s)) = s"
| "schema_json (Reflected_Schema None) = J_Null"

definition descriptor_json :: "json tool_descriptor \<Rightarrow> json" where
  "descriptor_json d = J_Obj
     [(''skill'', J_Str (td_skill d)), (''tool'', J_Str (td_tool d)),
      (''input_schema'', schema_json (td_schema d))]"

definition status_json :: "tx_status_output \<Rightarrow> json" where
  "status_json s = J_Obj
     ([(''tx_hash'', J_Str (to_tx_hash s)), (''status'', J_Str (to_status s))]
      @ (if to_block_number s = 0 then [] else [(''block_number'', J_Num (show_int (to_block_number s)))])
      @ (if to_gas_used s = 0 then [] else [(''gas_used'', J_Num (show_nat (to_gas_used s)))]))"

text \<open>Text that is a JSON object or array is handed on as the value it denotes.\<close>

definition structured_text :: "(string \<Rightarrow> string option) \<Rightarrow> string \<Rightarrow> json" where
  "structured_text ft s =
     (case unmarshal_any ft s of
        Some (J_Obj ms) \<Rightarrow> J_Obj ms
      | Some (J_Arr vs) \<Rightarrow> J_Arr vs
      | _ \<Rightarrow> J_Str s)"

fun structured_result :: "(string \<Rightarrow> string option) \<Rightarrow> json op_result \<Rightarrow> json" where
  "structured_result ft (Op_Text s) = structured_text ft s"
| "structured_result ft (Op_Relayed h) = J_Obj [(''tx_hash'', J_Str h)]"
| "structured_result ft (Op_Status s) = status_json s"
| "structured_result ft (Op_Listing ds) = J_Obj [(''tools'', J_Arr (map descriptor_json ds))]"

fun relay_error_text :: "relay_error \<Rightarrow> string" where
  "relay_error_text Missing_Client_Id = ''missing client_id''"
| "relay_error_text (Decode_Raw_Tx e) = ''decode raw_tx_hex: '' @ e"
| "relay_error_text (Decode_Signed_Tx e) = ''decode signed evm tx: '' @ e"
| "relay_error_text (Broadcast_Failed e) = ''broadcast evm tx: '' @ e"
| "relay_error_text (Receipt_Failed h e) = ''evm receipt '' @ h @ '': '' @ e"

text \<open>
  The wording of the JSON decoder's own errors is the library's: \<open>ae_request_error\<close> for the
  envelope, \<open>ae_args_error\<close> for the arguments of a tool.
\<close>

record a2a_env =
  ae_float :: "string \<Rightarrow> string option"
  ae_request_error :: "string \<Rightarrow> string"
  ae_args_error :: "string \<Rightarrow> raw_message \<Rightarrow> string"

fun op_error_text :: "string \<Rightarrow> op_error \<Rightarrow> string" where
  "op_error_text json_err Decode_Args = ''decode args: '' @ json_err"
| "op_error_text json_err Decode_Listing_Input = json_err"
| "op_error_text json_err (Proxy_Failed e) = mcp_error_text e"
| "op_error_text json_err (Relay_Failed e) = relay_error_text e"

section \<open>Handling a request\<close>

type_synonym 'g intent_runner = "string \<Rightarrow> 'g \<Rightarrow> 'g \<times> (string + string)"

record 'g executor =
  ex_registry :: "('g, json) registry"
  ex_authr :: "auth_resolver option"
  ex_intent :: "'g intent_runner option"

definition select_op :: "('g, json) registry \<Rightarrow> request \<Rightarrow> string + ('g, json) op" where
  "select_op r req =
     (if rq_skill req = [] \<or> rq_tool req = [] then Inl ''request must name a skill and tool''
      else (case lookup_op r (rq_tool req) of
          None \<Rightarrow> Inl (''unknown tool '' @ go_quote (rq_tool req))
        | Some op \<Rightarrow>
            if op_skill op \<noteq> rq_skill req
            then Inl (''tool '' @ go_quote (rq_tool req) @ '' belongs to skill '' @ go_quote (op_skill op)
                      @ '', not '' @ go_quote (rq_skill req))
            else Inr op))"

definition request_ctx :: "'g executor \<Rightarrow> time \<Rightarrow> exec_ctx \<Rightarrow> request \<Rightarrow> call_ctx" where
  "request_ctx ex now xc req =
     (let ctx = \<lparr>cx_tenant = None, cx_caller = None\<rparr>;
          ctx = (case ex_authr ex of None \<Rightarrow> ctx | Some r \<Rightarrow> attach now r xc req ctx)
      in ctx\<lparr>cx_caller := with_caller (cx_caller ctx) (rq_caller req)\<rparr>)"

definition respond :: "a2a_env \<Rightarrow> request \<Rightarrow> op_error + json op_result \<Rightarrow> response" where
  "respond env req r =
     (let resp = \<lparr>rp_skill = rq_skill req, rp_tool = rq_tool req, rp_ok = False, rp_result = None, rp_error = []\<rparr>
      in case r of
           Inl e \<Rightarrow> resp\<lparr>rp_error := op_error_text (ae_args_error env (rq_tool req) (rq_args req)) e\<rparr>
         | Inr x \<Rightarrow> resp\<lparr>rp_ok := True, rp_result := Some (structured_result (ae_float env) x)\<rparr>)"

definition handle ::
    "a2a_env \<Rightarrow> 'g executor \<Rightarrow> time \<Rightarrow> exec_ctx \<Rightarrow> 'g \<Rightarrow> 'g \<times> (string + string)" where
  "handle env ex now xc g =
     (let raw = message_text (xc_message xc)
      in case unmarshal_request raw of
           None \<Rightarrow>
             (case ex_intent ex of
                None \<Rightarrow> (g, Inl (''request must be JSON naming a skill: '' @ ae_request_error env raw))
              | Some runner \<Rightarrow> runner raw g)
         | Some req \<Rightarrow>
             (let intent = trim_space (rq_intent req)
              in if intent \<noteq> []
                 then (case ex_intent ex of
                     None \<Rightarrow> (g, Inl ''natural-language tasks are not configured'')
                   | Some runner \<Rightarrow> runner intent g)
                 else (case select_op (ex_registry ex) req of
                     Inl e \<Rightarrow> (g, Inl e)
                   | Inr op \<Rightarrow>
                       (case call_op (ex_registry ex) op (request_ctx ex now xc req) (rq_args req) g of
                          (g, r) \<Rightarrow> (g, Inr (json_text (response_json (respond env req r))))))))"

section \<open>Tasks\<close>

text \<open>
  The event sequence an execution yields. \<open>accepts k\<close> is whether the consumer wants more after
  the \<open>k\<close>-th event; \<open>Broken\<close> is the pair of no event and an error.
\<close>

datatype task_event =
    Submitted "part option list"
  | Working
  | Completed string
  | Canceled
  | Broken string

definition execute ::
    "a2a_env \<Rightarrow> 'g executor \<Rightarrow> time \<Rightarrow> exec_ctx \<Rightarrow> (nat \<Rightarrow> bool) \<Rightarrow> 'g \<Rightarrow> 'g \<times> task_event list" where
  "execute env ex now xc accepts g =
     (case xc_message xc of
        None \<Rightarrow> (g, [Broken ''empty message''])
      | Some parts \<Rightarrow>
          (let sent = (if xc_stored_task xc then [] else [Submitted parts])
           in if sent \<noteq> [] \<and> \<not> accepts (length sent) then (g, sent)
              else (let sent = sent @ [Working]
                    in if \<not> accepts (length sent) then (g, sent)
                       else (case handle env ex now xc g of
                           (g, r) \<Rightarrow>
                             (let result = (case r of Inl e \<Rightarrow> ''error: '' @ e | Inr s \<Rightarrow> s)
                              in (g, sent @ [Completed result]))))))"

definition cancel_task :: "exec_ctx \<Rightarrow> task_event list" where
  "cancel_task xc = [Canceled]"

section \<open>The Agent Card\<close>

record agent_skill =
  sk_id :: string
  sk_name :: string
  sk_desc :: string
  sk_tags :: "string list"

record card_identity =
  ci_name :: string
  ci_version :: string
  ci_description :: string
  ci_overrides :: "(string, string) gomap"

record agent_card =
  ac_name :: string
  ac_description :: string
  ac_version :: string
  ac_interface :: "string \<times> string"
  ac_input_modes :: "string list"
  ac_output_modes :: "string list"
  ac_streaming :: bool
  ac_provider :: "string \<times> string"
  ac_skills :: "agent_skill list"

definition skill_metas :: "agent_skill list" where
  "skill_metas =
     [\<lparr>sk_id = skill_auth, sk_name = ''SVP-Chain Self-Service Auth'',
       sk_desc = ''Wallet-signature authentication for EVM Agent operations.'',
       sk_tags = [''auth'', ''bearer'', ''wallet-signature'']\<rparr>,
      \<lparr>sk_id = skill_meta, sk_name = ''SVP-Chain Agent Self-Description'',
       sk_desc = ''Discovery of the current startup-synchronized tool catalog and argument schemas.'',
       sk_tags = [''discovery'', ''schema'', ''read-only'']\<rparr>,
      \<lparr>sk_id = skill_evm, sk_name = ''SVP-Chain EVM DeFi'',
       sk_desc = ''Private DeFi MCP tools synchronized at startup, plus raw transaction broadcast and status.'',
       sk_tags = [''evm'', ''defi'', ''mcp'']\<rparr>]"

definition skill_text :: "string \<Rightarrow> string list \<Rightarrow> string" where
  "skill_text desc tools = desc @ '' Tools: '' @ join '', '' tools @ ''.''"

definition card_skill :: "card_identity \<Rightarrow> (string, string list) gomap \<Rightarrow> agent_skill \<Rightarrow> agent_skill list" where
  "card_skill ident groups meta =
     (case map_of groups (sk_id meta) of
        None \<Rightarrow> []
      | Some [] \<Rightarrow> []
      | Some tools \<Rightarrow>
          (let desc = (case map_of (ci_overrides ident) (sk_id meta) of
                 None \<Rightarrow> sk_desc meta
               | Some override \<Rightarrow> if override \<noteq> [] then override else sk_desc meta)
           in [meta\<lparr>sk_desc := skill_text desc tools\<rparr>]))"

definition build_agent_card :: "card_identity \<Rightarrow> string \<Rightarrow> ('g, 'j) registry \<Rightarrow> agent_card" where
  "build_agent_card ident public_url r =
     \<lparr>ac_name = ci_name ident, ac_description = ci_description ident, ac_version = ci_version ident,
      ac_interface = (public_url @ ''/invoke'', ''JSONRPC''),
      ac_input_modes = [''application/json'', ''text/plain''], ac_output_modes = [''application/json''],
      ac_streaming = True, ac_provider = (''svpchain'', ''https://www.svpchain.org''),
      ac_skills = concat (map (card_skill ident (by_skill r)) skill_metas)\<rparr>"

section \<open>The server\<close>

text \<open>
  \<open>StartFullFor\<close> waits for whichever half stops first, stops the other one and reports. The
  routes are those of an exact-path mux; the card's path is the library's.
\<close>

datatype stopped = Cache_Stopped "string option" | Serve_Stopped "string option"

fun start_full :: "stopped \<Rightarrow> string option" where
  "start_full (Cache_Stopped (Some e)) = Some (''markets cache: '' @ e)"
| "start_full (Cache_Stopped None) = None"
| "start_full (Serve_Stopped e) = e"

datatype endpoint = Invoke | Card_Document | Health

definition route :: "string \<Rightarrow> string \<Rightarrow> endpoint option" where
  "route card_path path =
     map_of [(''/invoke'', Invoke), (card_path, Card_Document), (''/healthz'', Health)] path"

datatype serve_end = Server_Closed | Serve_Failed string

definition serve :: "string \<Rightarrow> string option \<Rightarrow> serve_end \<Rightarrow> string option" where
  "serve listen_addr listen_err ended =
     (case listen_err of
        Some e \<Rightarrow> Some (''listen '' @ listen_addr @ '': '' @ e)
      | None \<Rightarrow> (case ended of Server_Closed \<Rightarrow> None | Serve_Failed e \<Rightarrow> Some e))"

section \<open>Requests and what they name\<close>

lemma select_op_Inr:
  "select_op r req = Inr op \<longleftrightarrow>
     rq_skill req \<noteq> [] \<and> rq_tool req \<noteq> [] \<and> lookup_op r (rq_tool req) = Some op \<and> op_skill op = rq_skill req"
  by (auto simp: select_op_def split: option.splits if_splits)

text \<open>A structured request: one that decodes and asks for no natural-language task.\<close>

definition structured :: "exec_ctx \<Rightarrow> request \<Rightarrow> bool" where
  "structured xc req \<longleftrightarrow>
     unmarshal_request (message_text (xc_message xc)) = Some req \<and> trim_space (rq_intent req) = []"

lemma handle_structured:
  assumes "structured xc req"
  shows "handle env ex now xc g =
     (case select_op (ex_registry ex) req of
        Inl e \<Rightarrow> (g, Inl e)
      | Inr op \<Rightarrow>
          (case call_op (ex_registry ex) op (request_ctx ex now xc req) (rq_args req) g of
             (g, r) \<Rightarrow> (g, Inr (json_text (response_json (respond env req r))))))"
  using assms by (simp add: handle_def structured_def)

lemma handle_Inr:
  assumes "structured xc req" and "handle env ex now xc g = (g', Inr reply)"
  obtains op r where "select_op (ex_registry ex) req = Inr op"
    and "call_op (ex_registry ex) op (request_ctx ex now xc req) (rq_args req) g = (g', r)"
    and "reply = json_text (response_json (respond env req r))"
  using assms by (auto simp: handle_structured split: sum.splits prod.splits)

lemma handle_Inl:
  assumes "structured xc req" and "handle env ex now xc g = (g', Inl e)"
  shows "g' = g \<and> select_op (ex_registry ex) req = Inl e"
  using assms by (auto simp: handle_structured split: sum.splits prod.splits)

section \<open>Replies\<close>

text \<open>How a caller reads a reply: the same struct, with the result kept as it is.\<close>

fun dec_bool :: "bool decoder" where
  "dec_bool cur (J_Bool b) = Some b"
| "dec_bool cur J_Null = Some cur"
| "dec_bool cur _ = None"

definition zero_response :: response where
  "zero_response = \<lparr>rp_skill = [], rp_tool = [], rp_ok = False, rp_result = None, rp_error = []\<rparr>"

definition dec_response :: "response decoder" where
  "dec_response = dec_struct
     [field_into ''skill'' dec_string rp_skill rp_skill_update,
      field_into ''tool'' dec_string rp_tool rp_tool_update,
      field_into ''ok'' dec_bool rp_ok rp_ok_update,
      field_into ''result'' dec_raw rp_result rp_result_update,
      field_into ''error'' dec_string rp_error rp_error_update]"

lemma fold_response_names:
  "fold_name ''skill'' = ''skill''" "fold_name ''tool'' = ''tool''" "fold_name ''ok'' = ''ok''"
  "fold_name ''result'' = ''result''" "fold_name ''error'' = ''error''"
  by code_simp+

lemma dec_response_json: "dec_response zero_response (response_json r) = Some r"
  by (cases r; cases "rp_tool r = []"; cases "rp_result r"; cases "rp_error r = []")
    (simp_all add: dec_response_def dec_struct_def zero_response_def response_json_def field_into_def
      unless_empty_def fold_response_names dec_raw_def)

lemma valid_response_names:
  "valid_utf8 ''skill'' = ''skill''" "valid_utf8 ''tool'' = ''tool''" "valid_utf8 ''ok'' = ''ok''"
  "valid_utf8 ''result'' = ''result''" "valid_utf8 ''error'' = ''error''"
  by code_simp+

section \<open>The type of a decoded request\<close>

text \<open>The arguments are one level below the envelope.\<close>

definition args_wf :: "raw_message \<Rightarrow> bool" where
  "args_wf raw \<longleftrightarrow> (case raw of None \<Rightarrow> True | Some v \<Rightarrow> wf_json (nat max_nesting - 1) v)"

definition wf_request :: "request \<Rightarrow> bool" where
  "wf_request req \<longleftrightarrow> list_all utf8
      [rq_skill req, rq_tool req, rq_bearer req, rq_caller req, rq_intent req, rq_query req, rq_ticker req,
       rq_side req, rq_size req]
    \<and> args_wf (rq_args req)"

lemma dec_raw_keeps: "keeps (nat max_nesting - 1) args_wf dec_raw"
  by (auto simp: keeps_def dec_raw_def args_wf_def)

lemma dec_request_wf:
  assumes "dec_request zero_request v = Some req" and "wf_json (nat max_nesting) v"
  shows "wf_request req"
proof -
  have zero: "wf_request zero_request" by (simp add: wf_request_def zero_request_def args_wf_def)
  show ?thesis
  proof (cases v)
    case (J_Obj ms)
    with assms(2) have ms: "wf_members (nat max_nesting - 1) ms" by (simp only: wf_json_Obj)
    note fields = field_into_keeps [OF dec_string_keeps ms] field_into_keeps [OF dec_raw_keeps ms]
    show ?thesis
      by (rule dec_struct_keeps [where Q = wf_request, OF _ zero assms(1) [unfolded J_Obj dec_request_def]],
          unfold list.pred_inject, intro conjI TrueI fields, simp_all add: wf_request_def)
  qed (use assms(1) zero in \<open>simp_all add: dec_request_def dec_struct_def\<close>)
qed

lemma decode_args_wf:
  assumes "floats_ok ft" and "wf_json (Suc b) v" and "decode_args ft v = Some m"
  shows "gomap_ok m \<and> wf_members b m"
proof -
  obtain m' where m': "dec_map [] v = Some m'" and m: "m = map (\<lambda>(k, x). (k, any_value ft x)) m'"
    using assms(3) by (auto simp: decode_args_def split: if_splits)
  have "gomap_ok m'" by (rule dec_map_ok [OF _ m']) simp
  moreover have "wf_members b m'"
  proof (cases v)
    case (J_Obj ms)
    with assms(2) have "wf_members b ms" by (simp only: wf_json_Obj) simp
    with m' J_Obj show ?thesis using wf_members_fold [of b ms "[]"] by (simp add: wf_members_def)
  qed (use m' in \<open>auto simp: wf_members_def\<close>)
  ultimately show ?thesis
    by (auto simp: m wf_members_def list_all_iff gomap_ok_def comp_def case_prod_beta any_value_wf [OF assms(1)])
qed

section \<open>What an envelope says\<close>

definition text_fields :: "string list" where
  "text_fields = [''skill'', ''tool'', ''bearer'', ''caller'', ''intent'', ''query'', ''ticker'', ''side'', ''size'']"

definition envelope :: "members \<Rightarrow> request" where
  "envelope ms =
     \<lparr>rq_skill = text_member ''skill'' ms, rq_tool = text_member ''tool'' ms, rq_args = raw_member ''args'' ms,
      rq_bearer = text_member ''bearer'' ms, rq_caller = text_member ''caller'' ms,
      rq_intent = text_member ''intent'' ms, rq_query = text_member ''query'' ms,
      rq_ticker = text_member ''ticker'' ms, rq_side = text_member ''side'' ms, rq_size = text_member ''size'' ms\<rparr>"

lemma dec_request_Obj:
  "dec_request zero_request (J_Obj ms) =
     (if list_all (\<lambda>f. all_text f ms) text_fields then Some (envelope ms) else None)"
  by (simp add: dec_request_def dec_struct_def field_into_def zero_request_def dec_field_string dec_field_raw
      text_fields_def envelope_def)

text \<open>What a text answer is read as: the value of a JSON object or array, or the text itself.\<close>

definition read_text :: "(string \<Rightarrow> string option) \<Rightarrow> string \<Rightarrow> json" where
  "read_text ft s =
     (case json_parse s of
        Some (J_Obj ms) \<Rightarrow> if any_ok ft (J_Obj ms) then any_value ft (J_Obj ms) else J_Str s
      | Some (J_Arr vs) \<Rightarrow> if any_ok ft (J_Arr vs) then any_value ft (J_Arr vs) else J_Str s
      | _ \<Rightarrow> J_Str s)"

lemma structured_text_read: "structured_text ft s = read_text ft s"
  by (auto simp: structured_text_def read_text_def unmarshal_any_def split: option.splits json.splits)

section \<open>Any reply reads back\<close>

definition clean_response :: "response \<Rightarrow> response" where
  "clean_response r =
     \<lparr>rp_skill = valid_utf8 (rp_skill r), rp_tool = valid_utf8 (rp_tool r), rp_ok = rp_ok r,
      rp_result = map_option clean (rp_result r), rp_error = valid_utf8 (rp_error r)\<rparr>"

lemma clean_response_json: "clean (response_json r) = response_json (clean_response r)"
  by (simp add: response_json_def clean_response_def unless_empty_def valid_response_names split: option.splits)

lemma response_fits:
  assumes "0 < b" and "\<And>v. rp_result r = Some v \<Longrightarrow> fits (b - 1) v"
  shows "fits b (response_json r)"
  using assms by (auto simp: response_json_def unless_empty_def split: option.splits)

lemma reply_reads_back:
  assumes "\<And>v. rp_result r = Some v \<Longrightarrow> fits (nat max_nesting - 1) v"
  shows "\<exists>v. json_parse (json_text (response_json r)) = Some v \<and> dec_response zero_response v = Some (clean_response r)"
proof -
  have "fits (nat max_nesting) (response_json r)"
    by (rule response_fits [OF _ assms]) (simp_all add: max_nesting_def)
  then show ?thesis
    by (simp add: json_parse_clean clean_response_json dec_response_json)
qed

lemma status_fits: "fits (Suc b) (status_json s)"
  by (simp add: status_json_def scan_number_show)

lemma schema_fits:
  assumes "\<And>s. schema = Raw_Schema s \<or> schema = Reflected_Schema (Some s) \<Longrightarrow> fits b s"
  shows "fits b (schema_json schema)"
  using assms by (cases schema rule: schema_json.cases) simp_all

lemma listing_fits:
  assumes "\<And>d s. d \<in> set ds \<Longrightarrow> td_schema d = Raw_Schema s \<or> td_schema d = Reflected_Schema (Some s) \<Longrightarrow> fits b s"
  shows "fits (Suc (Suc (Suc b))) (J_Obj [(''tools'', J_Arr (map descriptor_json ds))])"
proof -
  have "fits b (schema_json (td_schema d))" if "d \<in> set ds" for d
    by (rule schema_fits) (use assms [OF that] in blast)
  then show ?thesis by (auto simp: list_all_iff descriptor_json_def)
qed

text \<open>A text answer fits when the JSON in it does; what is not JSON is a string.\<close>

lemma read_text_fits:
  assumes "floats_ok ft" and "\<And>v. json_parse s = Some v \<Longrightarrow> fits b v"
  shows "fits b (read_text ft s)"
proof -
  have read: "fits b (any_value ft v)" if v: "json_parse s = Some v" for v
    using wf_json_fits [OF any_value_wf [OF assms(1) fits_wf_json [OF assms(2) [OF v] json_parse_wf [OF v]]]] ..
  then show ?thesis
    by (auto simp: read_text_def simp del: any_value.simps split: option.split json.split)
qed

section \<open>Tasks\<close>

text \<open>
  The task protocol: a task is submitted, worked on and completed, and may be canceled until it
  has ended. A stored task is in any state that is not final.
\<close>

datatype task_state = No_Task | Task_Submitted | Task_Working | Task_Completed | Task_Canceled

definition final :: "task_state \<Rightarrow> bool" where
  "final s \<longleftrightarrow> s = Task_Completed \<or> s = Task_Canceled"

inductive task_step :: "task_state \<Rightarrow> task_event \<Rightarrow> task_state \<Rightarrow> bool" where
  submit: "task_step No_Task (Submitted m) Task_Submitted"
| work: "s \<noteq> No_Task \<Longrightarrow> \<not> final s \<Longrightarrow> task_step s Working Task_Working"
| complete: "task_step Task_Working (Completed reply) Task_Completed"
| cancel: "s \<noteq> No_Task \<Longrightarrow> \<not> final s \<Longrightarrow> task_step s Canceled Task_Canceled"

inductive task_run :: "task_state \<Rightarrow> task_event list \<Rightarrow> task_state \<Rightarrow> bool" where
  stop: "task_run s [] s"
| step: "task_step s e s' \<Longrightarrow> task_run s' es s'' \<Longrightarrow> task_run s (e # es) s''"

inductive_cases task_stepE: "task_step s e s'"
inductive_simps task_run_simps [simp]: "task_run s [] s'" "task_run s (e # es) s'"
inductive_simps task_step_simps [simp]:
  "task_step s (Submitted m) s'" "task_step s Working s'" "task_step s (Completed r) s'"
  "task_step s Canceled s'" "task_step s (Broken e) s'"

text \<open>An ended task has no further events.\<close>

lemma final_stuck: "final s \<Longrightarrow> \<not> task_step s e s'"
  by (auto simp: final_def elim!: task_stepE)

definition task_before :: "exec_ctx \<Rightarrow> task_state \<Rightarrow> bool" where
  "task_before xc s \<longleftrightarrow> (if xc_stored_task xc then s \<noteq> No_Task \<and> \<not> final s else s = No_Task)"

lemma task_run_append:
  "task_run s (es @ es') s'' \<longleftrightarrow> (\<exists>s'. task_run s es s' \<and> task_run s' es' s'')"
  by (induction es arbitrary: s) auto

text \<open>What is sent before any work, and the text of the answer.\<close>

definition task_opening :: "exec_ctx \<Rightarrow> part option list \<Rightarrow> task_event list" where
  "task_opening xc parts = (if xc_stored_task xc then [] else [Submitted parts])"

fun reply_text :: "string + string \<Rightarrow> string" where
  "reply_text (Inl e) = ''error: '' @ e"
| "reply_text (Inr s) = s"

lemma reply_text_case: "(case r of Inl e \<Rightarrow> ''error: '' @ e | Inr s \<Rightarrow> s) = reply_text r"
  by (cases r) simp_all

lemma task_opening_run:
  assumes "task_before xc s"
  obtains s1 where "task_run s (task_opening xc parts) s1" and "s1 \<noteq> No_Task" and "\<not> final s1"
proof (cases "xc_stored_task xc")
  case True
  with assms that [of s] show ?thesis by (simp add: task_before_def task_opening_def)
next
  case False
  with assms that [of Task_Submitted] show ?thesis by (simp add: task_before_def task_opening_def final_def)
qed

lemma execute_shape:
  assumes "xc_message xc = Some parts"
  shows "execute env ex now xc accepts g =
     (if \<not> xc_stored_task xc \<and> \<not> accepts 1 then (g, task_opening xc parts)
      else if \<not> accepts (if xc_stored_task xc then 1 else 2) then (g, task_opening xc parts @ [Working])
      else (fst (handle env ex now xc g),
         task_opening xc parts @ [Working, Completed (reply_text (snd (handle env ex now xc g)))]))"
proof -
  have two: "Suc (Suc 0) = 2" by simp
  show ?thesis
    using assms
    by (cases "handle env ex now xc g") (simp add: execute_def task_opening_def reply_text_case Let_def two)
qed

lemma execute_cases [consumes 1, case_names unheard working finished]:
  assumes "xc_message xc = Some parts"
  obtains
    "execute env ex now xc accepts g = (g, task_opening xc parts)" "\<not> xc_stored_task xc" "\<not> accepts 1"
  | "execute env ex now xc accepts g = (g, task_opening xc parts @ [Working])"
      "if xc_stored_task xc then \<not> accepts 1 else accepts 1 \<and> \<not> accepts 2"
  | "execute env ex now xc accepts g = (fst (handle env ex now xc g),
       task_opening xc parts @ [Working, Completed (reply_text (snd (handle env ex now xc g)))])"
      "if xc_stored_task xc then accepts 1 else accepts 1 \<and> accepts 2"
  unfolding execute_shape [OF assms] by (cases "xc_stored_task xc"; cases "accepts 1"; cases "accepts 2") auto

section \<open>The card\<close>

lemma card_skill_eq:
  assumes "registry_ok r"
  shows "card_skill ident (by_skill r) meta =
    (if tools_of r (sk_id meta) = {} then []
     else [meta\<lparr>sk_desc :=
       (case map_of (ci_overrides ident) (sk_id meta) of
          Some d \<Rightarrow> if d \<noteq> [] then d else sk_desc meta | None \<Rightarrow> sk_desc meta)
       @ '' Tools: '' @ join '', '' (sorted_list_of_set (tools_of r (sk_id meta))) @ ''.''\<rparr>])"
proof (cases "map_of (by_skill r) (sk_id meta)")
  case None
  with by_skill_groups [OF assms, of "sk_id meta"] show ?thesis by (simp add: card_skill_def)
next
  case (Some ts)
  with by_skill_groups [OF assms, of "sk_id meta"]
  have ts: "sorted ts" "distinct ts" "set ts = tools_of r (sk_id meta)" "ts \<noteq> []" by simp_all
  then have "sorted_list_of_set (tools_of r (sk_id meta)) = ts"
    by (metis sorted_list_of_set.idem_if_sorted_distinct)
  moreover have "tools_of r (sk_id meta) \<noteq> {}" using ts by auto
  ultimately show ?thesis
    using Some ts(4) by (cases ts) (auto simp: card_skill_def skill_text_def Let_def split: option.splits)
qed

section \<open>Properties\<close>

text \<open>C17: A structured request is answered exactly when \<open>list_tools\<close> advertises the tool it names
  under the skill it names; every other request is refused and changes nothing.\<close>

theorem answered_iff_advertised:
  assumes "registry_ok (ex_registry ex)" and "structured xc req"
  shows "(is_ok (snd (handle env ex now xc g)) \<longleftrightarrow>
      rq_skill req \<noteq> [] \<and> rq_tool req \<noteq> [] \<and>
      (\<exists>d\<in>set (list_tools [] (ex_registry ex)). td_skill d = rq_skill req \<and> td_tool d = rq_tool req))
    \<and> (\<not> is_ok (snd (handle env ex now xc g)) \<longrightarrow> fst (handle env ex now xc g) = g)"
proof
  have "is_ok (snd (handle env ex now xc g)) \<longleftrightarrow> is_ok (select_op (ex_registry ex) req)"
    using assms(2) by (auto simp: handle_structured split: sum.splits prod.splits)
  also have "\<dots> \<longleftrightarrow> rq_skill req \<noteq> [] \<and> rq_tool req \<noteq> [] \<and>
      (\<exists>op. lookup_op (ex_registry ex) (rq_tool req) = Some op \<and> op_skill op = rq_skill req)"
    by (auto simp: is_ok_iff select_op_Inr)
  finally show "is_ok (snd (handle env ex now xc g)) \<longleftrightarrow>
      rq_skill req \<noteq> [] \<and> rq_tool req \<noteq> [] \<and>
      (\<exists>d\<in>set (list_tools [] (ex_registry ex)). td_skill d = rq_skill req \<and> td_tool d = rq_tool req)"
    by (simp add: listed_iff [OF assms(1), symmetric] list_tools_def)
  show "\<not> is_ok (snd (handle env ex now xc g)) \<longrightarrow> fst (handle env ex now xc g) = g"
    using assms(2) by (auto simp: handle_structured split: sum.splits prod.splits)
qed

text \<open>An agent with nothing but \<open>list_tools\<close>, and a request for it.\<close>

definition meta_executor :: "nat executor" where
  "meta_executor =
     \<lparr>ex_registry = (case register_meta None new_registry of Inr r \<Rightarrow> r | Inl _ \<Rightarrow> []),
      ex_authr = None, ex_intent = None\<rparr>"

definition meta_text :: string where
  "meta_text = json_text (J_Obj [(''skill'', J_Str skill_meta), (''tool'', J_Str ''list_tools'')])"

definition meta_request :: exec_ctx where
  "meta_request = \<lparr>xc_message = Some [Some (Text_Part meta_text)], xc_stored_task = False, xc_params = None\<rparr>"

definition literal_float :: "string \<Rightarrow> string option" where
  "literal_float l = (if scan_number l = Some (l, []) then Some l else None)"

lemma literal_floats: "floats_ok literal_float"
  by (simp add: floats_ok_def literal_float_def)

definition plain_env :: a2a_env where
  "plain_env = \<lparr>ae_float = literal_float, ae_request_error = (\<lambda>_. ''bad''), ae_args_error = (\<lambda>_ _. ''bad'')\<rparr>"

definition meta_named :: request where
  "meta_named = zero_request\<lparr>rq_skill := skill_meta, rq_tool := ''list_tools''\<rparr>"

lemma meta_structured: "structured meta_request meta_named"
  unfolding structured_def by code_simp

lemma meta_registry_ok: "registry_ok (ex_registry meta_executor)"
  by (simp add: meta_executor_def register_meta_def add_op_def new_registry_def registry_ok_def gomap_ok_def)

lemma answered_iff_advertised_witness:
  "is_ok (snd (handle plain_env meta_executor 0 meta_request 7))"
proof -
  have "\<exists>d\<in>set (list_tools [] (ex_registry meta_executor)).
      td_skill d = rq_skill meta_named \<and> td_tool d = rq_tool meta_named"
    "rq_skill meta_named \<noteq> []" "rq_tool meta_named \<noteq> []"
    by (simp_all add: meta_named_def meta_executor_def register_meta_def add_op_def new_registry_def
        list_tools_def list_ops_def skill_meta_def)
  then show ?thesis
    using answered_iff_advertised [OF meta_registry_ok meta_structured, of plain_env 0 7] by blast
qed

text \<open>C20: An execution yields a prefix of one sequence of events: the task's submission, unless the task is
  stored already, the start of the work, and the completion with the answer of the request. It goes on
  exactly as long as the consumer accepts: an event comes after another only when that one was
  accepted, and the sequence ends early only at an event that was not. The request is handled exactly
  when its answer is yielded; otherwise nothing is done. The events are a run of the task protocol
  from the state the task was in, and cancelling brings any live task to its end.\<close>

theorem execution_follows_the_protocol:
  assumes "xc_message xc = Some parts" and "task_before xc s" and "execute env ex now xc accepts g = (g', evs)"
    and "all = (if xc_stored_task xc then [] else [Submitted parts])
      @ [Working, Completed (case snd (handle env ex now xc g) of Inl e \<Rightarrow> ''error: '' @ e | Inr reply \<Rightarrow> reply)]"
  shows "evs = take (length evs) all \<and> evs \<noteq> []
    \<and> (\<forall>k. 0 < k \<and> k < length evs \<longrightarrow> accepts k)
    \<and> (evs \<noteq> all \<longrightarrow> \<not> accepts (length evs) \<and> g' = g)
    \<and> (evs = all \<longrightarrow> g' = fst (handle env ex now xc g))
    \<and> (\<exists>s'. task_run s evs s' \<and> (s' = Task_Completed \<longleftrightarrow> evs = all))
    \<and> (s \<noteq> No_Task \<longrightarrow> task_run s (cancel_task xc) Task_Canceled)"
proof -
  let ?reply = "reply_text (snd (handle env ex now xc g))"
  have all: "all = task_opening xc parts @ [Working, Completed ?reply]"
    unfolding assms(4) task_opening_def reply_text_case by simp
  obtain s1 where s1: "task_run s (task_opening xc parts) s1" "s1 \<noteq> No_Task" "\<not> final s1"
    by (rule task_opening_run [OF assms(2)])
  have cancel: "s \<noteq> No_Task \<longrightarrow> task_run s (cancel_task xc) Task_Canceled"
    using assms(2) by (auto simp: task_before_def cancel_task_def final_def split: if_splits)
  have steps: "task_run s (task_opening xc parts @ [Working]) Task_Working" "task_run s all Task_Completed"
    using s1 by (auto simp: all task_run_append)
  from assms(1) show ?thesis
  proof (cases rule: execute_cases [where env = env and ex = ex and now = now and accepts = accepts and g = g])
    case unheard
    with assms(3) s1 cancel show ?thesis
      by (auto simp: all task_opening_def final_def intro!: exI [of _ s1])
  next
    case working
    with assms(3) have evs: "evs = task_opening xc parts @ [Working]" "g' = g" by simp_all
    have "accepts k" if "0 < k" "k < length evs" for k
      using that working(2) by (auto simp: evs task_opening_def less_Suc_eq split: if_splits)
    with working steps(1) cancel show ?thesis
      by (auto simp: all evs task_opening_def numeral_2_eq_2 intro!: exI [of _ Task_Working] split: if_splits)
  next
    case finished
    with assms(3) have evs: "evs = all" "g' = fst (handle env ex now xc g)" by (simp_all add: all)
    have "accepts k" if "0 < k" "k < length evs" for k
      using that finished(2) by (auto simp: evs all task_opening_def less_Suc_eq numeral_2_eq_2 split: if_splits)
    with steps(2) cancel show ?thesis by (auto simp: evs all)
  qed
qed

lemma execution_follows_the_protocol_witness:
  "fst (execute plain_env meta_executor 0 meta_request (\<lambda>k. k < 2) 7) = 7
   \<and> (\<exists>s'. task_run No_Task (snd (execute plain_env meta_executor 0 meta_request (\<lambda>k. k < 2) 7)) s' \<and> s' \<noteq> Task_Completed)"
proof -
  have msg: "xc_message meta_request = Some [Some (Text_Part meta_text)]" "task_before meta_request No_Task"
    and new: "\<not> xc_stored_task meta_request"
    by (simp_all add: meta_request_def task_before_def)
  have run: "execute plain_env meta_executor 0 meta_request (\<lambda>k. k < 2) 7 =
      (7, [Submitted [Some (Text_Part meta_text)], Working])"
    using execute_shape [OF msg(1), of plain_env meta_executor 0 "\<lambda>k. k < 2" 7]
    by (simp add: new task_opening_def)
  show ?thesis
    using execution_follows_the_protocol [OF msg run refl] unfolding run by (simp add: new)
qed

end
