(* ===== verification/Llm_Core.thy ===== *)
theory Llm_Core
  imports Json
begin

text \<open>
  The model client (\<open>internal/llm\<close>) above its two wire formats: configuration, messages,
  errors and which of them are retried, the retry loop, the event-stream reader, and \<open>Chat\<close>.

  The HTTP transport, the context and the timer are a record \<open>llm_env\<close> of functions on an
  arbitrary world \<open>'w\<close>. What a call hands to its \<open>emit\<close> callback is a list of strings.
\<close>

section \<open>Configuration\<close>

record llm_config =
  lc_api_key :: string
  lc_base_url :: string
  lc_model :: string
  lc_provider :: string

definition default_llm_base_url :: string where
  "default_llm_base_url = ''https://api.deepseek.com''"

definition default_llm_model :: string where
  "default_llm_model = ''deepseek-v4-flash''"

definition anthropic_base_url :: string where
  "anthropic_base_url = ''https://api.anthropic.com''"

definition llm_max_retries :: nat where
  "llm_max_retries = 2"

definition llm_retry_base_delay :: duration where
  "llm_retry_base_delay = go_second"

definition provider_openai :: string where
  "provider_openai = ''openai''"

definition provider_anthropic :: string where
  "provider_anthropic = ''anthropic''"

definition normalized :: "llm_config \<Rightarrow> llm_config" where
  "normalized c =
     (let c = c\<lparr>lc_provider := to_lower (trim_space (lc_provider c))\<rparr>;
          c = (if lc_provider c = []
               then if contains (to_lower (lc_base_url c)) ''anthropic''
                 then c\<lparr>lc_provider := provider_anthropic\<rparr> else c\<lparr>lc_provider := provider_openai\<rparr>
               else c);
          c = (if lc_base_url c = []
               then if lc_provider c = provider_anthropic
                 then c\<lparr>lc_base_url := anthropic_base_url\<rparr> else c\<lparr>lc_base_url := default_llm_base_url\<rparr>
               else c);
          c = c\<lparr>lc_base_url := trim_right_byte (lc_base_url c) CHR ''/''\<rparr>
      in if lc_model c = [] then c\<lparr>lc_model := default_llm_model\<rparr> else c)"

section \<open>Messages\<close>

record llm_tool =
  ft_type :: string
  ft_name :: string
  ft_description :: string
  ft_parameters :: "json option"

record tool_call =
  tc_id :: string
  tc_type :: string
  tc_name :: string
  tc_arguments :: string

record message =
  ms_role :: string
  ms_content :: string
  ms_tool_calls :: "tool_call list"
  ms_tool_call_id :: string
  ms_name :: string

definition blank_message :: message where
  "blank_message = \<lparr>ms_role = [], ms_content = [], ms_tool_calls = [], ms_tool_call_id = [], ms_name = []\<rparr>"

record usage =
  us_prompt :: int
  us_completion :: int
  us_total :: int

definition no_usage :: usage where
  "no_usage = \<lparr>us_prompt = 0, us_completion = 0, us_total = 0\<rparr>"

definition usage_add :: "usage \<Rightarrow> usage \<Rightarrow> usage" where
  "usage_add u x =
     (let u = u\<lparr>us_prompt := go_int (us_prompt u + us_prompt x),
                us_completion := go_int (us_completion u + us_completion x)\<rparr>
      in if us_total x > 0 then u\<lparr>us_total := go_int (us_total u + us_total x)\<rparr>
         else if us_prompt x > 0 \<or> us_completion x > 0
           then u\<lparr>us_total := go_int (us_total u + go_int (us_prompt x + us_completion x))\<rparr>
         else u)"

record chat_result =
  cr_message :: message
  cr_usage :: usage
  cr_model :: string
  cr_latency_ms :: int

section \<open>Errors\<close>

datatype llm_error = Retryable string | Plain string

fun error_text :: "llm_error \<Rightarrow> string" where
  "error_text (Retryable m) = m"
| "error_text (Plain m) = m"

definition is_retryable :: "llm_error \<Rightarrow> bool" where
  "is_retryable e = (case e of Retryable _ \<Rightarrow> True | Plain m \<Rightarrow> \<not> has_prefix m ''LLM HTTP 4'')"

text \<open>Three bytes encode the ellipsis.\<close>

definition truncate_text :: "string \<Rightarrow> nat \<Rightarrow> string" where
  "truncate_text s n = (if length s \<le> n then s else take n s @ [CHR 0xE2, CHR 0x80, CHR 0xA6])"

text \<open>A response: its status, the bytes of its body, and the error reading them ends with.\<close>

record http_response =
  hr_status :: nat
  hr_body :: string
  hr_read_error :: "string option"

definition http_error :: "http_response \<Rightarrow> llm_error" where
  "http_error r =
     (let msg = ''LLM HTTP '' @ show_nat (hr_status r) @ '': '' @ truncate_text (hr_body r) 500
      in if hr_status r = 429 \<or> hr_status r \<ge> 500 then Retryable msg else Plain msg)"

section \<open>The event stream\<close>

text \<open>
  \<open>bufio.Scanner\<close> gives the lines of the body, the last one also without a newline if it is
  not empty, and then the error the body ended with. A line that does not fit the buffer of 4 MB
  together with one more byte ends the scan.
\<close>

definition max_line :: int where
  "max_line = 4 * 1024 * 1024"

definition body_lines :: "string \<Rightarrow> string list" where
  "body_lines s =
     (let ls = split_byte CHR 0x0A s in if last ls = [] then butlast ls else ls)"

definition data_of_line :: "string \<Rightarrow> string option" where
  "data_of_line l =
     (let line = trim_right_byte l CHR 0x0D
      in if has_prefix line ''data:''
         then let data = trim_space (trim_prefix line ''data:'') in if data = [] then None else Some data
         else None)"

text \<open>\<open>on_data\<close> answers with a new state and either an error or whether to stop.\<close>

fun scan_lines ::
    "(string \<Rightarrow> 's \<Rightarrow> 's \<times> (llm_error + bool)) \<Rightarrow> llm_error option \<Rightarrow> string list \<Rightarrow> 's \<Rightarrow>
     's \<times> llm_error option" where
  "scan_lines on_data at_end [] s = (s, at_end)"
| "scan_lines on_data at_end (l # ls) s =
     (if int (length l) \<ge> max_line then (s, Some (Plain ''bufio.Scanner: token too long''))
      else (case data_of_line l of
          None \<Rightarrow> scan_lines on_data at_end ls s
        | Some data \<Rightarrow>
            (case on_data data s of
               (s, Inl e) \<Rightarrow> (s, Some e)
             | (s, Inr stop) \<Rightarrow> if stop then (s, None) else scan_lines on_data at_end ls s)))"

definition scan_sse ::
    "(string \<Rightarrow> 's \<Rightarrow> 's \<times> (llm_error + bool)) \<Rightarrow> http_response \<Rightarrow> 's \<Rightarrow> 's \<times> llm_error option" where
  "scan_sse on_data r s = scan_lines on_data (map_option Plain (hr_read_error r)) (body_lines (hr_body r)) s"

section \<open>Requests\<close>

record http_request =
  rq_url :: string
  rq_headers :: "(string \<times> string) list"
  rq_body :: string

record 'w llm_env =
  le_do :: "http_request \<Rightarrow> 'w \<Rightarrow> 'w \<times> (string + http_response)"
  le_ctx_err :: "'w \<Rightarrow> string option"
  le_wait :: "duration \<Rightarrow> 'w \<Rightarrow> 'w \<times> string option"
  le_now :: "'w \<Rightarrow> time"

text \<open>
  One attempt at a round: the world after it, what it emitted, and the outcome.
\<close>

type_synonym 'w attempt = "'w \<Rightarrow> 'w \<times> string list \<times> (llm_error + chat_result)"

text \<open>What both adapters do with a response: an error status, or the stream it carries.\<close>

definition stream_reply ::
    "(string \<Rightarrow> 's \<Rightarrow> 's \<times> (llm_error + bool)) \<Rightarrow> 's \<Rightarrow> ('s \<Rightarrow> string list) \<Rightarrow> ('s \<Rightarrow> chat_result) \<Rightarrow>
     string + http_response \<Rightarrow> string list \<times> (llm_error + chat_result)" where
  "stream_reply on_data init emitted finish reply =
     (case reply of
        Inl e \<Rightarrow> ([], Inl (Plain e))
      | Inr r \<Rightarrow>
          if hr_status r < 200 \<or> hr_status r \<ge> 300 then ([], Inl (http_error r))
          else (case scan_sse on_data r init of
              (s, Some e) \<Rightarrow> (emitted s, Inl e)
            | (s, None) \<Rightarrow> (emitted s, Inr (finish s))))"

section \<open>Retrying\<close>

text \<open>
  \<open>k\<close> is the number of retries left and \<open>attempt\<close> the number of attempts made. The loop
  ends with the error of the attempt that is not repeated.
\<close>

fun with_retry :: "'w llm_env \<Rightarrow> 'w attempt \<Rightarrow> nat \<Rightarrow> nat \<Rightarrow> 'w attempt" where
  "with_retry env act k attempt w =
     (case le_ctx_err env w of
        Some e \<Rightarrow> (w, [], Inl (Plain e))
      | None \<Rightarrow>
          (case act w of
             (w, emitted, Inr r) \<Rightarrow> (w, emitted, Inr r)
           | (w, emitted, Inl e) \<Rightarrow>
               if emitted \<noteq> [] \<or> \<not> is_retryable e \<or> k = 0 then (w, emitted, Inl e)
               else (case le_wait env (llm_retry_base_delay * 2 ^ attempt) w of
                   (w, Some ce) \<Rightarrow> (w, emitted, Inl (Plain ce))
                 | (w, None) \<Rightarrow>
                     (case with_retry env act (k - 1) (Suc attempt) w of
                        (w, later, r) \<Rightarrow> (w, emitted @ later, r)))))"

declare with_retry.simps [simp del]

definition chat ::
    "'w llm_env \<Rightarrow> (llm_config \<Rightarrow> message list \<Rightarrow> llm_tool list \<Rightarrow> 'w attempt) \<Rightarrow> llm_config \<Rightarrow>
     message list \<Rightarrow> llm_tool list \<Rightarrow> 'w attempt" where
  "chat env model cfg messages tools w =
     (if lc_api_key cfg = [] then (w, [], Inl (Plain ''LLM API key is not configured''))
      else (case with_retry env (model cfg messages tools) llm_max_retries 0 w of
          (w', emitted, Inl e) \<Rightarrow> (w', emitted, Inl e)
        | (w', emitted, Inr r) \<Rightarrow>
            (let r = (if cr_model r = [] then r\<lparr>cr_model := lc_model cfg\<rparr> else r)
             in (w', emitted, Inr (r\<lparr>cr_latency_ms := time_sub (le_now env w') (le_now env w) div 1000000\<rparr>)))))"

section \<open>Which errors are retried\<close>

lemma show_nat_three_digits:
  assumes "100 \<le> n" and "n < 1000"
  shows "\<exists>rest. show_nat n = digit_char (n div 100) # rest"
proof -
  have "n \<ge> 10" "n div 10 \<ge> 10" "\<not> n div 10 div 10 \<ge> 10" using assms by simp_all
  moreover have "n div 10 div 10 = n div 100" by (simp flip: div_mult2_eq)
  ultimately show ?thesis by (simp add: show_nat.simps [of n] show_nat.simps [of "n div 10"] show_nat.simps [of "n div 100"])
qed

lemma http_error_retryable:
  assumes "100 \<le> hr_status r" and "hr_status r < 1000"
  shows "is_retryable (http_error r) \<longleftrightarrow> hr_status r = 429 \<or> hr_status r < 400 \<or> 500 \<le> hr_status r"
proof -
  obtain rest where n: "show_nat (hr_status r) = digit_char (hr_status r div 100) # rest"
    using show_nat_three_digits [OF assms] by blast
  have "hr_status r div 100 < 10" using assms(2) by simp
  moreover have "digit_char 4 = CHR ''4''" by code_simp
  ultimately have "digit_char (hr_status r div 100) = CHR ''4'' \<longleftrightarrow> hr_status r div 100 = 4"
    using digit_value_digit_char [of "hr_status r div 100"] digit_value_digit_char [of 4] by fastforce
  then show ?thesis
    using n by (auto simp: http_error_def is_retryable_def Let_def has_prefix_def)
qed

section \<open>What reaches the caller\<close>

lemma with_retry_once:
  assumes "with_retry env act k a w = (w', emitted, res)"
  shows "(\<exists>v. act v = (w', emitted, res)) \<or> (emitted = [] \<and> (\<exists>e. res = Inl (Plain e)))"
  using assms
proof (induction env act k a w arbitrary: w' emitted res rule: with_retry.induct)
  case (1 env act k a w)
  show ?case
  proof (cases "le_ctx_err env w")
    case None
    obtain v em r where act: "act w = (v, em, r)" by (cases "act w") auto
    show ?thesis
    proof (cases "\<exists>e. r = Inl e \<and> em = [] \<and> is_retryable e \<and> k \<noteq> 0")
      case True
      then obtain e where e: "r = Inl e" "em = []" "is_retryable e" "k \<noteq> 0" by blast
      obtain u c where wait: "le_wait env (llm_retry_base_delay * 2 ^ a) v = (u, c)"
        by (cases "le_wait env (llm_retry_base_delay * 2 ^ a) v")
      show ?thesis
      proof (cases c)
        case None
        with "1.prems" \<open>le_ctx_err env w = None\<close> act e wait
        have "with_retry env act (k - 1) (Suc a) u = (w', emitted, res)"
          by (subst (asm) with_retry.simps) (auto split: prod.splits)
        with "1.IH" \<open>le_ctx_err env w = None\<close> act e wait None show ?thesis by fastforce
      next
        case (Some ce)
        with "1.prems" \<open>le_ctx_err env w = None\<close> act e wait show ?thesis
          by (subst (asm) with_retry.simps) auto
      qed
    next
      case False
      with "1.prems" None act show ?thesis
        by (subst (asm) with_retry.simps) (auto split: sum.splits if_splits)
    qed
  next
    case (Some e)
    with "1.prems" show ?thesis by (subst (asm) with_retry.simps) auto
  qed
qed

text \<open>The loop makes at most one attempt more than it has retries left.\<close>

lemma with_retry_attempts:
  fixes count :: "'w \<Rightarrow> nat"
  assumes "\<And>w. count (fst (act w)) \<le> Suc (count w)" and "\<And>d w. count (fst (le_wait env d w)) = count w"
  shows "count (fst (with_retry env act k a w)) \<le> count w + Suc k"
proof (induction k arbitrary: a w)
  case (0 a w)
  show ?case using assms(1) [of w]
    by (subst with_retry.simps) (auto split: option.splits prod.splits sum.splits)
next
  case (Suc k a w)
  obtain v em r where act: "act w = (v, em, r)" by (cases "act w") auto
  obtain u c where wait: "le_wait env (llm_retry_base_delay * 2 ^ a) v = (u, c)"
    by (cases "le_wait env (llm_retry_base_delay * 2 ^ a) v")
  have "count v \<le> Suc (count w)" "count u = count v"
    using assms(1) [of w] assms(2) [of "llm_retry_base_delay * 2 ^ a" v] act wait by simp_all
  with Suc.IH [of "Suc a" u] act wait show ?case
    by (subst with_retry.simps) (auto split: option.splits prod.splits sum.splits)
qed

lemma scan_lines_invariant:
  assumes "\<And>data s. P s \<Longrightarrow> P (fst (on_data data s))" and "P s"
  shows "P (fst (scan_lines on_data e ls s))"
  using assms(2)
proof (induction ls arbitrary: s)
  case (Cons l ls)
  show ?case
  proof (cases "data_of_line l")
    case (Some data)
    obtain s' r where r: "on_data data s = (s', r)" by (cases "on_data data s")
    with assms(1) [OF Cons.prems, of data] have "P s'" by simp
    with Cons r Some show ?thesis by (cases r) auto
  qed (use Cons in auto)
qed simp

section \<open>A streaming model\<close>

text \<open>
  What \<open>Chat\<close> promises of a wire format: an answer that arrives is the concatenation of the
  deltas emitted on the way, in the assistant's role.
\<close>

locale streaming_model =
  fixes model :: "message list \<Rightarrow> llm_tool list \<Rightarrow> 'w attempt"
  assumes deltas_are_content:
    "model ms ts w = (w', emitted, Inr r) \<Longrightarrow>
       concat emitted = ms_content (cr_message r) \<and> ms_role (cr_message r) = ''assistant''"
begin

lemma chat_deltas:
  assumes "chat env (\<lambda>_. model) cfg ms ts w = (w', emitted, Inr r)"
  shows "concat emitted = ms_content (cr_message r) \<and> ms_role (cr_message r) = ''assistant''"
proof -
  from assms obtain r' where r': "with_retry env (model ms ts) llm_max_retries 0 w = (w', emitted, Inr r')"
      "cr_message r = cr_message r'"
    by (auto simp: chat_def Let_def split: if_splits prod.splits sum.splits)
  from with_retry_once [OF r'(1)] obtain v where "model ms ts v = (w', emitted, Inr r')" by auto
  from deltas_are_content [OF this] r'(2) show ?thesis by simp
qed

lemma chat_error_deltas:
  assumes "chat env (\<lambda>_. model) cfg ms ts w = (w', emitted, Inl e)"
  shows "emitted = [] \<or> (\<exists>v. model ms ts v = (w', emitted, Inl e))"
  using assms by (auto simp: chat_def Let_def dest!: with_retry_once split: if_splits prod.splits sum.splits)

end

end
