(* ===== verification/Llm_OpenAI.thy ===== *)
theory Llm_OpenAI
  imports Llm_Core
begin

text \<open>
  The OpenAI-compatible wire format (\<open>internal/llm/llm_openai.go\<close>): the request, the frames of
  the stream, and the accumulator that puts sharded tool calls together.
\<close>

section \<open>The request\<close>

definition omit_empty :: "string \<Rightarrow> string \<Rightarrow> members" where
  "omit_empty k s = (if s = [] then [] else [(k, J_Str s)])"

definition tool_call_json :: "tool_call \<Rightarrow> json" where
  "tool_call_json tc =
     J_Obj [(''id'', J_Str (tc_id tc)), (''type'', J_Str (tc_type tc)),
            (''function'', J_Obj [(''name'', J_Str (tc_name tc)), (''arguments'', J_Str (tc_arguments tc))])]"

definition message_json :: "message \<Rightarrow> json" where
  "message_json m =
     J_Obj ([(''role'', J_Str (ms_role m))] @ omit_empty ''content'' (ms_content m)
       @ (if ms_tool_calls m = [] then [] else [(''tool_calls'', J_Arr (map tool_call_json (ms_tool_calls m)))])
       @ omit_empty ''tool_call_id'' (ms_tool_call_id m) @ omit_empty ''name'' (ms_name m))"

definition tool_json :: "llm_tool \<Rightarrow> json" where
  "tool_json t =
     J_Obj [(''type'', J_Str (ft_type t)),
            (''function'', J_Obj [(''name'', J_Str (ft_name t)), (''description'', J_Str (ft_description t)),
               (''parameters'', case ft_parameters t of None \<Rightarrow> J_Null | Some v \<Rightarrow> v)])]"

definition openai_body :: "llm_config \<Rightarrow> message list \<Rightarrow> llm_tool list \<Rightarrow> json" where
  "openai_body cfg messages tools =
     J_Obj ([(''model'', J_Str (lc_model cfg)), (''messages'', J_Arr (map message_json messages))]
       @ (if tools = [] then [] else [(''tools'', J_Arr (map tool_json tools))])
       @ [(''stream'', J_Bool True), (''stream_options'', J_Obj [(''include_usage'', J_Bool True)])])"

definition openai_request :: "llm_config \<Rightarrow> message list \<Rightarrow> llm_tool list \<Rightarrow> http_request" where
  "openai_request cfg messages tools =
     \<lparr>rq_url = lc_base_url cfg @ ''/v1/chat/completions'',
      rq_headers = [(''Content-Type'', ''application/json''), (''Accept'', ''text/event-stream''),
                    (''Authorization'', ''Bearer '' @ lc_api_key cfg)],
      rq_body = json_text (openai_body cfg messages tools)\<rparr>"

section \<open>Frames\<close>

record shard =
  sh_index :: int
  sh_id :: string
  sh_name :: string
  sh_arguments :: string

record oa_delta =
  od_content :: string
  od_tool_calls :: "shard list"

record oa_chunk =
  ck_choices :: "oa_delta list"
  ck_usage :: "usage option"
  ck_model :: string

definition zero_shard :: shard where
  "zero_shard = \<lparr>sh_index = 0, sh_id = [], sh_name = [], sh_arguments = []\<rparr>"

definition dec_shard :: "shard decoder" where
  "dec_shard = dec_struct
     [field_into ''index'' dec_int sh_index sh_index_update,
      field_into ''id'' dec_string sh_id sh_id_update,
      field_into ''function''
        (dec_struct [field_into ''name'' dec_string sh_name sh_name_update,
                     field_into ''arguments'' dec_string sh_arguments sh_arguments_update])
        (\<lambda>s. s) (\<lambda>f s. f s)]"

definition zero_delta :: oa_delta where
  "zero_delta = \<lparr>od_content = [], od_tool_calls = []\<rparr>"

definition dec_delta :: "oa_delta decoder" where
  "dec_delta = dec_struct
     [field_into ''content'' dec_string od_content od_content_update,
      field_into ''tool_calls'' (dec_array zero_shard dec_shard) od_tool_calls od_tool_calls_update]"

definition dec_choice :: "oa_delta decoder" where
  "dec_choice = dec_struct [field_into ''delta'' dec_delta (\<lambda>d. d) (\<lambda>f d. f d)]"

definition dec_oa_usage :: "usage decoder" where
  "dec_oa_usage = dec_struct
     [field_into ''prompt_tokens'' dec_int us_prompt us_prompt_update,
      field_into ''completion_tokens'' dec_int us_completion us_completion_update,
      field_into ''total_tokens'' dec_int us_total us_total_update]"

definition dec_chunk :: "oa_chunk decoder" where
  "dec_chunk = dec_struct
     [field_into ''choices'' (dec_array zero_delta dec_choice) ck_choices ck_choices_update,
      field_into ''usage'' (dec_pointer no_usage dec_oa_usage) ck_usage ck_usage_update,
      field_into ''model'' dec_string ck_model ck_model_update]"

definition parse_chunk :: "string \<Rightarrow> oa_chunk option" where
  "parse_chunk data =
     (case json_parse data of
        None \<Rightarrow> None
      | Some v \<Rightarrow> dec_chunk \<lparr>ck_choices = [], ck_usage = None, ck_model = []\<rparr> v)"

section \<open>The accumulator\<close>

record call_acc =
  ca_id :: string
  ca_name :: string
  ca_args :: string

record oa_state =
  os_content :: string
  os_calls :: "(int, call_acc) gomap"
  os_order :: "int list"
  os_usage :: usage
  os_model :: string
  os_emitted :: "string list"

definition oa_init :: oa_state where
  "oa_init = \<lparr>os_content = [], os_calls = [], os_order = [], os_usage = no_usage, os_model = [], os_emitted = []\<rparr>"

definition blank_acc :: call_acc where
  "blank_acc = \<lparr>ca_id = [], ca_name = [], ca_args = []\<rparr>"

definition acc_shard :: "shard \<Rightarrow> call_acc \<Rightarrow> call_acc" where
  "acc_shard tc acc =
     (let acc = (if sh_id tc \<noteq> [] then acc\<lparr>ca_id := sh_id tc\<rparr> else acc);
          acc = (if sh_name tc \<noteq> [] then acc\<lparr>ca_name := sh_name tc\<rparr> else acc)
      in acc\<lparr>ca_args := ca_args acc @ sh_arguments tc\<rparr>)"

definition add_shard :: "shard \<Rightarrow> oa_state \<Rightarrow> oa_state" where
  "add_shard tc s =
     (let (acc, order) =
        (case map_of (os_calls s) (sh_index tc) of
           None \<Rightarrow> (blank_acc, os_order s @ [sh_index tc])
         | Some acc \<Rightarrow> (acc, os_order s))
      in s\<lparr>os_calls := AList.update (sh_index tc) (acc_shard tc acc) (os_calls s), os_order := order\<rparr>)"

definition add_choice :: "oa_delta \<Rightarrow> oa_state \<Rightarrow> oa_state" where
  "add_choice d s =
     (let s = (if od_content d \<noteq> []
               then s\<lparr>os_content := os_content s @ od_content d, os_emitted := os_emitted s @ [od_content d]\<rparr>
               else s)
      in fold add_shard (od_tool_calls d) s)"

definition add_chunk :: "oa_chunk \<Rightarrow> oa_state \<Rightarrow> oa_state" where
  "add_chunk c s =
     (let s = (if ck_model c \<noteq> [] then s\<lparr>os_model := ck_model c\<rparr> else s);
          s = (case ck_usage c of None \<Rightarrow> s | Some u \<Rightarrow> s\<lparr>os_usage := u\<rparr>)
      in fold add_choice (ck_choices c) s)"

definition oa_on_data :: "string \<Rightarrow> oa_state \<Rightarrow> oa_state \<times> (llm_error + bool)" where
  "oa_on_data data s =
     (if data = ''[DONE]'' then (s, Inr True)
      else (case parse_chunk data of None \<Rightarrow> (s, Inr False) | Some c \<Rightarrow> (add_chunk c s, Inr False)))"

definition acc_call :: "call_acc \<Rightarrow> tool_call" where
  "acc_call acc = \<lparr>tc_id = ca_id acc, tc_type = ''function'', tc_name = ca_name acc, tc_arguments = ca_args acc\<rparr>"

text \<open>Every index of the order is a key of the map, so the default is never taken.\<close>

definition oa_finish :: "oa_state \<Rightarrow> chat_result" where
  "oa_finish s =
     \<lparr>cr_message = blank_message\<lparr>ms_role := ''assistant'', ms_content := os_content s,
        ms_tool_calls := map (\<lambda>i. acc_call (case map_of (os_calls s) i of None \<Rightarrow> blank_acc | Some a \<Rightarrow> a)) (os_order s)\<rparr>,
      cr_usage = os_usage s, cr_model = os_model s, cr_latency_ms = 0\<rparr>"

definition openai_chat :: "'w llm_env \<Rightarrow> llm_config \<Rightarrow> message list \<Rightarrow> llm_tool list \<Rightarrow> 'w attempt" where
  "openai_chat env cfg messages tools w =
     (case le_do env (openai_request cfg messages tools) w of
        (w, reply) \<Rightarrow> (w, stream_reply oa_on_data oa_init os_emitted oa_finish reply))"

section \<open>The answer is what was emitted\<close>

definition oa_in_step :: "oa_state \<Rightarrow> bool" where
  "oa_in_step s \<longleftrightarrow> concat (os_emitted s) = os_content s"

lemma add_shard_frame [go_frame, simp]:
  "os_content (add_shard tc s) = os_content s" "os_emitted (add_shard tc s) = os_emitted s"
  "os_model (add_shard tc s) = os_model s" "os_usage (add_shard tc s) = os_usage s"
  by (auto simp: add_shard_def Let_def split: option.splits)

lemma fold_add_shard_frame [simp]:
  "os_content (fold add_shard tcs s) = os_content s" "os_emitted (fold add_shard tcs s) = os_emitted s"
  by (induction tcs arbitrary: s) auto

lemma add_choice_in_step: "oa_in_step s \<Longrightarrow> oa_in_step (add_choice d s)"
  by (simp add: oa_in_step_def add_choice_def Let_def)

lemma fold_add_choice_in_step: "oa_in_step s \<Longrightarrow> oa_in_step (fold add_choice ds s)"
  by (induction ds arbitrary: s) (auto intro: add_choice_in_step)

lemma add_chunk_in_step: "oa_in_step s \<Longrightarrow> oa_in_step (add_chunk c s)"
  unfolding add_chunk_def Let_def
  by (rule fold_add_choice_in_step) (simp add: oa_in_step_def split: option.splits)

lemma oa_on_data_in_step: "oa_in_step s \<Longrightarrow> oa_in_step (fst (oa_on_data data s))"
  by (auto simp: oa_on_data_def add_chunk_in_step split: option.splits)

interpretation openai: streaming_model "openai_chat env cfg" for env cfg
proof unfold_locales
  fix ms ts w w' emitted r
  assume "openai_chat env cfg ms ts w = (w', emitted, Inr r)"
  then obtain resp s where s: "scan_sse oa_on_data resp oa_init = (s, None)" "emitted = os_emitted s" "r = oa_finish s"
    by (auto simp: openai_chat_def stream_reply_def split: prod.splits sum.splits if_splits option.splits)
  have "oa_in_step (fst (scan_sse oa_on_data resp oa_init))"
    unfolding scan_sse_def
    by (rule scan_lines_invariant [where P = oa_in_step], erule oa_on_data_in_step)
      (simp add: oa_in_step_def oa_init_def)
  with s show "concat emitted = ms_content (cr_message r) \<and> ms_role (cr_message r) = ''assistant''"
    by (simp add: oa_in_step_def oa_finish_def)
qed

section \<open>Sharded tool calls are put together\<close>

text \<open>The frames of a response: what its data lines before \<open>[DONE]\<close> parse to.\<close>

definition frames_of :: "string list \<Rightarrow> oa_chunk list" where
  "frames_of ls = List.map_filter parse_chunk (takeWhile (\<lambda>d. d \<noteq> ''[DONE]'') (List.map_filter data_of_line ls))"

definition deltas_of :: "http_response \<Rightarrow> oa_delta list" where
  "deltas_of r = concat (map ck_choices (frames_of (body_lines (hr_body r))))"

definition shards_of :: "http_response \<Rightarrow> shard list" where
  "shards_of r = concat (map od_tool_calls (deltas_of r))"

definition firsts :: "'a list \<Rightarrow> 'a list" where
  "firsts xs = rev (remdups (rev xs))"

definition last_given :: "string list \<Rightarrow> string" where
  "last_given xs = (case rev (filter (\<lambda>x. x \<noteq> []) xs) of [] \<Rightarrow> [] | x # _ \<Rightarrow> x)"

definition assemble :: "shard list \<Rightarrow> tool_call" where
  "assemble ss =
     \<lparr>tc_id = last_given (map sh_id ss), tc_type = ''function'', tc_name = last_given (map sh_name ss),
      tc_arguments = concat (map sh_arguments ss)\<rparr>"

lemma frames_of_Nil [simp]: "frames_of [] = []"
  by (simp add: frames_of_def map_filter_simps)

lemma frames_of_Cons:
  "frames_of (l # ls) =
     (case data_of_line l of
        None \<Rightarrow> frames_of ls
      | Some d \<Rightarrow> if d = ''[DONE]'' then []
          else (case parse_chunk d of None \<Rightarrow> frames_of ls | Some c \<Rightarrow> c # frames_of ls))"
  by (auto simp: frames_of_def map_filter_simps split: option.splits)

lemma scan_frames:
  "scan_lines oa_on_data e ls s = (s', None) \<Longrightarrow> s' = fold add_chunk (frames_of ls) s"
proof (induction ls arbitrary: s)
  case (Cons l ls)
  then show ?case
    by (auto simp: frames_of_Cons oa_on_data_def split: if_splits option.splits prod.splits)
qed simp

lemma firsts_snoc: "firsts (xs @ [x]) = (if x \<in> set xs then firsts xs else firsts xs @ [x])"
  by (simp add: firsts_def)

lemma set_firsts [simp]: "set (firsts xs) = set xs"
  by (simp add: firsts_def)

definition of_index :: "int \<Rightarrow> shard list \<Rightarrow> shard list" where
  "of_index i ss = filter (\<lambda>s. sh_index s = i) ss"

definition collected :: "shard list \<Rightarrow> oa_state \<Rightarrow> bool" where
  "collected ss s \<longleftrightarrow> os_order s = firsts (map sh_index ss)
     \<and> (\<forall>i. map_of (os_calls s) i =
          (if i \<in> sh_index ` set ss then Some (fold acc_shard (of_index i ss) blank_acc) else None))"

lemma add_shard_collected:
  assumes "collected ss s"
  shows "collected (ss @ [tc]) (add_shard tc s)"
proof (cases "sh_index tc \<in> sh_index ` set ss")
  case True
  with assms have "map_of (os_calls s) (sh_index tc) = Some (fold acc_shard (of_index (sh_index tc) ss) blank_acc)"
    by (simp add: collected_def)
  with assms True show ?thesis
    by (auto simp: collected_def add_shard_def firsts_snoc gomap_get_update of_index_def)
next
  case False
  with assms have "map_of (os_calls s) (sh_index tc) = None" by (simp add: collected_def)
  moreover from False have "of_index (sh_index tc) ss = []"
    by (auto simp: of_index_def filter_empty_conv) (metis imageI)
  ultimately show ?thesis
    using assms False by (auto simp: collected_def add_shard_def firsts_snoc gomap_get_update of_index_def)
qed

lemma fold_add_shard_collected: "collected ss s \<Longrightarrow> collected (ss @ tcs) (fold add_shard tcs s)"
proof (induction tcs arbitrary: ss s)
  case (Cons tc tcs)
  from Cons.IH [OF add_shard_collected [OF Cons.prems, of tc]] show ?case by simp
qed simp

lemma collected_frame:
  "os_calls s' = os_calls s \<Longrightarrow> os_order s' = os_order s \<Longrightarrow> collected ss s \<Longrightarrow> collected ss s'"
  by (simp add: collected_def)

lemma add_choice_collected: "collected ss s \<Longrightarrow> collected (ss @ od_tool_calls d) (add_choice d s)"
  unfolding add_choice_def Let_def
  by (rule fold_add_shard_collected) (auto intro: collected_frame)

lemma fold_add_choice_collected:
  "collected ss s \<Longrightarrow> collected (ss @ concat (map od_tool_calls ds)) (fold add_choice ds s)"
proof (induction ds arbitrary: ss s)
  case (Cons d ds)
  from Cons.IH [OF add_choice_collected [OF Cons.prems, of d]] show ?case by simp
qed simp

lemma add_chunk_collected:
  assumes "collected ss s"
  shows "collected (ss @ concat (map od_tool_calls (ck_choices c))) (add_chunk c s)"
  unfolding add_chunk_def Let_def
  by (rule fold_add_choice_collected) (rule collected_frame [OF _ _ assms]; simp split: option.splits)+

lemma fold_add_chunk_collected:
  "collected ss s \<Longrightarrow>
     collected (ss @ concat (map od_tool_calls (concat (map ck_choices cs)))) (fold add_chunk cs s)"
proof (induction cs arbitrary: ss s)
  case (Cons c cs)
  from Cons.IH [OF add_chunk_collected [OF Cons.prems, of c]] show ?case by simp
qed simp

lemma add_choice_content: "os_content (add_choice d s) = os_content s @ od_content d"
  by (simp add: add_choice_def Let_def)

lemma fold_add_choice_content:
  "os_content (fold add_choice ds s) = os_content s @ concat (map od_content ds)"
  by (induction ds arbitrary: s) (simp_all add: add_choice_content)

lemma add_chunk_content: "os_content (add_chunk c s) = os_content s @ concat (map od_content (ck_choices c))"
  by (simp add: add_chunk_def Let_def fold_add_choice_content split: option.splits)

lemma fold_add_chunk_content:
  "os_content (fold add_chunk cs s) = os_content s @ concat (map od_content (concat (map ck_choices cs)))"
  by (induction cs arbitrary: s) (simp_all add: add_chunk_content)

lemma last_given_snoc: "last_given (xs @ [x]) = (if x \<noteq> [] then x else last_given xs)"
  by (simp add: last_given_def)

lemma acc_call_assemble: "acc_call (fold acc_shard ss blank_acc) = assemble ss"
proof -
  have "ca_id (fold acc_shard ss blank_acc) = last_given (map sh_id ss)
    \<and> ca_name (fold acc_shard ss blank_acc) = last_given (map sh_name ss)
    \<and> ca_args (fold acc_shard ss blank_acc) = concat (map sh_arguments ss)"
  proof (induction ss rule: rev_induct)
    case Nil
    show ?case by (simp add: blank_acc_def last_given_def)
  next
    case (snoc x ss)
    then show ?case by (simp add: acc_shard_def Let_def last_given_snoc)
  qed
  then show ?thesis by (simp add: acc_call_def assemble_def)
qed

lemma openai_chat_Inr:
  assumes "openai_chat env cfg ms ts w = (w', emitted, Inr r)"
  obtains resp where "le_do env (openai_request cfg ms ts) w = (w', Inr resp)"
    and "200 \<le> hr_status resp" "hr_status resp < 300"
    and "r = oa_finish (fold add_chunk (frames_of (body_lines (hr_body resp))) oa_init)"
  using assms
  by (auto simp: openai_chat_def stream_reply_def scan_sse_def split: prod.splits sum.splits if_splits option.splits
      dest!: scan_frames)

lemma map_of_collected:
  assumes "collected ss s"
  shows "map (\<lambda>i. acc_call (case map_of (os_calls s) i of None \<Rightarrow> blank_acc | Some a \<Rightarrow> a)) (os_order s)
    = map (\<lambda>i. assemble (of_index i ss)) (firsts (map sh_index ss))"
  using assms by (auto simp: collected_def acc_call_assemble intro!: map_cong)

section \<open>Properties\<close>

text \<open>C27: The answer put together from a stream is what the frames say, however they shard it: the text
  of all deltas in order, and one tool call for every index, in the order the indices first appear,
  with all argument shards of that index joined and the last identifier and name given for it.\<close>

theorem openai_reassembles:
  assumes "openai_chat env cfg ms ts w = (w', emitted, Inr r)"
  shows "\<exists>resp. le_do env (openai_request cfg ms ts) w = (w', Inr resp)
    \<and> 200 \<le> hr_status resp \<and> hr_status resp < 300
    \<and> ms_content (cr_message r) = concat (map od_content (deltas_of resp))
    \<and> ms_tool_calls (cr_message r) =
        map (\<lambda>i. assemble (filter (\<lambda>s. sh_index s = i) (shards_of resp))) (firsts (map sh_index (shards_of resp)))"
proof -
  obtain resp where resp: "le_do env (openai_request cfg ms ts) w = (w', Inr resp)"
      "200 \<le> hr_status resp" "hr_status resp < 300"
      "r = oa_finish (fold add_chunk (frames_of (body_lines (hr_body resp))) oa_init)"
    by (rule openai_chat_Inr [OF assms])
  have "collected [] oa_init"
    by (simp add: collected_def oa_init_def firsts_def)
  from fold_add_chunk_collected [OF this, of "frames_of (body_lines (hr_body resp))"]
  have "collected (shards_of resp) (fold add_chunk (frames_of (body_lines (hr_body resp))) oa_init)"
    by (simp add: shards_of_def deltas_of_def)
  from map_of_collected [OF this] resp show ?thesis
    by (intro exI [of _ resp])
      (simp add: oa_finish_def blank_message_def fold_add_chunk_content deltas_of_def of_index_def oa_init_def)
qed

text \<open>A service that answers every request with one stream.\<close>

definition stream_env :: "string \<Rightarrow> unit llm_env" where
  "stream_env body =
     \<lparr>le_do = (\<lambda>_ w. (w, Inr \<lparr>hr_status = 200, hr_body = body, hr_read_error = None\<rparr>)),
      le_ctx_err = (\<lambda>_. None), le_wait = (\<lambda>_ w. (w, None)), le_now = (\<lambda>_. 0)\<rparr>"

definition demo_config :: llm_config where
  "demo_config = \<lparr>lc_api_key = ''k'', lc_base_url = [], lc_model = ''m'', lc_provider = []\<rparr>"

definition demo_stream :: string where
  "demo_stream =
     ''data: {\"choices\":[{\"delta\":{\"content\":\"hi\"}}]}'' @ [CHR 0x0A] @ ''data: [DONE]'' @ [CHR 0x0A]"

lemma demo_stream_chat:
  "openai_chat (stream_env demo_stream) demo_config [] [] () =
     ((), [''hi''], Inr \<lparr>cr_message = blank_message\<lparr>ms_role := ''assistant'', ms_content := ''hi''\<rparr>,
        cr_usage = no_usage, cr_model = [], cr_latency_ms = 0\<rparr>)"
  by code_simp

lemma openai_reassembles_witness:
  "concat (map od_content (deltas_of \<lparr>hr_status = 200, hr_body = demo_stream, hr_read_error = None\<rparr>)) = ''hi''"
  using openai_reassembles [OF demo_stream_chat] by (simp add: stream_env_def)

end
