(* ===== verification/Llm_Anthropic.thy ===== *)
theory Llm_Anthropic
  imports Llm_OpenAI
begin

text \<open>
  The Anthropic wire format (\<open>internal/llm/llm_anthropic.go\<close>): the translation of messages and
  tools, the events of the stream and the accumulator of content blocks.
\<close>

section \<open>The request\<close>

definition anthropic_version :: string where
  "anthropic_version = ''2023-06-01''"

definition anthropic_max_tokens :: nat where
  "anthropic_max_tokens = 40960"

text \<open>
  The input of a tool call: the arguments decoded into \<open>any\<close>. A decoder error is ignored, so
  a syntax error and \<open>null\<close> leave the empty object and a number out of range leaves a hole.
\<close>

definition tool_input :: "(string \<Rightarrow> string option) \<Rightarrow> string \<Rightarrow> json" where
  "tool_input ft arguments =
     (case (if arguments = [] then None else json_parse arguments) of
        None \<Rightarrow> J_Obj []
      | Some v \<Rightarrow> (case any_value ft v of J_Null \<Rightarrow> J_Obj [] | v \<Rightarrow> v))"

text \<open>The maps of the source are written with their keys sorted.\<close>

definition tool_use_json :: "(string \<Rightarrow> string option) \<Rightarrow> tool_call \<Rightarrow> json" where
  "tool_use_json ft tc =
     J_Obj [(''id'', J_Str (tc_id tc)), (''input'', tool_input ft (tc_arguments tc)),
            (''name'', J_Str (tc_name tc)), (''type'', J_Str ''tool_use'')]"

definition user_json :: "json \<Rightarrow> json" where
  "user_json content = J_Obj [(''content'', content), (''role'', J_Str ''user'')]"

definition anthropic_message :: "(string \<Rightarrow> string option) \<Rightarrow> message \<Rightarrow> string list \<times> json list" where
  "anthropic_message ft m =
     (if ms_role m = ''system'' then ([ms_content m], [])
      else if ms_role m = ''tool'' then
        ([], [user_json (J_Arr [J_Obj [(''content'', J_Str (ms_content m)),
           (''tool_use_id'', J_Str (ms_tool_call_id m)), (''type'', J_Str ''tool_result'')]])])
      else if ms_role m = ''assistant'' then
        ([], [J_Obj [(''content'', J_Arr
            ((if ms_content m = [] then []
              else [J_Obj [(''text'', J_Str (ms_content m)), (''type'', J_Str ''text'')]])
             @ map (tool_use_json ft) (ms_tool_calls m))),
          (''role'', J_Str ''assistant'')]])
      else ([], [user_json (J_Str (ms_content m))]))"

definition to_anthropic_messages :: "(string \<Rightarrow> string option) \<Rightarrow> message list \<Rightarrow> string \<times> json list" where
  "to_anthropic_messages ft ms =
     (let parts = map (anthropic_message ft) ms
      in (join [CHR 0x0A, CHR 0x0A] (concat (map fst parts)), concat (map snd parts)))"

definition to_anthropic_tools :: "llm_tool list \<Rightarrow> json list" where
  "to_anthropic_tools tools =
     map (\<lambda>t. J_Obj [(''description'', J_Str (ft_description t)),
        (''input_schema'', case ft_parameters t of
           Some v \<Rightarrow> v
         | None \<Rightarrow> J_Obj [(''properties'', J_Obj []), (''type'', J_Str ''object'')]),
        (''name'', J_Str (ft_name t))]) tools"

definition anthropic_body ::
    "(string \<Rightarrow> string option) \<Rightarrow> llm_config \<Rightarrow> message list \<Rightarrow> llm_tool list \<Rightarrow> json" where
  "anthropic_body ft cfg messages tools =
     (let (system, msgs) = to_anthropic_messages ft messages
      in J_Obj ([(''max_tokens'', J_Num (show_nat anthropic_max_tokens)),
            (''messages'', if msgs = [] then J_Null else J_Arr msgs),
            (''model'', J_Str (lc_model cfg)), (''stream'', J_Bool True)]
          @ (if system = [] then [] else [(''system'', J_Str system)])
          @ (if tools = [] then [] else [(''tools'', J_Arr (to_anthropic_tools tools))])))"

definition anthropic_request ::
    "(string \<Rightarrow> string option) \<Rightarrow> llm_config \<Rightarrow> message list \<Rightarrow> llm_tool list \<Rightarrow> http_request" where
  "anthropic_request ft cfg messages tools =
     \<lparr>rq_url = lc_base_url cfg @ ''/v1/messages'',
      rq_headers = [(''Content-Type'', ''application/json''), (''Accept'', ''text/event-stream''),
                    (''x-api-key'', lc_api_key cfg), (''anthropic-version'', anthropic_version)],
      rq_body = json_text (anthropic_body ft cfg messages tools)\<rparr>"

section \<open>Events\<close>

record an_event =
  ev_type :: string
  ev_index :: int
  ev_model :: string
  ev_input_tokens :: int
  ev_start_output_tokens :: int
  ev_block_type :: string
  ev_block_id :: string
  ev_block_name :: string
  ev_delta_type :: string
  ev_delta_text :: string
  ev_partial_json :: string
  ev_usage_input_tokens :: int
  ev_output_tokens :: int

definition zero_event :: an_event where
  "zero_event =
     \<lparr>ev_type = [], ev_index = 0, ev_model = [], ev_input_tokens = 0, ev_start_output_tokens = 0,
      ev_block_type = [], ev_block_id = [], ev_block_name = [], ev_delta_type = [], ev_delta_text = [],
      ev_partial_json = [], ev_usage_input_tokens = 0, ev_output_tokens = 0\<rparr>"

text \<open>The fields of a nested struct are fields of the event.\<close>

definition nested :: "string \<Rightarrow> (members \<Rightarrow> an_event \<Rightarrow> an_event option) list \<Rightarrow> members \<Rightarrow> an_event \<Rightarrow> an_event option" where
  "nested f fs = field_into f (dec_struct fs) (\<lambda>e. e) (\<lambda>g e. g e)"

definition dec_event :: "an_event decoder" where
  "dec_event = dec_struct
     [field_into ''type'' dec_string ev_type ev_type_update,
      field_into ''index'' dec_int ev_index ev_index_update,
      nested ''message''
        [field_into ''model'' dec_string ev_model ev_model_update,
         nested ''usage''
           [field_into ''input_tokens'' dec_int ev_input_tokens ev_input_tokens_update,
            field_into ''output_tokens'' dec_int ev_start_output_tokens ev_start_output_tokens_update]],
      nested ''content_block''
        [field_into ''type'' dec_string ev_block_type ev_block_type_update,
         field_into ''id'' dec_string ev_block_id ev_block_id_update,
         field_into ''name'' dec_string ev_block_name ev_block_name_update],
      nested ''delta''
        [field_into ''type'' dec_string ev_delta_type ev_delta_type_update,
         field_into ''text'' dec_string ev_delta_text ev_delta_text_update,
         field_into ''partial_json'' dec_string ev_partial_json ev_partial_json_update],
      nested ''usage''
        [field_into ''input_tokens'' dec_int ev_usage_input_tokens ev_usage_input_tokens_update,
         field_into ''output_tokens'' dec_int ev_output_tokens ev_output_tokens_update]]"

definition parse_event :: "string \<Rightarrow> an_event option" where
  "parse_event data = (case json_parse data of None \<Rightarrow> None | Some v \<Rightarrow> dec_event zero_event v)"

section \<open>The accumulator\<close>

record block_acc =
  ba_kind :: string
  ba_id :: string
  ba_name :: string
  ba_json :: string

record an_state =
  as_content :: string
  as_blocks :: "(int, block_acc) gomap"
  as_order :: "int list"
  as_usage :: usage
  as_model :: string
  as_emitted :: "string list"

definition an_init :: an_state where
  "an_init = \<lparr>as_content = [], as_blocks = [], as_order = [], as_usage = no_usage, as_model = [], as_emitted = []\<rparr>"

definition on_message_start :: "an_event \<Rightarrow> an_state \<Rightarrow> an_state" where
  "on_message_start ev s =
     (let s = (if ev_model ev \<noteq> [] then s\<lparr>as_model := ev_model ev\<rparr> else s)
      in if ev_input_tokens ev > 0 then s\<lparr>as_usage := (as_usage s)\<lparr>us_prompt := ev_input_tokens ev\<rparr>\<rparr> else s)"

definition on_block_start :: "an_event \<Rightarrow> an_state \<Rightarrow> an_state" where
  "on_block_start ev s =
     s\<lparr>as_blocks := AList.update (ev_index ev)
         \<lparr>ba_kind = ev_block_type ev, ba_id = ev_block_id ev, ba_name = ev_block_name ev, ba_json = []\<rparr>
         (as_blocks s),
       as_order := as_order s @ [ev_index ev]\<rparr>"

definition on_block_delta :: "an_event \<Rightarrow> an_state \<Rightarrow> an_state" where
  "on_block_delta ev s =
     (let (b, s) =
        (case map_of (as_blocks s) (ev_index ev) of
           Some b \<Rightarrow> (b, s)
         | None \<Rightarrow>
             (let b = \<lparr>ba_kind = [], ba_id = [], ba_name = [], ba_json = []\<rparr>
              in (b, s\<lparr>as_blocks := AList.update (ev_index ev) b (as_blocks s),
                       as_order := as_order s @ [ev_index ev]\<rparr>)))
      in if ev_delta_type ev = ''text_delta'' then
           s\<lparr>as_content := as_content s @ ev_delta_text ev, as_emitted := as_emitted s @ [ev_delta_text ev]\<rparr>
         else if ev_delta_type ev = ''input_json_delta'' then
           s\<lparr>as_blocks := AList.update (ev_index ev) (b\<lparr>ba_json := ba_json b @ ev_partial_json ev\<rparr>) (as_blocks s)\<rparr>
         else s)"

definition on_message_delta :: "an_event \<Rightarrow> an_state \<Rightarrow> an_state" where
  "on_message_delta ev s =
     (if ev_output_tokens ev > 0
      then s\<lparr>as_usage := (as_usage s)\<lparr>us_completion := ev_output_tokens ev\<rparr>\<rparr> else s)"

definition an_step :: "an_event \<Rightarrow> an_state \<Rightarrow> an_state" where
  "an_step ev s =
     (if ev_type ev = ''message_start'' then on_message_start ev s
      else if ev_type ev = ''content_block_start'' then on_block_start ev s
      else if ev_type ev = ''content_block_delta'' then on_block_delta ev s
      else if ev_type ev = ''message_delta'' then on_message_delta ev s
      else s)"

definition an_on_data :: "string \<Rightarrow> an_state \<Rightarrow> an_state \<times> (llm_error + bool)" where
  "an_on_data data s =
     (case parse_event data of
        None \<Rightarrow> (s, Inr False)
      | Some ev \<Rightarrow> if ev_type ev = ''message_stop'' then (s, Inr True) else (an_step ev s, Inr False))"

definition block_call :: "block_acc \<Rightarrow> tool_call" where
  "block_call b =
     \<lparr>tc_id = ba_id b, tc_type = ''function'', tc_name = ba_name b,
      tc_arguments = (if trim_space (ba_json b) = [] then ''{}'' else ba_json b)\<rparr>"

text \<open>Every index of the order is a key of the map.\<close>

definition an_finish :: "an_state \<Rightarrow> chat_result" where
  "an_finish s =
     (let blocks = List.map_filter (map_of (as_blocks s)) (as_order s);
          u = as_usage s;
          u = (if us_total u = 0 \<and> (us_prompt u > 0 \<or> us_completion u > 0)
               then u\<lparr>us_total := go_int (us_prompt u + us_completion u)\<rparr> else u)
      in \<lparr>cr_message = blank_message\<lparr>ms_role := ''assistant'', ms_content := as_content s,
            ms_tool_calls := map block_call (filter (\<lambda>b. ba_kind b = ''tool_use'') blocks)\<rparr>,
          cr_usage = u, cr_model = as_model s, cr_latency_ms = 0\<rparr>)"

definition anthropic_chat ::
    "(string \<Rightarrow> string option) \<Rightarrow> 'w llm_env \<Rightarrow> llm_config \<Rightarrow> message list \<Rightarrow> llm_tool list \<Rightarrow> 'w attempt" where
  "anthropic_chat ft env cfg messages tools w =
     (case le_do env (anthropic_request ft cfg messages tools) w of
        (w, reply) \<Rightarrow> (w, stream_reply an_on_data an_init as_emitted an_finish reply))"

section \<open>Choosing a wire format\<close>

definition new_model ::
    "(string \<Rightarrow> string option) \<Rightarrow> 'w llm_env \<Rightarrow> llm_config \<Rightarrow> message list \<Rightarrow> llm_tool list \<Rightarrow> 'w attempt" where
  "new_model ft env cfg =
     (if lc_provider cfg = provider_anthropic then anthropic_chat ft env cfg else openai_chat env cfg)"

definition client_chat ::
    "(string \<Rightarrow> string option) \<Rightarrow> 'w llm_env \<Rightarrow> llm_config \<Rightarrow> message list \<Rightarrow> llm_tool list \<Rightarrow> 'w attempt" where
  "client_chat ft env cfg = chat env (new_model ft env) (normalized cfg)"

section \<open>The answer is what was emitted\<close>

definition an_in_step :: "an_state \<Rightarrow> bool" where
  "an_in_step s \<longleftrightarrow> concat (as_emitted s) = as_content s"

lemma on_block_delta_fields:
  "as_content (on_block_delta ev s) = as_content s @ (if ev_delta_type ev = ''text_delta'' then ev_delta_text ev else [])"
  "as_emitted (on_block_delta ev s) = as_emitted s @ (if ev_delta_type ev = ''text_delta'' then [ev_delta_text ev] else [])"
  by (auto simp: on_block_delta_def Let_def split: option.splits)

lemma an_step_in_step: "an_in_step s \<Longrightarrow> an_in_step (an_step ev s)"
  unfolding an_step_def an_in_step_def
  by (simp add: on_block_delta_fields on_message_start_def on_block_start_def on_message_delta_def Let_def)

lemma an_on_data_in_step: "an_in_step s \<Longrightarrow> an_in_step (fst (an_on_data data s))"
  by (auto simp: an_on_data_def an_step_in_step split: option.splits)

lemma anthropic_chat_Inr:
  assumes "anthropic_chat ft env cfg ms ts w = (w', emitted, Inr r)"
  obtains resp s where "le_do env (anthropic_request ft cfg ms ts) w = (w', Inr resp)"
    and "200 \<le> hr_status resp" "hr_status resp < 300"
    and "scan_sse an_on_data resp an_init = (s, None)" "emitted = as_emitted s" "r = an_finish s"
  using assms
  by (auto simp: anthropic_chat_def stream_reply_def split: prod.splits sum.splits if_splits option.splits)

lemma an_finish_message:
  "ms_content (cr_message (an_finish s)) = as_content s"
  "ms_role (cr_message (an_finish s)) = ''assistant''"
  by (simp_all add: an_finish_def Let_def)

interpretation anthropic: streaming_model "anthropic_chat ft env cfg" for ft env cfg
proof unfold_locales
  fix ms ts w w' emitted r
  assume "anthropic_chat ft env cfg ms ts w = (w', emitted, Inr r)"
  then show "concat emitted = ms_content (cr_message r) \<and> ms_role (cr_message r) = ''assistant''"
  proof (rule anthropic_chat_Inr)
    fix resp s
    assume s: "scan_sse an_on_data resp an_init = (s, None)" "emitted = as_emitted s" "r = an_finish s"
    have "an_in_step (fst (scan_sse an_on_data resp an_init))"
      unfolding scan_sse_def
      by (rule scan_lines_invariant [where P = an_in_step], erule an_on_data_in_step)
        (simp add: an_in_step_def an_init_def)
    with s show ?thesis by (simp add: an_in_step_def an_finish_message)
  qed
qed

interpretation model: streaming_model "new_model ft env cfg" for ft env cfg
  by unfold_locales
    (auto simp: new_model_def split: if_splits
      dest: anthropic.deltas_are_content openai.deltas_are_content)

lemma client_chat_deltas:
  "case client_chat ft env cfg ms ts w of
     (_, emitted, Inr r) \<Rightarrow> concat emitted = ms_content (cr_message r) \<and> ms_role (cr_message r) = ''assistant''
   | (w', emitted, Inl e) \<Rightarrow>
       emitted = [] \<or> (\<exists>v. new_model ft env (normalized cfg) ms ts v = (w', emitted, Inl e))"
proof -
  have eq: "client_chat ft env cfg ms ts w =
      chat env (\<lambda>_. new_model ft env (normalized cfg)) (normalized cfg) ms ts w"
    by (simp add: client_chat_def chat_def)
  show ?thesis
    unfolding eq by (auto split: prod.splits sum.splits dest: model.chat_deltas model.chat_error_deltas)
qed

section \<open>Properties\<close>

text \<open>C8: A partially streamed answer is never duplicated. When a chat round succeeds, whatever wire
  format, failures and retries there were, the deltas handed to the caller are together exactly the
  content of the answer; and when it fails, what was handed over is what one attempt emitted.\<close>

theorem chat_deltas_are_the_answer:
  "case client_chat ft env cfg ms ts w of
     (_, emitted, Inr r) \<Rightarrow> concat emitted = ms_content (cr_message r) \<and> ms_role (cr_message r) = ''assistant''
   | (w', emitted, Inl e) \<Rightarrow>
       emitted = [] \<or> (\<exists>v. new_model ft env (normalized cfg) ms ts v = (w', emitted, Inl e))"
  by (rule client_chat_deltas)

lemma client_chat_attempts:
  fixes count :: "'w \<Rightarrow> nat"
  assumes "\<And>v. count (fst (new_model ft env (normalized cfg) ms ts v)) \<le> Suc (count v)"
    and "\<And>d v. count (fst (le_wait env d v)) = count v"
  shows "count (fst (client_chat ft env cfg ms ts w)) \<le> count w + 3"
proof -
  have "count (fst (with_retry env (new_model ft env (normalized cfg) ms ts) llm_max_retries 0 w))
      \<le> count w + Suc llm_max_retries"
    by (rule with_retry_attempts) (rule assms)+
  then show ?thesis
    by (auto simp: client_chat_def chat_def Let_def llm_max_retries_def split: prod.splits sum.splits)
qed

text \<open>A round makes at most three requests. For any count of the world's requests that an attempt
  raises by at most one and waiting does not touch, \<open>Chat\<close> raises it by at most three.\<close>

theorem chat_attempts_bounded:
  fixes count :: "'w \<Rightarrow> nat"
  assumes "\<And>v. count (fst (new_model ft env (normalized cfg) ms ts v)) \<le> Suc (count v)"
    and "\<And>d v. count (fst (le_wait env d v)) = count v"
  shows "count (fst (client_chat ft env cfg ms ts w)) \<le> count w + 3"
  using assms by (rule client_chat_attempts)

text \<open>A service that is always overloaded; the world counts the requests.\<close>

definition overloaded_env :: "nat llm_env" where
  "overloaded_env =
     \<lparr>le_do = (\<lambda>_ n. (Suc n, Inr \<lparr>hr_status = 503, hr_body = ''busy'', hr_read_error = None\<rparr>)),
      le_ctx_err = (\<lambda>_. None), le_wait = (\<lambda>_ n. (n, None)), le_now = (\<lambda>_. 0)\<rparr>"

lemma chat_attempts_bounded_witness:
  "fst (client_chat Some overloaded_env demo_config [] [] 0) \<le> 0 + 3"
  by (rule chat_attempts_bounded [where count = "\<lambda>n. n"])
    (simp_all add: new_model_def anthropic_chat_def openai_chat_def overloaded_env_def)

section \<open>Tool calls of a well-formed stream\<close>

definition is_start :: "an_event \<Rightarrow> bool" where
  "is_start ev \<longleftrightarrow> ev_type ev = ''content_block_start''"

definition is_delta :: "an_event \<Rightarrow> bool" where
  "is_delta ev \<longleftrightarrow> ev_type ev = ''content_block_delta''"

text \<open>Every block is started once, before its deltas. \<open>seen\<close> are the indices started so far.\<close>

fun well_started :: "int list \<Rightarrow> an_event list \<Rightarrow> bool" where
  "well_started seen [] = True"
| "well_started seen (ev # evs) =
     (if is_start ev then ev_index ev \<notin> set seen \<and> well_started (ev_index ev # seen) evs
      else if is_delta ev then ev_index ev \<in> set seen \<and> well_started seen evs
      else well_started seen evs)"

definition events_of :: "http_response \<Rightarrow> an_event list" where
  "events_of r =
     takeWhile (\<lambda>ev. ev_type ev \<noteq> ''message_stop'')
       (List.map_filter parse_event (List.map_filter data_of_line (body_lines (hr_body r))))"

text \<open>The JSON deltas of one block.\<close>

definition block_json :: "int \<Rightarrow> an_event list \<Rightarrow> string" where
  "block_json i evs =
     concat (map ev_partial_json
       (filter (\<lambda>ev. is_delta ev \<and> ev_index ev = i \<and> ev_delta_type ev = ''input_json_delta'') evs))"

definition started_block :: "an_event list \<Rightarrow> an_event \<Rightarrow> block_acc" where
  "started_block evs st =
     \<lparr>ba_kind = ev_block_type st, ba_id = ev_block_id st, ba_name = ev_block_name st,
      ba_json = block_json (ev_index st) evs\<rparr>"

definition blocks_collected :: "an_event list \<Rightarrow> an_state \<Rightarrow> bool" where
  "blocks_collected evs s \<longleftrightarrow>
     as_order s = map ev_index (filter is_start evs)
     \<and> distinct (as_order s)
     \<and> dom (map_of (as_blocks s)) = set (as_order s)
     \<and> (\<forall>st. st \<in> set (filter is_start evs) \<longrightarrow> map_of (as_blocks s) (ev_index st) = Some (started_block evs st))"

lemma scan_events:
  "scan_lines an_on_data e ls s = (s', None) \<Longrightarrow>
     s' = fold an_step (takeWhile (\<lambda>ev. ev_type ev \<noteq> ''message_stop'')
       (List.map_filter parse_event (List.map_filter data_of_line ls))) s"
proof (induction ls arbitrary: s)
  case (Cons l ls)
  then show ?case
    by (auto simp: map_filter_simps an_on_data_def split: if_splits option.splits prod.splits)
qed (simp add: map_filter_simps)

lemma well_started_append:
  "well_started seen (evs @ [ev]) \<longleftrightarrow> well_started seen evs
     \<and> (is_start ev \<longrightarrow> ev_index ev \<notin> set seen \<union> ev_index ` set (filter is_start evs))
     \<and> (\<not> is_start ev \<and> is_delta ev \<longrightarrow> ev_index ev \<in> set seen \<union> ev_index ` set (filter is_start evs))"
  by (induction evs arbitrary: seen) auto

lemma block_json_append:
  "block_json i (evs @ [ev]) = block_json i evs @
     (if is_delta ev \<and> ev_index ev = i \<and> ev_delta_type ev = ''input_json_delta'' then ev_partial_json ev else [])"
  by (simp add: block_json_def)

lemma block_json_fresh:
  "well_started seen evs \<Longrightarrow> i \<notin> set seen \<Longrightarrow> i \<notin> ev_index ` set (filter is_start evs) \<Longrightarrow> block_json i evs = []"
  by (induction evs arbitrary: seen) (auto simp: block_json_def split: if_splits)

lemma is_start_delta: "is_delta ev \<Longrightarrow> \<not> is_start ev"
  by (simp add: is_start_def is_delta_def)

lemma an_step_collected:
  assumes "blocks_collected evs s" and "well_started [] (evs @ [ev])"
  shows "blocks_collected (evs @ [ev]) (an_step ev s)"
proof -
  have ws: "well_started [] evs"
    and fresh_index: "is_start ev \<Longrightarrow> ev_index ev \<notin> set (as_order s)"
    and known_index: "is_delta ev \<Longrightarrow> ev_index ev \<in> set (as_order s)"
    using assms by (auto simp: well_started_append blocks_collected_def dest: is_start_delta)
  consider (start) "is_start ev" | (delta) "is_delta ev" | (other) "\<not> is_start ev" "\<not> is_delta ev"
    by blast
  then show ?thesis
  proof cases
    case start
    have fresh: "block_json (ev_index ev) evs = []"
      using block_json_fresh [OF ws] fresh_index [OF start] assms(1) by (auto simp: blocks_collected_def)
    have same: "started_block (evs @ [ev]) st = started_block evs st" for st
      using start by (auto simp: started_block_def block_json_append dest: is_start_delta)
    have step: "an_step ev s = on_block_start ev s"
      using start by (simp add: an_step_def is_start_def)
    have neq: "ev_index st \<noteq> ev_index ev" if "st \<in> set evs" "is_start st" for st
      using that assms(1) fresh_index [OF start] by (auto simp: blocks_collected_def image_iff)
    have new: "map_of (as_blocks (on_block_start ev s)) (ev_index ev) = Some (started_block evs ev)"
      using fresh by (simp add: on_block_start_def gomap_get_update started_block_def)
    have old: "map_of (as_blocks (on_block_start ev s)) (ev_index st) = Some (started_block evs st)"
      if "st \<in> set evs" "is_start st" for st
      using that neq assms(1) by (simp add: on_block_start_def gomap_get_update blocks_collected_def)
    have "dom (map_of (as_blocks (on_block_start ev s))) = insert (ev_index ev) (set (as_order s))"
      using assms(1) by (simp add: on_block_start_def gomap_dom_update blocks_collected_def)
    moreover have "as_order (on_block_start ev s) = as_order s @ [ev_index ev]"
      by (simp add: on_block_start_def)
    ultimately show ?thesis
      using assms(1) start fresh_index [OF start] new old unfolding step
      by (auto simp: blocks_collected_def same)
  next
    case delta
    then have no: "\<not> is_start ev" by (rule is_start_delta)
    have idx: "ev_index ev \<in> set (as_order s)" using known_index [OF delta] .
    then obtain b where b: "map_of (as_blocks s) (ev_index ev) = Some b"
      using assms(1) by (auto simp: blocks_collected_def dom_def)
    have step: "an_step ev s = on_block_delta ev s"
      using delta by (simp add: an_step_def is_delta_def)
    show ?thesis
      unfolding step
      using assms(1) b no delta idx
      by (auto simp: blocks_collected_def on_block_delta_def Let_def gomap_get_update gomap_dom_update
          started_block_def block_json_append)
  next
    case other
    have "as_blocks (an_step ev s) = as_blocks s" "as_order (an_step ev s) = as_order s"
      using other by (auto simp: an_step_def is_start_def is_delta_def on_message_start_def on_message_delta_def Let_def)
    with assms(1) other show ?thesis
      by (auto simp: blocks_collected_def started_block_def block_json_append)
  qed
qed

lemma fold_an_step_collected: "well_started [] evs \<Longrightarrow> blocks_collected evs (fold an_step evs an_init)"
proof (induction evs rule: rev_induct)
  case Nil
  show ?case by (simp add: blocks_collected_def an_init_def)
next
  case (snoc ev evs)
  then have "well_started [] evs" by (simp add: well_started_append)
  with snoc show ?case by (simp add: an_step_collected)
qed

lemma finish_blocks:
  assumes "blocks_collected evs s"
  shows "List.map_filter (map_of (as_blocks s)) (as_order s) = map (started_block evs) (filter is_start evs)"
proof -
  have "List.map_filter (map_of (as_blocks s)) (map ev_index sts) = map (started_block evs) sts"
    if "set sts \<subseteq> set (filter is_start evs)" for sts
    using that assms by (induction sts) (auto simp: map_filter_simps blocks_collected_def)
  with assms show ?thesis by (simp add: blocks_collected_def)
qed

text \<open>C28: From a stream that starts every content block once and before its deltas, the tool calls are
  exactly the started \<open>tool_use\<close> blocks in order, each with the concatenation of its own JSON deltas
  however they are interleaved with those of other blocks, and with \<open>{}\<close> where there are none.\<close>

theorem anthropic_reassembles:
  assumes "anthropic_chat ft env cfg ms ts w = (w', emitted, Inr r)"
    and "le_do env (anthropic_request ft cfg ms ts) w = (w', Inr resp)"
    and "well_started [] (events_of resp)"
  shows "ms_tool_calls (cr_message r) =
    map (\<lambda>st. \<lparr>tc_id = ev_block_id st, tc_type = ''function'', tc_name = ev_block_name st,
        tc_arguments = (let a = block_json (ev_index st) (events_of resp) in if trim_space a = [] then ''{}'' else a)\<rparr>)
      (filter (\<lambda>st. is_start st \<and> ev_block_type st = ''tool_use'') (events_of resp))"
proof -
  obtain s where s: "scan_sse an_on_data resp an_init = (s, None)" "r = an_finish s"
    using anthropic_chat_Inr [OF assms(1)] assms(2) by (metis Inr_inject prod.inject)
  then have "s = fold an_step (events_of resp) an_init"
    by (auto simp: scan_sse_def events_of_def dest: scan_events)
  with fold_an_step_collected [OF assms(3)] have "blocks_collected (events_of resp) s" by simp
  from finish_blocks [OF this] show ?thesis
    by (simp add: s(2) an_finish_def Let_def filter_map o_def started_block_def block_call_def conj_commute
        flip: filter_filter)
qed

text \<open>Two interleaved tool calls.\<close>

definition demo_tool_stream :: string where
  "demo_tool_stream = concat (map (\<lambda>d. ''data: '' @ d @ [CHR 0x0A])
     [''{\"type\":\"content_block_start\",\"index\":1,\"content_block\":{\"type\":\"tool_use\",\"id\":\"a\",\"name\":\"x\"}}'',
      ''{\"type\":\"content_block_start\",\"index\":0,\"content_block\":{\"type\":\"tool_use\",\"id\":\"b\",\"name\":\"y\"}}'',
      ''{\"type\":\"content_block_delta\",\"index\":1,\"delta\":{\"type\":\"input_json_delta\",\"partial_json\":\"[1]\"}}''])"

definition demo_tool_response :: http_response where
  "demo_tool_response = \<lparr>hr_status = 200, hr_body = demo_tool_stream, hr_read_error = None\<rparr>"

definition demo_stream_events :: "an_event list" where
  "demo_stream_events =
     [zero_event\<lparr>ev_type := ''content_block_start'', ev_index := 1, ev_block_type := ''tool_use'',
        ev_block_id := ''a'', ev_block_name := ''x''\<rparr>,
      zero_event\<lparr>ev_type := ''content_block_start'', ev_block_type := ''tool_use'',
        ev_block_id := ''b'', ev_block_name := ''y''\<rparr>,
      zero_event\<lparr>ev_type := ''content_block_delta'', ev_index := 1, ev_delta_type := ''input_json_delta'',
        ev_partial_json := ''[1]''\<rparr>]"

lemma demo_tool_read:
  "events_of demo_tool_response = demo_stream_events \<and> snd (scan_sse an_on_data demo_tool_response an_init) = None"
  by code_simp

lemmas demo_events_of = conjunct1 [OF demo_tool_read] and demo_tool_scan = conjunct2 [OF demo_tool_read]

lemma demo_tool_chat:
  "\<exists>emitted r. anthropic_chat Some (stream_env demo_tool_stream) demo_config [] [] () = ((), emitted, Inr r)"
  using demo_tool_scan
  by (auto simp: anthropic_chat_def stream_env_def stream_reply_def demo_tool_response_def split: prod.splits)

lemma demo_tool_calls:
  "map (\<lambda>st. \<lparr>tc_id = ev_block_id st, tc_type = ''function'', tc_name = ev_block_name st,
       tc_arguments = (let a = block_json (ev_index st) demo_stream_events in if trim_space a = [] then ''{}'' else a)\<rparr>)
     (filter (\<lambda>st. is_start st \<and> ev_block_type st = ''tool_use'') demo_stream_events)
   = [\<lparr>tc_id = ''a'', tc_type = ''function'', tc_name = ''x'', tc_arguments = ''[1]''\<rparr>,
      \<lparr>tc_id = ''b'', tc_type = ''function'', tc_name = ''y'', tc_arguments = ''{}''\<rparr>]"
  by code_simp

lemma anthropic_reassembles_witness:
  "\<exists>emitted r. anthropic_chat Some (stream_env demo_tool_stream) demo_config [] [] () = ((), emitted, Inr r)
     \<and> ms_tool_calls (cr_message r) =
       [\<lparr>tc_id = ''a'', tc_type = ''function'', tc_name = ''x'', tc_arguments = ''[1]''\<rparr>,
        \<lparr>tc_id = ''b'', tc_type = ''function'', tc_name = ''y'', tc_arguments = ''{}''\<rparr>]"
proof -
  obtain emitted r where
    r: "anthropic_chat Some (stream_env demo_tool_stream) demo_config [] [] () = ((), emitted, Inr r)"
    using demo_tool_chat by blast
  have resp: "le_do (stream_env demo_tool_stream) (anthropic_request Some demo_config [] []) () = ((), Inr demo_tool_response)"
    by (simp add: stream_env_def demo_tool_response_def)
  have "well_started [] (events_of demo_tool_response)"
    unfolding demo_events_of by code_simp
  from anthropic_reassembles [OF r resp this] r show ?thesis
    unfolding demo_events_of demo_tool_calls by blast
qed

text \<open>Of the statuses that are not a success exactly 429, the server errors and everything below 400
  are tried again; every other client error is final.\<close>

theorem statuses_retried:
  assumes "100 \<le> hr_status resp" and "hr_status resp < 1000"
  shows "is_retryable (http_error resp) \<longleftrightarrow> hr_status resp = 429 \<or> hr_status resp < 400 \<or> 500 \<le> hr_status resp"
  using assms by (rule http_error_retryable)

lemma statuses_retried_witness:
  "\<not> is_retryable (http_error \<lparr>hr_status = 401, hr_body = [], hr_read_error = None\<rparr>)"
  using statuses_retried [of "\<lparr>hr_status = 401, hr_body = [], hr_read_error = None\<rparr>"] by simp

end
