(* ===== verification/Go_Duration.thy ===== *)
theory Go_Duration
  imports Go_Strings
begin

text \<open>
  \<open>time.ParseDuration\<close> of the standard library, by which the configuration reads its timeout:
  a sign and then terms of a decimal number and a unit. Numbers are 64-bit and unsigned, and a
  fraction of a unit is computed in 64-bit floating point.
\<close>

section \<open>Floating point\<close>

text \<open>
  A positive double as a fraction of naturals: 53 significant bits, nearest with ties to even. The
  numbers that occur lie between \<open>10\<^sup>-\<^sup>1\<^sup>9\<close> and \<open>2\<^sup>6\<^sup>4\<close>, so the exponent never leaves its range.
\<close>

fun bit_length :: "nat \<Rightarrow> nat" where
  "bit_length n = (if n = 0 then 0 else Suc (bit_length (n div 2)))"

declare bit_length.simps [simp del]

definition round_even :: "nat \<Rightarrow> nat \<Rightarrow> nat" where
  "round_even a b =
     (let q = a div b; r = a mod b
      in if 2 * r < b then q else if 2 * r > b then q + 1 else q + q mod 2)"

definition to_double :: "nat \<times> nat \<Rightarrow> nat \<times> nat" where
  "to_double x =
     (let (a, b) = x; up = 53 + bit_length b; down = bit_length a;
          a' = a * 2 ^ up; b' = b * 2 ^ down;
          (b', down) = (if a' div b' < 2 ^ 53 then (b', down) else (b' * 2, down + 1))
      in if a = 0 then (0, 1) else (round_even a' b' * 2 ^ down, 2 ^ up))"

text \<open>The digits \<open>f\<close> of a fraction, \<open>k\<close> of them, in a unit: \<open>uint64(float64(f) * (float64(unit) / scale))\<close>.\<close>

definition fraction_of :: "nat \<Rightarrow> nat \<Rightarrow> nat \<Rightarrow> nat" where
  "fraction_of f k unit =
     (let (a, b) = to_double (f, 1); (c, d) = to_double (unit, 10 ^ k); (p, q) = to_double (a * c, b * d)
      in p div q)"

section \<open>Numbers\<close>

fun leading_int :: "nat \<Rightarrow> string \<Rightarrow> (nat \<times> string) option" where
  "leading_int x [] = Some (x, [])"
| "leading_int x (c # cs) =
     (case digit_value c of
        None \<Rightarrow> Some (x, c # cs)
      | Some d \<Rightarrow>
          if x > 2 ^ 63 div 10 \<or> 10 * x + d > 2 ^ 63 then None else leading_int (10 * x + d) cs)"

text \<open>Digits that do not fit are read and dropped.\<close>

fun leading_fraction :: "bool \<Rightarrow> nat \<Rightarrow> nat \<Rightarrow> string \<Rightarrow> nat \<times> nat \<times> string" where
  "leading_fraction over x k [] = (x, k, [])"
| "leading_fraction over x k (c # cs) =
     (case digit_value c of
        None \<Rightarrow> (x, k, c # cs)
      | Some d \<Rightarrow>
          if over \<or> x > (2 ^ 63 - 1) div 10 \<or> 10 * x + d > 2 ^ 63 then leading_fraction True x k cs
          else leading_fraction False (10 * x + d) (k + 1) cs)"

section \<open>Terms\<close>

text \<open>The micro sign and the Greek letter are two bytes each.\<close>

definition unit_map :: "(string \<times> nat) list" where
  "unit_map =
     [(''ns'', 1), (''us'', 1000), ([CHR 0xC2, CHR 0xB5] @ ''s'', 1000), ([CHR 0xCE, CHR 0xBC] @ ''s'', 1000),
      (''ms'', 1000000), (''s'', 1000000000), (''m'', 60000000000), (''h'', 3600000000000)]"

datatype duration_error = Invalid_Duration | Missing_Unit | Unknown_Unit string

definition unit_byte :: "char \<Rightarrow> bool" where
  "unit_byte c \<longleftrightarrow> c \<noteq> CHR ''.'' \<and> digit_value c = None"

text \<open>The digits after a point and whether there are any; nothing without a point.\<close>

definition read_fraction :: "string \<Rightarrow> nat \<times> nat \<times> string \<times> bool" where
  "read_fraction s =
     (case s of
        [] \<Rightarrow> (0, 0, s, False)
      | c # cs \<Rightarrow>
          if c = CHR ''.''
          then (let (f, k, rest) = leading_fraction False 0 0 cs in (f, k, rest, length rest \<noteq> length cs))
          else (0, 0, s, False))"

definition duration_term :: "string \<Rightarrow> duration_error + nat \<times> string" where
  "duration_term s =
     (if s = [] \<or> unit_byte (hd s) then Inl Invalid_Duration
      else (case leading_int 0 s of
          None \<Rightarrow> Inl Invalid_Duration
        | Some (v, s1) \<Rightarrow>
            (let (f, k, s2, post) = read_fraction s1; u = takeWhile unit_byte s2; rest = dropWhile unit_byte s2
             in if length s1 = length s \<and> \<not> post then Inl Invalid_Duration
                else if u = [] then Inl Missing_Unit
                else (case map_of unit_map u of
                    None \<Rightarrow> Inl (Unknown_Unit u)
                  | Some unit \<Rightarrow>
                      if v > 2 ^ 63 div unit then Inl Invalid_Duration
                      else if f = 0 then Inr (v * unit, rest)
                      else (let v = (v * unit + fraction_of f k unit) mod 2 ^ 64
                            in if v > 2 ^ 63 then Inl Invalid_Duration else Inr (v, rest))))))"

lemma leading_int_le: "leading_int x s = Some (v, t) \<Longrightarrow> length t \<le> length s"
  by (induction x s rule: leading_int.induct) (auto split: option.splits if_splits)

lemma leading_fraction_le: "leading_fraction ov x k s = (f, j, t) \<Longrightarrow> length t \<le> length s"
  by (induction ov x k s rule: leading_fraction.induct) (auto split: option.splits if_splits)

lemma read_fraction_le: "read_fraction s = (f, k, t, post) \<Longrightarrow> length t \<le> length s"
  by (auto simp: read_fraction_def split: list.splits if_splits prod.splits dest: leading_fraction_le)

lemma duration_term_shorter:
  assumes "duration_term s = Inr (v, t)"
  shows "length t < length s"
proof -
  obtain w s1 f k s2 post where s1: "leading_int 0 s = Some (w, s1)" and s2: "read_fraction s1 = (f, k, s2, post)"
      and t: "takeWhile unit_byte s2 \<noteq> []" "t = dropWhile unit_byte s2"
    using assms by (auto simp: duration_term_def Let_def split: if_splits option.splits prod.splits)
  have "length s2 = length (takeWhile unit_byte s2) + length t"
    unfolding t(2) by (metis length_append takeWhile_dropWhile_id)
  with t(1) have "length t < length s2" by (cases "takeWhile unit_byte s2") simp_all
  with leading_int_le [OF s1] read_fraction_le [OF s2] show ?thesis by simp
qed

section \<open>The parser\<close>

function parse_terms :: "nat \<Rightarrow> string \<Rightarrow> duration_error + nat" where
  "parse_terms d s =
     (if s = [] then Inr d
      else (case duration_term s of
          Inl e \<Rightarrow> Inl e
        | Inr (v, rest) \<Rightarrow>
            if (d + v) mod 2 ^ 64 > 2 ^ 63 then Inl Invalid_Duration
            else parse_terms ((d + v) mod 2 ^ 64) rest))"
  by pat_completeness auto
termination
  by (relation "measure (length \<circ> snd)") (auto simp: duration_term_shorter)

declare parse_terms.simps [simp del]

definition parse_duration :: "string \<Rightarrow> duration_error + duration" where
  "parse_duration s =
     (let body = (if take 1 s = ''-'' \<or> take 1 s = ''+'' then drop 1 s else s)
      in if body = ''0'' then Inr 0
         else if body = [] then Inl Invalid_Duration
         else (case parse_terms 0 body of
             Inl e \<Rightarrow> Inl e
           | Inr d \<Rightarrow>
               if take 1 s = ''-'' then Inr (- int d)
               else if d > 2 ^ 63 - 1 then Inl Invalid_Duration
               else Inr (int d)))"

section \<open>Range\<close>

text \<open>A result always fits a duration.\<close>

lemma parse_terms_le: "parse_terms d s = Inr v \<Longrightarrow> d \<le> 2 ^ 63 \<Longrightarrow> v \<le> 2 ^ 63"
proof (induction d s arbitrary: v rule: parse_terms.induct)
  case (1 d s)
  from 1(2,3) show ?case
    by (subst (asm) parse_terms.simps)
      (auto split: if_splits sum.splits prod.splits dest!: 1(1))
qed

lemma parse_duration_range:
  assumes "parse_duration s = Inr d"
  shows "min_duration \<le> d \<and> d \<le> max_duration"
  using assms
  by (auto simp: parse_duration_def Let_def min_duration_def max_duration_def
      split: if_splits sum.splits dest!: parse_terms_le)

end
