(* ===== verification/Config.thy ===== *)
theory Config
  imports Go_Duration
begin

text \<open>
  The configuration (\<open>internal/config/config.go\<close>): its fields, the defaults and the checks.
  Reading the TOML file is an argument of \<open>load_config\<close>; the decoder is handed the program's own
  method for durations.
\<close>

record config =
  cf_listen_addr :: string
  cf_public_url :: string
  cf_chain_id :: string
  cf_evm_rpc_url :: string
  cf_llm_provider :: string
  cf_llm_base_url :: string
  cf_llm_model :: string
  cf_llm_api_key_env :: string
  cf_mcp_url :: string
  cf_mcp_auth_token :: string
  cf_mcp_timeout :: duration

definition unmarshal_duration :: "string \<Rightarrow> duration_error + duration" where
  "unmarshal_duration b = parse_duration b"

datatype config_error =
    Decode_Toml string string
  | Required string

definition require_evm :: "config \<Rightarrow> config_error option" where
  "require_evm c = (if trim_space (cf_evm_rpc_url c) = [] then Some (Required ''dex_chain.evm_rpc_url'') else None)"

definition validate_config :: "config \<Rightarrow> config_error option" where
  "validate_config c =
     (if trim_space (cf_listen_addr c) = [] then Some (Required ''listen_addr'')
      else if trim_space (cf_chain_id c) = [] then Some (Required ''dex_chain.id'')
      else (case require_evm c of
          Some e \<Rightarrow> Some e
        | None \<Rightarrow>
            if trim_space (cf_mcp_url c) = [] then Some (Required ''defi_mcp.url'')
            else if trim_space (cf_mcp_auth_token c) = [] then Some (Required ''defi_mcp.auth_token'')
            else if trim_space (cf_llm_api_key_env c) = [] then Some (Required ''llm.api_key_env'')
            else None))"

definition load_config ::
    "((string \<Rightarrow> duration_error + duration) \<Rightarrow> string \<Rightarrow> string + config) \<Rightarrow> string \<Rightarrow>
     config_error + config" where
  "load_config decode_file path =
     (case decode_file unmarshal_duration path of
        Inl e \<Rightarrow> Inl (Decode_Toml path e)
      | Inr cfg \<Rightarrow>
          (let cfg = (if cf_public_url cfg = [] \<and> cf_listen_addr cfg \<noteq> []
                      then cfg\<lparr>cf_public_url := ''http://localhost'' @ cf_listen_addr cfg\<rparr> else cfg)
           in case validate_config cfg of Some e \<Rightarrow> Inl e | None \<Rightarrow> Inr cfg))"

text \<open>The settings the agent cannot start without.\<close>

definition required_set :: "config \<Rightarrow> bool" where
  "required_set c \<longleftrightarrow>
     trim_space (cf_listen_addr c) \<noteq> [] \<and> trim_space (cf_chain_id c) \<noteq> []
     \<and> trim_space (cf_evm_rpc_url c) \<noteq> [] \<and> trim_space (cf_mcp_url c) \<noteq> []
     \<and> trim_space (cf_mcp_auth_token c) \<noteq> [] \<and> trim_space (cf_llm_api_key_env c) \<noteq> []"

lemma validate_config_None: "validate_config c = None \<longleftrightarrow> required_set c"
  by (auto simp: validate_config_def require_evm_def required_set_def)

lemma validate_public_url [simp]: "validate_config (c\<lparr>cf_public_url := u\<rparr>) = validate_config c"
  by (simp add: validate_config_def require_evm_def)

lemma required_listen_addr: "required_set c \<Longrightarrow> cf_listen_addr c \<noteq> []"
  by (auto simp: required_set_def)

lemma load_config_Inr:
  "load_config decode path = Inr cfg \<longleftrightarrow>
     (\<exists>raw. decode unmarshal_duration path = Inr raw \<and> required_set raw
        \<and> cfg = (if cf_public_url raw = []
                 then raw\<lparr>cf_public_url := ''http://localhost'' @ cf_listen_addr raw\<rparr> else raw))"
proof (cases "decode unmarshal_duration path")
  case (Inr raw)
  show ?thesis
  proof (cases "required_set raw")
    case True
    with Inr required_listen_addr [OF True] show ?thesis
      using validate_config_None [of raw] by (auto simp: load_config_def Let_def)
  next
    case False
    with Inr show ?thesis
      using validate_config_None [of raw] by (auto simp: load_config_def Let_def split: option.splits)
  qed
qed (simp add: load_config_def)

lemma load_config_set:
  assumes "load_config decode path = Inr c"
  shows "required_set c \<and> cf_public_url c \<noteq> []"
proof -
  from assms obtain raw where raw: "required_set raw" "c = (if cf_public_url raw = []
      then raw\<lparr>cf_public_url := ''http://localhost'' @ cf_listen_addr raw\<rparr> else raw)"
    by (auto simp: load_config_Inr)
  show ?thesis
    using raw(1) unfolding raw(2) by (simp add: required_set_def)
qed

section \<open>Properties\<close>

text \<open>C37: A configuration loads exactly when the file decodes and has every setting the agent cannot
  start without; it is then what the file says, with a public URL made from the listen address
  where the file gives none, and it still has all those settings.\<close>

theorem load_config_complete:
  "(load_config decode path = Inr cfg \<longleftrightarrow>
     (\<exists>raw. decode unmarshal_duration path = Inr raw \<and> required_set raw
        \<and> cfg = (if cf_public_url raw = []
                 then raw\<lparr>cf_public_url := ''http://localhost'' @ cf_listen_addr raw\<rparr> else raw)))
   \<and> (case load_config decode path of
        Inl _ \<Rightarrow> True
      | Inr c \<Rightarrow> required_set c \<and> cf_public_url c \<noteq> [])"
proof
  show "case load_config decode path of Inl _ \<Rightarrow> True | Inr c \<Rightarrow> required_set c \<and> cf_public_url c \<noteq> []"
    using load_config_set [of decode path] by (cases "load_config decode path") simp_all
qed (rule load_config_Inr)

end
