(* ===== verification/Agent_Boot.thy ===== *)
theory Agent_Boot
  imports A2A_Server Agent_Runner Config
begin

text \<open>
  Start-up: the wiring of the public surface (\<open>internal/wire/wire.go\<close>) and the command
  (\<open>cmd/svpchain-evm-agent\<close>), from the configuration to the executor that serves requests.

  Everything behind the agent is one world: the client of the private service, the language model
  and the transactions handed to the node. What the node answers may depend on all of it.
\<close>

section \<open>The world behind the agent\<close>

record ('w, 'sess, 'l, 'tx) agent_world =
  aw_gateway :: "('w, 'sess, json) gateway"
  aw_llm :: 'l
  aw_submitted :: "'tx list"

type_synonym ('w, 'sess, 'l, 'tx) node = "('w, 'sess, 'l, 'tx) agent_world \<Rightarrow> 'tx evm_client"

text \<open>
  The libraries and services the command reaches: TOML, the environment, the RPC dialer, the MCP
  SDK, the model's transport, the schemas reflected from the inputs of local handlers, and the
  wording of JSON errors.
\<close>

record ('w, 'sess, 'l, 'tx) agent_deps =
  ad_decode_file :: "(string \<Rightarrow> duration_error + duration) \<Rightarrow> string \<Rightarrow> string + config"
  ad_getenv :: "string \<Rightarrow> string"
  ad_dial :: "string \<Rightarrow> string + ('w, 'sess, 'l, 'tx) node"
  ad_sdk :: "('w, 'sess) runner_sdk"
  ad_llm_env :: "'l llm_env"
  ad_schema :: "string \<Rightarrow> json option"
  ad_env :: a2a_env

section \<open>Local handlers\<close>

definition dec_signed_tx :: "string decoder" where
  "dec_signed_tx = dec_object (\<lambda>cur ms. dec_field dec_string ''raw_tx_hex'' ms cur)"

definition dec_broadcast_input :: "broadcast_input decoder" where
  "dec_broadcast_input = dec_struct
     [field_into ''client_id'' dec_string bi_client_id bi_client_id_update,
      field_into ''signed_tx'' dec_signed_tx bi_raw_tx_hex bi_raw_tx_hex_update]"

definition dec_tx_status_input :: "string decoder" where
  "dec_tx_status_input = dec_object (\<lambda>cur ms. dec_field dec_string ''tx_hash'' ms cur)"

definition zero_broadcast_input :: broadcast_input where
  "zero_broadcast_input = \<lparr>bi_client_id = [], bi_raw_tx_hex = []\<rparr>"

definition broadcast_handler ::
    "('w, 'sess, 'l, 'tx) node \<Rightarrow> call_ctx \<Rightarrow> broadcast_input \<Rightarrow> ('w, 'sess, 'l, 'tx) agent_world \<Rightarrow>
     ('w, 'sess, 'l, 'tx) agent_world \<times> (op_error + json op_result)" where
  "broadcast_handler node ctx inp g =
     (case broadcast (node g) inp of
        (txs, r) \<Rightarrow>
          (g\<lparr>aw_submitted := aw_submitted g @ txs\<rparr>,
           case r of Inl e \<Rightarrow> Inl (Relay_Failed e) | Inr hash \<Rightarrow> Inr (Op_Relayed hash)))"

definition status_handler ::
    "('w, 'sess, 'l, 'tx) node \<Rightarrow> call_ctx \<Rightarrow> string \<Rightarrow> ('w, 'sess, 'l, 'tx) agent_world \<Rightarrow>
     ('w, 'sess, 'l, 'tx) agent_world \<times> (op_error + json op_result)" where
  "status_handler node ctx tx_hash g =
     (g, case tx_status (node g) tx_hash of Inl e \<Rightarrow> Inl (Relay_Failed e) | Inr s \<Rightarrow> Inr (Op_Status s))"

section \<open>Wiring\<close>

datatype boot_error =
    Config_Path_Required
  | Config_Failed config_error
  | Dial_Failed string
  | Register_Failed registry_error
  | Register_Panic registry_error
  | Mcp_Failed mcp_error

text \<open>\<open>RegisterMeta\<close> panics where \<open>Add\<close> gives an error.\<close>

definition wire_build ::
    "('w, 'sess, 'l, 'tx) agent_deps \<Rightarrow> config \<Rightarrow>
     boot_error + (('w, 'sess, 'l, 'tx) agent_world, json) registry \<times> tenant_store" where
  "wire_build deps cfg =
     (case require_evm cfg of
        Some e \<Rightarrow> Inl (Config_Failed e)
      | None \<Rightarrow>
          (case ad_dial deps (cf_evm_rpc_url cfg) of
             Inl e \<Rightarrow> Inl (Dial_Failed e)
           | Inr node \<Rightarrow>
               (case foldE (\<lambda>(name, skill, b). add_op skill name b)
                   [(''broadcast_evm_tx'', skill_evm,
                       native (ad_schema deps ''broadcast_evm_tx'') zero_broadcast_input dec_broadcast_input
                         (broadcast_handler node)),
                    (''evm_tx_status'', skill_evm,
                       native (ad_schema deps ''evm_tx_status'') [] dec_tx_status_input (status_handler node))]
                   new_registry of
                  Inl e \<Rightarrow> Inl (Register_Failed e)
                | Inr r \<Rightarrow>
                    (case register_meta (ad_schema deps ''list_tools'') r of
                       Inl e \<Rightarrow> Inl (Register_Panic e)
                     | Inr r \<Rightarrow> Inr (r, new_tenant_store default_bearer_ttl)))))"

section \<open>The command\<close>

definition reserved_mcp_tool :: "string \<Rightarrow> bool" where
  "reserved_mcp_tool name \<longleftrightarrow>
     name \<in> {''auth_challenge'', ''auth_verify'', ''broadcast_evm_tx'', ''evm_tx_status'', ''list_tools''}"

definition mcp_proxy ::
    "('w, 'sess) runner_sdk \<Rightarrow> string \<Rightarrow> ('w, 'sess, 'l, 'tx) agent_world proxy" where
  "mcp_proxy sdk name ctx args g =
     (case call sdk (cx_caller ctx) name (Some args) (aw_gateway g) of
        (gw, out, err) \<Rightarrow>
          (g\<lparr>aw_gateway := gw\<rparr>, case err of None \<Rightarrow> Inr out | Some e \<Rightarrow> Inl (Proxy_Failed e)))"

definition add_catalog ::
    "(string \<Rightarrow> string option) \<Rightarrow> ('w, 'sess) runner_sdk \<Rightarrow> json tool list \<Rightarrow>
     (('w, 'sess, 'l, 'tx) agent_world, json) registry \<Rightarrow>
     registry_error + (('w, 'sess, 'l, 'tx) agent_world, json) registry" where
  "add_catalog ft sdk =
     foldE (\<lambda>t r. if reserved_mcp_tool (tl_name t) then Inr r
       else add_proxy ft skill_evm (tl_name t) (Some (tl_input_schema t)) (mcp_proxy sdk (tl_name t)) r)"

text \<open>What the runner's failures read like; \<open>args_error\<close> is the JSON decoder's own wording.\<close>

fun run_error_text :: "(string \<Rightarrow> string) \<Rightarrow> run_error \<Rightarrow> string" where
  "run_error_text args_error No_Read_Only_Tools = ''no read-only private MCP tools are configured''"
| "run_error_text args_error (Chat_Failed e) = error_text e"
| "run_error_text args_error (Not_Read_Only n) = ''LLM selected non-read-only tool '' @ go_quote n"
| "run_error_text args_error (Bad_Arguments n) = ''decode '' @ n @ '' args: '' @ args_error n"
| "run_error_text args_error Too_Many_Rounds = ''agent exceeded '' @ show_nat max_rounds @ '' tool rounds''"

definition agent_intent ::
    "('w, 'sess, 'l, 'tx) agent_deps \<Rightarrow> llm_config \<Rightarrow> llm_tool list \<Rightarrow>
     ('w, 'sess, 'l, 'tx) agent_world intent_runner" where
  "agent_intent deps cfg tools intent g =
     (case run_intent (ae_float (ad_env deps)) (ad_sdk deps)
         (client_chat (ae_float (ad_env deps)) (ad_llm_env deps) cfg) tools None intent
         \<lparr>rs_gateway = aw_gateway g, rs_llm = aw_llm g\<rparr> of
        (st, r) \<Rightarrow>
          (g\<lparr>aw_gateway := rs_gateway st, aw_llm := rs_llm st\<rparr>,
           map_err (run_error_text (\<lambda>n. ae_args_error (ad_env deps) n None)) r))"

definition agent_identity :: card_identity where
  "agent_identity =
     \<lparr>ci_name = ''svpchain-evm-agent'', ci_version = ''0.1.0'',
      ci_description =
        ''EVM DeFi agent for SVP-Chain. It synchronizes its private DeFi MCP '' @
        ''tool catalog at startup and can plan read-only DeFi tasks with an LLM. '' @
        ''Every state-changing EVM payload is signed by the caller locally before broadcast.'',
      ci_overrides =
        [(skill_evm, ''EVM transaction broadcast and status. Additional private MCP tools '' @
           ''are synchronized at startup and published here only when the private service is reachable.'')]\<rparr>"

record ('w, 'sess, 'l, 'tx) agent =
  ag_executor :: "('w, 'sess, 'l, 'tx) agent_world executor"
  ag_card :: agent_card
  ag_gateway :: "('w, 'sess, json) gateway"

text \<open>\<open>StartFullFor\<close>, up to serving: the executor and the card.\<close>

definition start_agent ::
    "('w, 'sess, 'l, 'tx) agent_deps \<Rightarrow> config \<Rightarrow> (('w, 'sess, 'l, 'tx) agent_world, json) registry \<Rightarrow>
     tenant_store \<Rightarrow> ('w, 'sess, json) gateway \<Rightarrow> ('w, 'sess, 'l, 'tx) agent" where
  "start_agent deps cfg r tenants gw =
     (let llm = \<lparr>lc_api_key = ad_getenv deps (cf_llm_api_key_env cfg), lc_base_url = cf_llm_base_url cfg,
                 lc_model = cf_llm_model cfg, lc_provider = cf_llm_provider cfg\<rparr>;
          tools = new_runner (cl_tools (gw_client gw))
      in \<lparr>ag_executor = \<lparr>ex_registry = r, ex_authr = Some \<lparr>ar_tenants = Some tenants\<rparr>,
                          ex_intent = Some (agent_intent deps llm tools)\<rparr>,
          ag_card = build_agent_card agent_identity (cf_public_url cfg) r,
          ag_gateway = gw\<rparr>)"

text \<open>A failure after the connection closes it on the way out.\<close>

definition boot ::
    "('w, 'sess, 'l, 'tx) agent_deps \<Rightarrow> string \<Rightarrow> 'w \<Rightarrow> 'w \<times> (boot_error + ('w, 'sess, 'l, 'tx) agent)" where
  "boot deps config_path w =
     (if config_path = [] then (w, Inl Config_Path_Required)
      else (case load_config (ad_decode_file deps) config_path of
          Inl e \<Rightarrow> (w, Inl (Config_Failed e))
        | Inr cfg \<Rightarrow>
            (case require_evm cfg of
               Some e \<Rightarrow> (w, Inl (Config_Failed e))
             | None \<Rightarrow>
                 (case wire_build deps cfg of
                    Inl e \<Rightarrow> (w, Inl e)
                  | Inr (r, tenants) \<Rightarrow>
                      (case connect (ad_sdk deps) (cf_mcp_url cfg) (cf_mcp_auth_token cfg) (cf_mcp_timeout cfg) w of
                         (w, Inl e) \<Rightarrow> (w, Inl (Mcp_Failed e))
                       | (w, Inr client) \<Rightarrow>
                           (let gw = \<lparr>gw_client = client, gw_world = w, gw_log = []\<rparr>
                            in case add_catalog (ae_float (ad_env deps)) (ad_sdk deps) (client_tools client) r of
                                 Inl e \<Rightarrow> (gw_world (fst (close_client (ad_sdk deps) gw)), Inl (Register_Failed e))
                               | Inr r \<Rightarrow> (w, Inr (start_agent deps cfg r tenants gw))))))))"

section \<open>The registry after start-up\<close>

text \<open>The agent's own three operations.\<close>

definition local_op ::
    "('w, 'sess, 'l, 'tx) agent_deps \<Rightarrow> ('w, 'sess, 'l, 'tx) node \<Rightarrow> string \<Rightarrow>
     (('w, 'sess, 'l, 'tx) agent_world, json) op option" where
  "local_op deps node t =
     (if t = ''list_tools'' then
        Some \<lparr>op_skill = skill_meta, op_tool = t, op_call = List_Registry,
              op_input_schema = ad_schema deps t, op_raw_schema = None\<rparr>
      else if t = ''broadcast_evm_tx'' then
        (let b = native (ad_schema deps t) zero_broadcast_input dec_broadcast_input (broadcast_handler node)
         in Some \<lparr>op_skill = skill_evm, op_tool = t, op_call = bd_call b,
                  op_input_schema = bd_input_schema b, op_raw_schema = None\<rparr>)
      else if t = ''evm_tx_status'' then
        (let b = native (ad_schema deps t) [] dec_tx_status_input (status_handler node)
         in Some \<lparr>op_skill = skill_evm, op_tool = t, op_call = bd_call b,
                  op_input_schema = bd_input_schema b, op_raw_schema = None\<rparr>)
      else None)"

lemma local_op_None: "local_op deps node t = None \<longleftrightarrow> t \<notin> {''list_tools'', ''broadcast_evm_tx'', ''evm_tx_status''}"
  by (simp add: local_op_def Let_def)

lemma local_op_reserved: "local_op deps node t = Some op \<Longrightarrow> reserved_mcp_tool t \<and> op_tool op = t"
  by (auto simp: local_op_def reserved_mcp_tool_def Let_def split: if_splits)

text \<open>Nothing of the wiring can fail but the settings and the dialer.\<close>

lemma wire_build_eq:
  assumes "require_evm cfg = None"
  shows "case ad_dial deps (cf_evm_rpc_url cfg) of
      Inl e \<Rightarrow> wire_build deps cfg = Inl (Dial_Failed e)
    | Inr node \<Rightarrow> (\<exists>r. wire_build deps cfg = Inr (r, new_tenant_store default_bearer_ttl)
        \<and> registry_ok r \<and> (\<forall>t. lookup_op r t = local_op deps node t))"
proof (cases "ad_dial deps (cf_evm_rpc_url cfg)")
  case (Inl e)
  with assms show ?thesis by (simp add: wire_build_def)
next
  case (Inr node)
  let ?b = "native (ad_schema deps ''broadcast_evm_tx'') zero_broadcast_input dec_broadcast_input (broadcast_handler node)"
  let ?s = "native (ad_schema deps ''evm_tx_status'') [] dec_tx_status_input (status_handler node)"
  let ?m = "\<lparr>bd_call = List_Registry, bd_input_schema = ad_schema deps ''list_tools''\<rparr>"
  obtain r1 where r1: "add_op skill_evm ''broadcast_evm_tx'' ?b new_registry = Inr r1"
    by (simp add: add_op_def new_registry_def)
  obtain r2 where r2: "add_op skill_evm ''evm_tx_status'' ?s r1 = Inr r2"
    using r1 by (auto simp: add_op_def new_registry_def)
  obtain r3 where r3: "add_op skill_meta ''list_tools'' ?m r2 = Inr r3"
    using r1 r2 by (auto simp: add_op_def new_registry_def)
  have "wire_build deps cfg = Inr (r3, new_tenant_store default_bearer_ttl)"
    using assms Inr r1 r2 r3 by (simp add: wire_build_def register_meta_def)
  moreover have "registry_ok r3"
    using add_op_ok [OF add_op_ok [OF add_op_ok [OF new_registry_ok r1] r2] r3] .
  moreover have "lookup_op r3 t = local_op deps node t" for t
    using r1 r2 r3
    by (auto simp: add_op_Inr lookup_op_def local_op_def new_registry_def gomap_get_update Let_def)
  ultimately show ?thesis using Inr by simp
qed

text \<open>The entries of the catalog, with the operations they become.\<close>

definition catalog_named :: "json catalog \<Rightarrow> bool" where
  "catalog_named tools \<longleftrightarrow> gomap_ok tools \<and> list_all (\<lambda>(n, t). tl_name t = n) tools"

definition catalog_entries ::
    "('w, 'sess) runner_sdk \<Rightarrow> json catalog \<Rightarrow>
     (string \<times> string \<times> json option \<times> ('w, 'sess, 'l, 'tx) agent_world proxy) list" where
  "catalog_entries sdk tools =
     map (\<lambda>(n, t). (n, skill_evm, Some (tl_input_schema t), mcp_proxy sdk n))
       (filter (\<lambda>(n, _). \<not> reserved_mcp_tool n) tools)"

lemma add_catalog_entries:
  assumes "list_all (\<lambda>(n, t). tl_name t = n) tools"
  shows "add_catalog ft sdk (map snd tools) r =
     foldE (\<lambda>(t, b). (\<lambda>t (skill, schema, proxy). add_proxy ft skill t schema proxy) t b) (catalog_entries sdk tools) r"
  using assms
proof (induction tools arbitrary: r)
  case (Cons nt tools)
  obtain n t where nt: "nt = (n, t)" by (cases nt)
  with Cons.prems have tl: "tl_name t = n" "list_all (\<lambda>(n, t). tl_name t = n) tools" by auto
  note IH = Cons.IH [OF tl(2), unfolded add_catalog_def catalog_entries_def]
  show ?case
    using IH
    by (cases "reserved_mcp_tool n";
        cases "add_proxy ft skill_evm n (Some (tl_input_schema t)) (mcp_proxy sdk n) r")
      (simp_all add: nt tl(1) add_catalog_def catalog_entries_def)
qed (simp add: add_catalog_def catalog_entries_def)

lemma catalog_entries_keys:
  "map fst (catalog_entries sdk tools) = filter (\<lambda>n. \<not> reserved_mcp_tool n) (map fst tools)"
  by (induction tools) (auto simp: catalog_entries_def)

lemma catalog_entries_lookup:
  "map_of (catalog_entries sdk tools) n =
     (if reserved_mcp_tool n then None
      else map_option (\<lambda>t. (skill_evm, Some (tl_input_schema t), mcp_proxy sdk n)) (map_of tools n))"
  by (induction tools) (auto simp: catalog_entries_def)

text \<open>Adding the catalog to the agent's own operations cannot collide.\<close>

lemma add_catalog_ok:
  assumes named: "catalog_named tools" and own: "\<And>t. lookup_op r t = local_op deps node t" and "registry_ok r"
  shows "\<exists>r'. add_catalog ft sdk (map snd tools) r = Inr r' \<and> registry_ok r'
    \<and> (\<forall>t. lookup_op r' t =
         (if reserved_mcp_tool t then local_op deps node t
          else map_option (\<lambda>tl. proxy_op ft skill_evm t (Some (tl_input_schema tl)) (mcp_proxy sdk t)) (map_of tools t)))"
proof -
  let ?es = "catalog_entries sdk tools"
  have all: "list_all (\<lambda>(n, t). tl_name t = n) tools" "distinct (map fst tools)"
    using named by (simp_all add: catalog_named_def gomap_ok_def)
  then have distinct: "distinct (map fst ?es)" by (simp add: catalog_entries_keys)
  have fresh: "lookup_op r t = None" if "t \<in> set (map fst ?es)" for t
  proof -
    from that have "\<not> reserved_mcp_tool t" unfolding catalog_entries_keys by simp
    then show ?thesis using local_op_reserved [of deps node t] own [of t] by (cases "local_op deps node t") auto
  qed
  obtain r' where r': "add_catalog ft sdk (map snd tools) r = Inr r'"
      and look: "\<And>u. lookup_op r' u = (case map_of ?es u of None \<Rightarrow> lookup_op r u
        | Some b \<Rightarrow> Some ((\<lambda>t (skill, schema, proxy). proxy_op ft skill t schema proxy) u b))"
    using proxies.add_all [OF distinct fresh] unfolding add_catalog_entries [OF all(1)] by blast
  have "registry_ok r'"
    using r' unfolding add_catalog_def
    by (rule foldE_invariant [where P = registry_ok, rotated 2])
      (use assms(3) in \<open>auto split: if_splits intro: add_proxy_ok\<close>)
  moreover have "lookup_op r' t =
      (if reserved_mcp_tool t then local_op deps node t
       else map_option (\<lambda>tl. proxy_op ft skill_evm t (Some (tl_input_schema tl)) (mcp_proxy sdk t)) (map_of tools t))" for t
    using local_op_reserved [of deps node t]
    by (cases "map_of tools t"; cases "local_op deps node t") (auto simp: look own catalog_entries_lookup)
  ultimately show ?thesis using r' by blast
qed

section \<open>Start-up\<close>

lemma build_catalog_named:
  assumes "build_catalog [] ts = Inr tools"
  shows "catalog_named tools"
proof -
  have named: "\<forall>n t. map_of tools n = Some t \<longrightarrow> tl_name t = n"
    if "build_catalog acc ts = Inr tools" "\<forall>n t. map_of acc n = Some t \<longrightarrow> tl_name t = n" for acc
    using that
  proof (induction ts arbitrary: acc)
    case (Cons t ts)
    from Cons.prems(1) show ?case
      by (rule build_catalog_ConsE)
        (erule Cons.IH, use Cons.prems(2) in \<open>auto simp: gomap_get_update\<close>)
  qed simp
  from named [OF assms] have name: "tl_name t = n" if "map_of tools n = Some t" for n t using that by simp
  have ok: "gomap_ok tools" using build_catalog_ok [OF gomap_ok_Nil assms] .
  then have "tl_name t = n" if "(n, t) \<in> set tools" for n t
    using that name by (simp add: gomap_in_set)
  with ok show ?thesis unfolding catalog_named_def list_all_iff by blast
qed

lemma load_config_evm: "load_config decode path = Inr cfg \<Longrightarrow> require_evm cfg = None"
  using load_config_set [of decode path cfg] by (auto simp: required_set_def require_evm_def)

lemma build_catalog_error: "build_catalog tools ts \<noteq> Inl Token_Required"
proof (induction ts arbitrary: tools)
  case (Cons t ts)
  then show ?case
    by (simp add: build_catalog.simps(2) Let_def split: option.split)
qed simp

lemma connect_required:
  assumes "load_config decode path = Inr cfg"
  shows "snd (connect sdk (cf_mcp_url cfg) (cf_mcp_auth_token cfg) timeout w) \<noteq> Inl Token_Required"
proof -
  have token: "trim_space (cf_mcp_auth_token cfg) \<noteq> []"
    using load_config_set [OF assms] by (simp add: required_set_def)
  let ?t = "if timeout \<le> 0 then default_timeout else timeout"
  let ?session = "connect_session sdk (trim_space (cf_mcp_url cfg)) (trim_space (cf_mcp_auth_token cfg)) ?t w"
  have "snd ?session \<noteq> Inl Token_Required"
    using build_catalog_error by (auto simp: connect_session_def split: prod.splits sum.splits)
  with token show ?thesis
    by (cases ?session; cases "snd ?session") (auto simp: connect_def Let_def)
qed

text \<open>What a start-up comes to: the configuration, the dialer and the connection decide.\<close>

lemma boot_cases:
  assumes "boot deps path w = (w', res)"
  obtains (no_path) "path = []" "res = Inl Config_Path_Required"
  | (config) e where "path \<noteq> []" "load_config (ad_decode_file deps) path = Inl e" "res = Inl (Config_Failed e)"
  | (dial) cfg e where "path \<noteq> []" "load_config (ad_decode_file deps) path = Inr cfg"
      "ad_dial deps (cf_evm_rpc_url cfg) = Inl e" "res = Inl (Dial_Failed e)"
  | (mcp) cfg node e where "path \<noteq> []" "load_config (ad_decode_file deps) path = Inr cfg"
      "ad_dial deps (cf_evm_rpc_url cfg) = Inr node" "res = Inl (Mcp_Failed e)" "e \<noteq> Token_Required"
      "connect (ad_sdk deps) (cf_mcp_url cfg) (cf_mcp_auth_token cfg) (cf_mcp_timeout cfg) w = (w', Inl e)"
  | (up) cfg node client r where "path \<noteq> []" "load_config (ad_decode_file deps) path = Inr cfg"
      "ad_dial deps (cf_evm_rpc_url cfg) = Inr node"
      "connect (ad_sdk deps) (cf_mcp_url cfg) (cf_mcp_auth_token cfg) (cf_mcp_timeout cfg) w = (w', Inr client)"
      "res = Inr (start_agent deps cfg r (new_tenant_store default_bearer_ttl)
         \<lparr>gw_client = client, gw_world = w', gw_log = []\<rparr>)"
      "catalog_named (cl_tools client)" "registry_ok r"
      "\<And>t. lookup_op r t = (if reserved_mcp_tool t then local_op deps node t
         else map_option (\<lambda>tl. proxy_op (ae_float (ad_env deps)) skill_evm t (Some (tl_input_schema tl))
           (mcp_proxy (ad_sdk deps) t)) (map_of (cl_tools client) t))"
proof (cases "path = []")
  case True
  with assms no_path show ?thesis by (simp add: boot_def)
next
  case False
  show ?thesis
  proof (cases "load_config (ad_decode_file deps) path")
    case (Inl e)
    with False assms config show ?thesis by (simp add: boot_def)
  next
    case (Inr cfg)
    note evm = load_config_evm [OF Inr]
    show ?thesis
    proof (cases "ad_dial deps (cf_evm_rpc_url cfg)")
      case (Inl e)
      with wire_build_eq [OF evm, of deps] have "wire_build deps cfg = Inl (Dial_Failed e)" by simp
      with False \<open>load_config _ _ = _\<close> evm assms Inl dial show ?thesis by (simp add: boot_def)
    next
      case node: (Inr node)
      obtain r where r: "wire_build deps cfg = Inr (r, new_tenant_store default_bearer_ttl)"
          "registry_ok r" "\<And>t. lookup_op r t = local_op deps node t"
        using wire_build_eq [OF evm, of deps] node by auto
      obtain w1 c where conn: "connect (ad_sdk deps) (cf_mcp_url cfg) (cf_mcp_auth_token cfg) (cf_mcp_timeout cfg) w = (w1, c)"
        by (cases "connect (ad_sdk deps) (cf_mcp_url cfg) (cf_mcp_auth_token cfg) (cf_mcp_timeout cfg) w")
      show ?thesis
      proof (cases c)
        case (Inl e)
        have "e \<noteq> Token_Required"
          using connect_required [OF Inr, of "ad_sdk deps" "cf_mcp_timeout cfg" w] conn Inl by auto
        with False Inr evm assms r conn Inl node show ?thesis by (intro mcp) (auto simp: boot_def)
      next
        case client: (Inr client)
        obtain listed where "build_catalog [] listed = Inr (cl_tools client)"
          using conn unfolding client by (rule connect_ok)
        then have named: "catalog_named (cl_tools client)" by (rule build_catalog_named)
        obtain r' where r': "add_catalog (ae_float (ad_env deps)) (ad_sdk deps) (map snd (cl_tools client)) r = Inr r'"
            "registry_ok r'"
            "\<And>t. lookup_op r' t = (if reserved_mcp_tool t then local_op deps node t
               else map_option (\<lambda>tl. proxy_op (ae_float (ad_env deps)) skill_evm t (Some (tl_input_schema tl))
                 (mcp_proxy (ad_sdk deps) t)) (map_of (cl_tools client) t))"
          using add_catalog_ok [OF named r(3) r(2)] by blast
        have "boot deps path w = (w1, Inr (start_agent deps cfg r' (new_tenant_store default_bearer_ttl)
            \<lparr>gw_client = client, gw_world = w1, gw_log = []\<rparr>))"
          using False Inr evm r(1) conn client r'(1) by (simp add: boot_def client_tools_def)
        with assms have "w1 = w'" "res = Inr (start_agent deps cfg r' (new_tenant_store default_bearer_ttl)
            \<lparr>gw_client = client, gw_world = w1, gw_log = []\<rparr>)" by auto
        with False Inr node conn client named r' show ?thesis by (intro up) auto
      qed
    qed
  qed
qed

lemma boot_never_panics: "snd (boot deps path w) \<noteq> Inl (Register_Panic e)"
proof -
  obtain w' res where "boot deps path w = (w', res)" by (cases "boot deps path w")
  moreover from this have "snd (boot deps path w) = res" by simp
  ultimately show ?thesis by (cases rule: boot_cases) auto
qed

section \<open>What a request can do\<close>

text \<open>The executor of a started agent, with the node it relays to and the catalog it serves.\<close>

definition wired ::
    "('w, 'sess, 'l, 'tx) agent_deps \<Rightarrow> ('w, 'sess, 'l, 'tx) node \<Rightarrow> string set \<Rightarrow>
     (('w, 'sess, 'l, 'tx) agent_world, json) registry \<Rightarrow> bool" where
  "wired deps node cat r \<longleftrightarrow> registry_ok r \<and>
     (\<forall>t op. lookup_op r t = Some op \<longrightarrow>
        local_op deps node t = Some op \<or>
        (\<not> reserved_mcp_tool t \<and> t \<in> cat \<and>
         (\<exists>schema. op = proxy_op (ae_float (ad_env deps)) skill_evm t schema (mcp_proxy (ad_sdk deps) t))))"

lemma wired_relay_skill:
  assumes "wired deps node cat r" and "lookup_op r ''broadcast_evm_tx'' = Some op"
  shows "op_skill op = skill_evm"
proof -
  have "reserved_mcp_tool ''broadcast_evm_tx''" by (simp add: reserved_mcp_tool_def)
  with assms have "local_op deps node ''broadcast_evm_tx'' = Some op" unfolding wired_def by blast
  then show ?thesis by (auto simp: local_op_def Let_def)
qed

lemma list_op_effect:
  "op_call op = List_Registry \<Longrightarrow> fst (call_op r op ctx raw g) = g"
  by (auto simp: call_op_def split: option.splits)

lemma native_effect:
  assumes "op_call op = bd_call (native schema zero dec f)"
  shows "fst (call_op r op ctx raw g) = g
    \<or> (\<exists>inp. (case raw of None \<Rightarrow> Some zero | Some v \<Rightarrow> dec zero v) = Some inp
         \<and> fst (call_op r op ctx raw g) = fst (f ctx inp g))"
  using assms by (auto simp: call_op_def native_def split: option.splits)

lemma proxy_effect:
  "fst (call_op r (proxy_op ft skill t schema (mcp_proxy sdk t)) ctx raw g) = g
   \<or> (\<exists>ca. fst (call_op r (proxy_op ft skill t schema (mcp_proxy sdk t)) ctx raw g)
         = g\<lparr>aw_gateway := call_state sdk t ca (aw_gateway g)\<rparr>)"
proof (cases "proxy_args ft raw")
  case (Inr args)
  obtain gw out err where c: "call sdk (cx_caller ctx) t (Some args) (aw_gateway g) = (gw, out, err)"
    by (cases "call sdk (cx_caller ctx) t (Some args) (aw_gateway g)") auto
  then have "call_state sdk t (cx_caller ctx, Some args) (aw_gateway g) = gw"
    by (simp add: call_state_def)
  with c show ?thesis
    by (intro disjI2 exI [of _ "(cx_caller ctx, Some args)"])
      (auto simp: call_proxy_op Inr mcp_proxy_def split: option.splits)
qed (simp add: call_proxy_op)

definition broadcast_args :: "raw_message \<Rightarrow> broadcast_input option" where
  "broadcast_args raw =
     (case raw of None \<Rightarrow> Some zero_broadcast_input | Some v \<Rightarrow> dec_broadcast_input zero_broadcast_input v)"

lemma op_effect:
  assumes "wired deps node cat r" and "lookup_op r t = Some op"
  obtains (same) "fst (call_op r op ctx raw g) = g"
  | (relayed) inp where "t = ''broadcast_evm_tx''" "broadcast_args raw = Some inp"
      "fst (call_op r op ctx raw g) = g\<lparr>aw_submitted := aw_submitted g @ fst (broadcast (node g) inp)\<rparr>"
  | (proxied) ca where "\<not> reserved_mcp_tool t" "t \<in> cat"
      "fst (call_op r op ctx raw g) = g\<lparr>aw_gateway := call_state (ad_sdk deps) t ca (aw_gateway g)\<rparr>"
proof -
  from assms consider (own) "local_op deps node t = Some op"
    | (mcp) schema where "\<not> reserved_mcp_tool t" "t \<in> cat"
        "op = proxy_op (ae_float (ad_env deps)) skill_evm t schema (mcp_proxy (ad_sdk deps) t)"
    by (auto simp: wired_def)
  then show ?thesis
  proof cases
    case own
    then consider "op_call op = List_Registry"
      | "t = ''broadcast_evm_tx''"
        "op_call op = bd_call (native (ad_schema deps t) zero_broadcast_input dec_broadcast_input (broadcast_handler node))"
      | "op_call op = bd_call (native (ad_schema deps t) [] dec_tx_status_input (status_handler node))"
      by (auto simp: local_op_def Let_def split: if_splits)
    then show ?thesis
    proof cases
      case 1
      then show ?thesis by (intro same list_op_effect)
    next
      case 2
      from native_effect [OF 2(2), of r ctx raw g] show ?thesis
      proof (elim disjE exE conjE)
        fix inp
        assume "(case raw of None \<Rightarrow> Some zero_broadcast_input | Some v \<Rightarrow> dec_broadcast_input zero_broadcast_input v) = Some inp"
          and "fst (call_op r op ctx raw g) = fst (broadcast_handler node ctx inp g)"
        then show ?thesis
          by (intro relayed [OF 2(1)]) (auto simp: broadcast_args_def broadcast_handler_def split: prod.splits)
      qed (rule same)
    next
      case 3
      from native_effect [OF 3, of r ctx raw g] have "fst (call_op r op ctx raw g) = g"
        by (auto simp: status_handler_def)
      then show ?thesis by (rule same)
    qed
  next
    case mcp
    from proxy_effect [of r "ae_float (ad_env deps)" skill_evm t schema "ad_sdk deps" ctx raw g] show ?thesis
      unfolding mcp(3) [symmetric] using same proxied [OF mcp(1,2)] by blast
  qed
qed

text \<open>One request, with its time and its consumer.\<close>

type_synonym arrival = "time \<times> exec_ctx \<times> (nat \<Rightarrow> bool)"

definition serve_request ::
    "('w, 'sess, 'l, 'tx) agent_deps \<Rightarrow> ('w, 'sess, 'l, 'tx) agent \<Rightarrow> arrival \<Rightarrow>
     ('w, 'sess, 'l, 'tx) agent_world \<Rightarrow> ('w, 'sess, 'l, 'tx) agent_world" where
  "serve_request deps ag req g =
     (case req of (now, xc, accepts) \<Rightarrow> fst (execute (ad_env deps) (ag_executor ag) now xc accepts g))"

text \<open>Requests that ask for a relay: structured, under the right skill and tool, with a client id.\<close>

definition asks_relay :: "arrival \<Rightarrow> broadcast_input \<Rightarrow> bool" where
  "asks_relay a inp \<longleftrightarrow> (case a of (_, xc, _) \<Rightarrow>
     \<exists>req. structured xc req \<and> rq_skill req = skill_evm \<and> rq_tool req = ''broadcast_evm_tx''
       \<and> broadcast_args (rq_args req) = Some inp \<and> bi_client_id inp \<noteq> [])"

text \<open>The private tools a request may reach.\<close>

definition reachable_tool :: "string \<Rightarrow> bool" where
  "reachable_tool n \<longleftrightarrow> reserved_mcp_tool n \<longrightarrow> read_only n"

lemma agent_intent_effect:
  "\<exists>cs. aw_gateway (fst (agent_intent deps cfg tools intent g)) =
       run (\<lambda>(n, a). call_state (ad_sdk deps) n a) cs (aw_gateway g)
     \<and> list_all read_only (map fst cs)
     \<and> aw_submitted (fst (agent_intent deps cfg tools intent g)) = aw_submitted g"
proof -
  let ?st = "\<lparr>rs_gateway = aw_gateway g, rs_llm = aw_llm g\<rparr>"
  let ?ask = "client_chat (ae_float (ad_env deps)) (ad_llm_env deps) cfg"
  obtain cs where "rs_gateway (fst (run_intent (ae_float (ad_env deps)) (ad_sdk deps) ?ask tools None intent ?st)) =
      run (\<lambda>(n, a). call_state (ad_sdk deps) n a) cs (aw_gateway g)" "list_all read_only (map fst cs)"
    using run_intent_run [of "ae_float (ad_env deps)" "ad_sdk deps" ?ask tools None intent ?st] by auto
  then show ?thesis
    by (cases "run_intent (ae_float (ad_env deps)) (ad_sdk deps) ?ask tools None intent ?st")
      (auto simp: agent_intent_def)
qed

lemma handle_effect:
  assumes "wired deps node cat r" and "ex_registry ex = r" and "ex_intent ex = Some (agent_intent deps cfg tools)"
  shows "(\<exists>cs. aw_gateway (fst (handle env ex now xc g)) =
        run (\<lambda>(n, a). call_state (ad_sdk deps) n a) cs (aw_gateway g)
      \<and> list_all reachable_tool (map fst cs))
    \<and> (aw_submitted (fst (handle env ex now xc g)) = aw_submitted g
      \<or> (\<exists>inp. asks_relay (now, xc, accepts) inp
          \<and> aw_submitted (fst (handle env ex now xc g)) = aw_submitted g @ fst (broadcast (node g) inp)))"
proof -
  have intent: ?thesis if eq: "fst (handle env ex now xc g) = fst (agent_intent deps cfg tools i g)" for i
  proof -
    obtain cs where "aw_gateway (fst (agent_intent deps cfg tools i g)) =
        run (\<lambda>(n, a). call_state (ad_sdk deps) n a) cs (aw_gateway g)" "list_all read_only (map fst cs)"
        "aw_submitted (fst (agent_intent deps cfg tools i g)) = aw_submitted g"
      using agent_intent_effect by blast
    then show ?thesis
      unfolding eq by (intro conjI exI [of _ cs]) (auto simp: list_all_iff reachable_tool_def)
  qed
  have same: ?thesis if "fst (handle env ex now xc g) = g"
    unfolding that by (intro conjI exI [of _ "[]"]) simp_all
  show ?thesis
  proof (cases "unmarshal_request (message_text (xc_message xc))")
    case None
    then show ?thesis using assms(3) by (intro intent) (simp add: handle_def)
  next
    case (Some req)
    show ?thesis
    proof (cases "structured xc req")
      case False
      with Some assms(3) show ?thesis by (intro intent) (simp add: handle_def structured_def Let_def)
    next
      case True
      show ?thesis
      proof (cases "select_op r req")
        case (Inl e)
        then show ?thesis using assms(2) by (intro same) (simp add: handle_structured [OF True])
      next
        case (Inr op)
        have op: "lookup_op r (rq_tool req) = Some op" "op_skill op = rq_skill req"
          using Inr by (simp_all add: select_op_Inr)
        have eq: "fst (handle env ex now xc g) = fst (call_op r op (request_ctx ex now xc req) (rq_args req) g)"
          using Inr assms(2) by (simp add: handle_structured [OF True] split: prod.split)
        show ?thesis
        proof (cases rule: op_effect [OF assms(1) op(1), of "request_ctx ex now xc req" "rq_args req" g,
              case_names same relayed proxied])
          case same
          then show ?thesis unfolding eq by (intro conjI exI [of _ "[]"]) simp_all
        next
          case (relayed inp)
          have skill: "rq_skill req = skill_evm"
            using wired_relay_skill [OF assms(1)] op relayed(1) by simp
          show ?thesis
          proof (cases "bi_client_id inp = []")
            case True
            then have "fst (broadcast (node g) inp) = []" by (simp add: broadcast_def)
            with relayed show ?thesis unfolding eq by (intro conjI exI [of _ "[]"]) simp_all
          next
            case False
            with True relayed skill have "asks_relay (now, xc, accepts) inp" by (auto simp: asks_relay_def)
            with relayed show ?thesis unfolding eq by (intro conjI disjI2 exI [of _ "[]"] exI [of _ inp]) simp_all
          qed
        next
          case (proxied ca)
          then show ?thesis
            unfolding eq by (intro conjI exI [of _ "[(rq_tool req, ca)]"]) (simp_all add: reachable_tool_def)
        qed
      qed
    qed
  qed
qed

lemma execute_world:
  "fst (execute env ex now xc accepts g) = g
   \<or> fst (execute env ex now xc accepts g) = fst (handle env ex now xc g)"
  by (cases "xc_message xc") (simp_all add: execute_shape, simp add: execute_def)

lemma serve_request_effect:
  assumes "wired deps node cat (ex_registry (ag_executor ag))"
    and "ex_intent (ag_executor ag) = Some (agent_intent deps cfg tools)"
  shows "(\<exists>cs. aw_gateway (serve_request deps ag a g) =
        run (\<lambda>(n, a). call_state (ad_sdk deps) n a) cs (aw_gateway g)
      \<and> list_all reachable_tool (map fst cs))
    \<and> (aw_submitted (serve_request deps ag a g) = aw_submitted g
      \<or> (\<exists>inp. asks_relay a inp
          \<and> aw_submitted (serve_request deps ag a g) = aw_submitted g @ fst (broadcast (node g) inp)))"
proof -
  obtain now xc accepts where a: "a = (now, xc, accepts)" by (cases a)
  from execute_world [of "ad_env deps" "ag_executor ag" now xc accepts g] show ?thesis
  proof
    assume "fst (execute (ad_env deps) (ag_executor ag) now xc accepts g) = g"
    then have "serve_request deps ag a g = g" by (simp add: serve_request_def a)
    then show ?thesis by (intro conjI exI [of _ "[]"]) simp_all
  next
    assume "fst (execute (ad_env deps) (ag_executor ag) now xc accepts g) =
      fst (handle (ad_env deps) (ag_executor ag) now xc g)"
    then have eq: "serve_request deps ag a g = fst (handle (ad_env deps) (ag_executor ag) now xc g)"
      by (simp add: serve_request_def a)
    show ?thesis
      unfolding eq [unfolded a] a by (rule handle_effect [OF assms(1) refl assms(2)])
  qed
qed

text \<open>A run of requests is a run of calls, and what it relays was asked for.\<close>

lemma serve_run_calls:
  assumes "wired deps node cat (ex_registry (ag_executor ag))"
    and "ex_intent (ag_executor ag) = Some (agent_intent deps cfg tools)"
  shows "\<exists>cs. aw_gateway (run (serve_request deps ag) reqs g) =
        run (\<lambda>(n, a). call_state (ad_sdk deps) n a) cs (aw_gateway g)
      \<and> list_all reachable_tool (map fst cs)"
proof (induction reqs arbitrary: g)
  case Nil
  show ?case by (intro exI [of _ "[]"]) simp
next
  case (Cons a reqs)
  obtain cs where cs: "aw_gateway (serve_request deps ag a g) =
      run (\<lambda>(n, a). call_state (ad_sdk deps) n a) cs (aw_gateway g)" "list_all reachable_tool (map fst cs)"
    using serve_request_effect [OF assms] by blast
  obtain cs' where "aw_gateway (run (serve_request deps ag) reqs (serve_request deps ag a g)) =
      run (\<lambda>(n, a). call_state (ad_sdk deps) n a) cs' (aw_gateway (serve_request deps ag a g))"
      "list_all reachable_tool (map fst cs')"
    using Cons.IH by blast
  with cs show ?case by (intro exI [of _ "cs @ cs'"]) simp
qed

lemma broadcast_payload:
  assumes "tx \<in> set (fst (broadcast ec inp))"
  shows "fst (broadcast ec inp) = [tx] \<and> bindE (ec_hex_decode ec (bi_raw_tx_hex inp)) (ec_unmarshal_tx ec) = Inr tx"
  using assms by (auto simp: broadcast_def split: if_splits sum.splits option.splits)

lemma length_broadcast: "length (fst (broadcast ec inp)) \<le> 1"
  by (auto simp: broadcast_def split: sum.splits option.splits)

lemma serve_run_relays:
  assumes "wired deps node cat (ex_registry (ag_executor ag))"
    and "ex_intent (ag_executor ag) = Some (agent_intent deps cfg tools)"
  shows "\<exists>txs. aw_submitted (run (serve_request deps ag) reqs g) = aw_submitted g @ txs
    \<and> length txs \<le> length (filter (\<lambda>a. \<exists>inp. asks_relay a inp) reqs)
    \<and> (\<forall>tx\<in>set txs. \<exists>a\<in>set reqs. \<exists>inp v. asks_relay a inp
        \<and> bindE (ec_hex_decode (node v) (bi_raw_tx_hex inp)) (ec_unmarshal_tx (node v)) = Inr tx)"
proof (induction reqs arbitrary: g)
  case (Cons a reqs)
  let ?g = "serve_request deps ag a g"
  obtain txs where txs: "aw_submitted (run (serve_request deps ag) reqs ?g) = aw_submitted ?g @ txs"
      "length txs \<le> length (filter (\<lambda>a. \<exists>inp. asks_relay a inp) reqs)"
      "\<forall>tx\<in>set txs. \<exists>a\<in>set reqs. \<exists>inp v. asks_relay a inp
        \<and> bindE (ec_hex_decode (node v) (bi_raw_tx_hex inp)) (ec_unmarshal_tx (node v)) = Inr tx"
    using Cons.IH [of ?g] by blast
  from serve_request_effect [OF assms, of a g] consider
      (none) "aw_submitted ?g = aw_submitted g"
    | (relay) inp where "asks_relay a inp" "aw_submitted ?g = aw_submitted g @ fst (broadcast (node g) inp)"
    by blast
  then show ?case
  proof cases
    case none
    with txs show ?thesis by (intro exI [of _ txs]) (auto intro: le_SucI)
  next
    case relay
    have "\<exists>inp v. asks_relay a inp
        \<and> bindE (ec_hex_decode (node v) (bi_raw_tx_hex inp)) (ec_unmarshal_tx (node v)) = Inr tx"
      if "tx \<in> set (fst (broadcast (node g) inp))" for tx
      using broadcast_payload [OF that] relay(1) by blast
    with txs relay length_broadcast [of "node g" inp] show ?thesis
      by (intro exI [of _ "fst (broadcast (node g) inp) @ txs"]) (auto simp del: set_append simp: set_append)
  qed
qed simp

lemma boot_wired:
  assumes "boot deps path w = (w', Inr ag)"
  obtains node cfg llm tools where "wired deps node (catalog_names (ag_gateway ag)) (ex_registry (ag_executor ag))"
    and "load_config (ad_decode_file deps) path = Inr cfg"
    and "ad_dial deps (cf_evm_rpc_url cfg) = Inr node"
    and "ex_intent (ag_executor ag) = Some (agent_intent deps llm tools)"
    and "ex_authr (ag_executor ag) = Some \<lparr>ar_tenants = Some (new_tenant_store default_bearer_ttl)\<rparr>"
    and "\<And>t. lookup_op (ex_registry (ag_executor ag)) t = (if reserved_mcp_tool t then local_op deps node t
         else map_option (\<lambda>tl. proxy_op (ae_float (ad_env deps)) skill_evm t (Some (tl_input_schema tl))
           (mcp_proxy (ad_sdk deps) t)) (map_of (cl_tools (gw_client (ag_gateway ag))) t))"
    and "gw_log (ag_gateway ag) = []"
  using assms
proof (cases rule: boot_cases)
  case (up cfg node client r)
  then have ag: "ag = start_agent deps cfg r (new_tenant_store default_bearer_ttl)
      \<lparr>gw_client = client, gw_world = w', gw_log = []\<rparr>" by simp
  have fields: "ex_registry (ag_executor ag) = r" "gw_client (ag_gateway ag) = client"
      "ex_authr (ag_executor ag) = Some \<lparr>ar_tenants = Some (new_tenant_store default_bearer_ttl)\<rparr>"
      "gw_log (ag_gateway ag) = []"
    and "\<exists>llm tools. ex_intent (ag_executor ag) = Some (agent_intent deps llm tools)"
    by (auto simp: ag start_agent_def Let_def)
  then obtain llm tools where intent: "ex_intent (ag_executor ag) = Some (agent_intent deps llm tools)" by blast
  have wired: "wired deps node (catalog_names (ag_gateway ag)) r"
    unfolding wired_def fields using up(7,8) by (auto simp: dom_def)
  show ?thesis
    by (rule that [of node cfg llm tools]) (use wired in \<open>simp_all only: fields intent up(2,3,8)\<close>)
qed simp_all

section \<open>The operations of a started agent\<close>

lemma boot_card:
  assumes "boot deps path w = (w', Inr ag)"
  shows "\<exists>url. ag_card ag = build_agent_card agent_identity url (ex_registry (ag_executor ag))"
  using assms by (cases rule: boot_cases) (auto simp: start_agent_def Let_def)

lemma boot_names:
  assumes "boot deps path w = (w', Inr ag)" and "t \<in> catalog_names (ag_gateway ag)"
  shows "t \<noteq> []"
  using assms(1)
proof (cases rule: boot_cases)
  case (up cfg node client r)
  then have client: "gw_client (ag_gateway ag) = client" by (simp add: start_agent_def Let_def)
  obtain listed where listed: "build_catalog [] listed = Inr (cl_tools client)"
    using up(4) by (rule connect_ok)
  have "t \<in> dom (map_of (cl_tools client))" using assms(2) by (simp add: client)
  then obtain lt where "lt \<in> set listed" "t = trim_space (lt_name lt)"
    unfolding build_catalog_dom [OF listed] by auto
  with build_catalog_entry [OF listed] show ?thesis by auto
qed simp_all
text \<open>What of a started agent does not depend on the run: its registry.\<close>

lemma boot_lookup:
  assumes "boot deps path w = (w', Inr ag)"
  obtains node where "registry_ok (ex_registry (ag_executor ag))"
    and "\<And>t. lookup_op (ex_registry (ag_executor ag)) t = (if reserved_mcp_tool t then local_op deps node t
         else map_option (\<lambda>tl. proxy_op (ae_float (ad_env deps)) skill_evm t (Some (tl_input_schema tl))
           (mcp_proxy (ad_sdk deps) t)) (map_of (cl_tools (gw_client (ag_gateway ag))) t))"
  using boot_wired [OF assms] unfolding wired_def by metis

lemma boot_skills:
  assumes "boot deps path w = (w', Inr ag)"
    and "lookup_op (ex_registry (ag_executor ag)) t = Some op"
  shows "op_skill op = (if t = ''list_tools'' then skill_meta else skill_evm) \<and> t \<noteq> []"
proof -
  obtain node where look: "\<And>t. lookup_op (ex_registry (ag_executor ag)) t = (if reserved_mcp_tool t then local_op deps node t
         else map_option (\<lambda>tl. proxy_op (ae_float (ad_env deps)) skill_evm t (Some (tl_input_schema tl))
           (mcp_proxy (ad_sdk deps) t)) (map_of (cl_tools (gw_client (ag_gateway ag))) t))"
    using boot_lookup [OF assms(1)] by blast
  have "t \<in> catalog_names (ag_gateway ag)" if "\<not> reserved_mcp_tool t"
    using assms(2) that by (auto simp: look)
  with boot_names [OF assms(1)] assms(2) show ?thesis
    by (fastforce simp: look local_op_def reserved_mcp_tool_def Let_def split: if_splits)
qed

lemma boot_tools:
  assumes "boot deps path w = (w', Inr ag)"
  shows "tools_of (ex_registry (ag_executor ag)) skill_auth = {}"
    and "tools_of (ex_registry (ag_executor ag)) skill_meta = {''list_tools''}"
    and "tools_of (ex_registry (ag_executor ag)) skill_evm \<noteq> {}"
proof -
  obtain node where look: "\<And>t. lookup_op (ex_registry (ag_executor ag)) t = (if reserved_mcp_tool t then local_op deps node t
         else map_option (\<lambda>tl. proxy_op (ae_float (ad_env deps)) skill_evm t (Some (tl_input_schema tl))
           (mcp_proxy (ad_sdk deps) t)) (map_of (cl_tools (gw_client (ag_gateway ag))) t))"
    using boot_lookup [OF assms] by blast
  have skills: "skill_auth \<noteq> skill_meta" "skill_auth \<noteq> skill_evm" "skill_evm \<noteq> skill_meta"
    by (simp_all add: skill_auth_def skill_meta_def skill_evm_def)
  have own: "lookup_op (ex_registry (ag_executor ag)) ''list_tools'' \<noteq> None"
      "lookup_op (ex_registry (ag_executor ag)) ''evm_tx_status'' \<noteq> None"
    by (simp_all add: look reserved_mcp_tool_def local_op_def Let_def)
  note skill = boot_skills [OF assms]
  show "tools_of (ex_registry (ag_executor ag)) skill_auth = {}"
    using skills by (auto simp: tools_of_def dest: skill split: if_splits)
  show "tools_of (ex_registry (ag_executor ag)) skill_meta = {''list_tools''}"
    using skills own(1) skill [of "''list_tools''"] by (auto simp: tools_of_def dest: skill split: if_splits)
  show "tools_of (ex_registry (ag_executor ag)) skill_evm \<noteq> {}"
    using own(2) skill [of "''evm_tx_status''"] by (force simp: tools_of_def)
qed

section \<open>A proxied request\<close>

lemma proxy_dispatch:
  assumes "boot deps path w = (w', Inr ag)" and "structured xc req"
    and "rq_skill req = skill_evm" and "rq_tool req = t"
    and "t \<in> catalog_names (ag_gateway ag)" and "\<not> reserved_mcp_tool t"
  shows "handle (ad_env deps) (ag_executor ag) now xc g =
    (case proxy_args (ae_float (ad_env deps)) (rq_args req) of
       Inl e \<Rightarrow> (g, Inr (json_text (response_json (respond (ad_env deps) req (Inl e)))))
     | Inr m \<Rightarrow>
         (case call (ad_sdk deps) (with_caller None (rq_caller req)) t (Some m) (aw_gateway g) of (gw, out, err) \<Rightarrow>
           (g\<lparr>aw_gateway := gw\<rparr>, Inr (json_text (response_json (respond (ad_env deps) req
             (case err of None \<Rightarrow> Inr (Op_Text out) | Some e \<Rightarrow> Inl (Proxy_Failed e))))))))"
proof -
  obtain node where look: "\<And>t. lookup_op (ex_registry (ag_executor ag)) t = (if reserved_mcp_tool t then local_op deps node t
         else map_option (\<lambda>tl. proxy_op (ae_float (ad_env deps)) skill_evm t (Some (tl_input_schema tl))
           (mcp_proxy (ad_sdk deps) t)) (map_of (cl_tools (gw_client (ag_gateway ag))) t))"
    using boot_lookup [OF assms(1)] by blast
  obtain tl where "map_of (cl_tools (gw_client (ag_gateway ag))) t = Some tl" using assms(5) by auto
  with assms(6) have op: "lookup_op (ex_registry (ag_executor ag)) t =
      Some (proxy_op (ae_float (ad_env deps)) skill_evm t (Some (tl_input_schema tl)) (mcp_proxy (ad_sdk deps) t))"
    by (simp add: look)
  have "skill_evm \<noteq> []" by (simp add: skill_evm_def)
  with assms(3,4) op boot_names [OF assms(1,5)]
  have sel: "select_op (ex_registry (ag_executor ag)) req =
      Inr (proxy_op (ae_float (ad_env deps)) skill_evm t (Some (tl_input_schema tl)) (mcp_proxy (ad_sdk deps) t))"
    by (simp add: select_op_Inr)
  have ctx: "cx_caller (request_ctx (ag_executor ag) now xc req) = with_caller None (rq_caller req)"
    by (auto simp: request_ctx_def attach_def Let_def split: option.splits sum.splits)
  show ?thesis
    unfolding handle_structured [OF assms(2)] sel sum.case call_proxy_op
    by (auto simp: mcp_proxy_def ctx split: sum.split prod.split option.split)
qed

lemma written_args:
  assumes "floats_ok ft" and "args_wf given" and "written = (case given of Some (J_Obj as) \<Rightarrow> as | _ \<Rightarrow> [])"
  shows "(case proxy_args ft given of
      Inl e \<Rightarrow> e = Decode_Args \<and> \<not> (given \<in> {None, Some J_Null}
        \<or> given = Some (J_Obj written) \<and> list_all (\<lambda>(_, v). any_ok ft v) written)
    | Inr m \<Rightarrow> (given \<in> {None, Some J_Null} \<or> given = Some (J_Obj written) \<and> list_all (\<lambda>(_, v). any_ok ft v) written)
        \<and> gomap_ok m \<and> wf_members (nat max_nesting - 2) m
        \<and> (\<forall>k. map_of m k = map_option (any_value ft) (map_of (rev written) k)))"
proof (cases "\<exists>as. given = Some (J_Obj as)")
  case True
  then obtain as where as: "given = Some (J_Obj as)" "written = as" using assms(3) by auto
  let ?m = "map (\<lambda>(k, x). (k, any_value ft x)) (fold (\<lambda>(k, v) m. AList.update k v m) as [])"
  show ?thesis
  proof (cases "list_all (\<lambda>(_, v). any_ok ft v) as")
    case ok: True
    then have args: "decode_args ft (J_Obj as) = Some ?m" by (simp add: decode_args_def)
    have "wf_json (Suc (nat max_nesting - 2)) (J_Obj as)"
      using assms(2) by (simp add: as(1) args_wf_def max_nesting_def)
    from decode_args_wf [OF assms(1) this args] have "gomap_ok ?m \<and> wf_members (nat max_nesting - 2) ?m" .
    moreover have "map_of ?m k = map_option (any_value ft) (map_of (rev as) k)" for k
      by (simp add: map_of_map_values fold_update_last split: option.split)
    ultimately show ?thesis using as args ok by (simp add: proxy_args_def)
  next
    case False
    then have "decode_args ft (J_Obj as) = None" by (simp add: decode_args_def)
    with as False show ?thesis by (simp add: proxy_args_def)
  qed
next
  case False
  then have written: "written = []" using assms(3) by (auto split: option.splits json.splits)
  show ?thesis
  proof (cases "given \<in> {None, Some J_Null}")
    case True
    then show ?thesis by (auto simp: proxy_args_def written gomap_ok_def wf_members_def)
  next
    case bad: False
    then obtain v where v: "given = Some v" "v \<noteq> J_Null" "\<nexists>as. v = J_Obj as" using False by (cases given) auto
    then have "decode_args ft v = None" by (cases v) (auto simp: decode_args_def)
    with v show ?thesis by (cases v) (auto simp: proxy_args_def)
  qed
qed

section \<open>Replies of a started agent\<close>

text \<open>
  What the code outside can break: schemas that nest nearly as deep as a decoder reads, numbers that
  are written as none, and answers of the private service that are JSON of that depth.
\<close>

definition outside_fits ::
    "('w, 'sess, 'l, 'tx) agent_deps \<Rightarrow> ('w, 'sess, json) gateway \<Rightarrow> bool" where
  "outside_fits deps gw \<longleftrightarrow> floats_ok (ae_float (ad_env deps))
     \<and> (\<forall>t s. ad_schema deps t = Some s \<longrightarrow> fits (nat max_nesting - 4) s)
     \<and> (\<forall>t tl. map_of (cl_tools (gw_client gw)) t = Some tl \<longrightarrow> fits (nat max_nesting - 4) (tl_input_schema tl))
     \<and> (\<forall>timeout ctx sess t args w w' res v. sdk_call_tool (ad_sdk deps) timeout ctx sess t args w = (w', Inr res)
          \<longrightarrow> json_parse (concat (map text_of (cr_content res))) = Some v \<longrightarrow> fits (nat max_nesting - 1) v)"

lemma started_schema_fits:
  assumes "boot deps path w = (w', Inr ag)" and "outside_fits deps (ag_gateway ag)"
    and "d \<in> set (list_tools skill (ex_registry (ag_executor ag)))"
    and "td_schema d = Raw_Schema s \<or> td_schema d = Reflected_Schema (Some s)"
  shows "fits (nat max_nesting - 4) s"
proof -
  obtain node where ok: "registry_ok (ex_registry (ag_executor ag))"
    and look: "\<And>t. lookup_op (ex_registry (ag_executor ag)) t = (if reserved_mcp_tool t then local_op deps node t
         else map_option (\<lambda>tl. proxy_op (ae_float (ad_env deps)) skill_evm t (Some (tl_input_schema tl))
           (mcp_proxy (ad_sdk deps) t)) (map_of (cl_tools (gw_client (ag_gateway ag))) t))"
    using boot_lookup [OF assms(1)] by blast
  obtain op where "op \<in> set (list_ops (ex_registry (ag_executor ag)))"
      and s: "op_raw_schema op = Some s \<or> op_raw_schema op = None \<and> op_input_schema op = Some s"
    using assms(3,4) by (auto simp: list_tools_def split: option.splits)
  then have found: "lookup_op (ex_registry (ag_executor ag)) (op_tool op) = Some op"
    using list_ops_lookup [OF ok] by blast
  show ?thesis
  proof (cases "reserved_mcp_tool (op_tool op)")
    case True
    with found have "local_op deps node (op_tool op) = Some op" by (simp add: look)
    then have "op_raw_schema op = None" "op_input_schema op = ad_schema deps (op_tool op)"
      by (auto simp: local_op_def native_def Let_def split: if_splits)
    with s assms(2) show ?thesis by (auto simp: outside_fits_def)
  next
    case False
    with found obtain tl where tl: "map_of (cl_tools (gw_client (ag_gateway ag))) (op_tool op) = Some tl"
        "op = proxy_op (ae_float (ad_env deps)) skill_evm (op_tool op) (Some (tl_input_schema tl)) (mcp_proxy (ad_sdk deps) (op_tool op))"
      by (auto simp: look)
    from tl(2) have "op_raw_schema op = Some (tl_input_schema tl)" by (metis proxy_op_fields(3))
    with s tl(1) assms(2) show ?thesis by (auto simp: outside_fits_def)
  qed
qed

text \<open>What an operation's result is in a reply.\<close>

lemma structured_result_eq:
  "structured_result ft x =
     (case x of
        Op_Text s \<Rightarrow> read_text ft s
      | Op_Relayed h \<Rightarrow> J_Obj [(''tx_hash'', J_Str h)]
      | Op_Status s \<Rightarrow> J_Obj ([(''tx_hash'', J_Str (to_tx_hash s)), (''status'', J_Str (to_status s))]
          @ (if to_block_number s = 0 then [] else [(''block_number'', J_Num (show_int (to_block_number s)))])
          @ (if to_gas_used s = 0 then [] else [(''gas_used'', J_Num (show_nat (to_gas_used s)))]))
      | Op_Listing ds \<Rightarrow> J_Obj [(''tools'', J_Arr (map (\<lambda>d. J_Obj
          [(''skill'', J_Str (td_skill d)), (''tool'', J_Str (td_tool d)),
           (''input_schema'', case td_schema d of Raw_Schema s \<Rightarrow> s
              | Reflected_Schema None \<Rightarrow> J_Null | Reflected_Schema (Some s) \<Rightarrow> s)]) ds))])"
proof -
  have "schema_json sc = (case sc of Raw_Schema s \<Rightarrow> s | Reflected_Schema None \<Rightarrow> J_Null | Reflected_Schema (Some s) \<Rightarrow> s)" for sc
    by (cases sc rule: schema_json.cases) simp_all
  then show ?thesis
    by (cases x) (simp_all add: structured_text_read status_json_def descriptor_json_def)
qed

text \<open>Every result of a started agent has a place in a reply.\<close>

lemma started_result_fits:
  assumes "boot deps path w = (w', Inr ag)" and "outside_fits deps (ag_gateway ag)"
    and "lookup_op (ex_registry (ag_executor ag)) t = Some op"
    and "call_op (ex_registry (ag_executor ag)) op ctx raw g = (g', Inr x)"
  shows "fits (nat max_nesting - 1) (structured_result (ae_float (ad_env deps)) x)"
proof -
  obtain node where look: "\<And>t. lookup_op (ex_registry (ag_executor ag)) t = (if reserved_mcp_tool t then local_op deps node t
         else map_option (\<lambda>tl. proxy_op (ae_float (ad_env deps)) skill_evm t (Some (tl_input_schema tl))
           (mcp_proxy (ad_sdk deps) t)) (map_of (cl_tools (gw_client (ag_gateway ag))) t))"
    using boot_lookup [OF assms(1)] by blast
  have four: "nat max_nesting - 1 = Suc (Suc (Suc (nat max_nesting - 4)))" by (simp add: max_nesting_def)
  consider (answer) out gw ca m where "x = Op_Text out" "call (ad_sdk deps) ca t m gw = (aw_gateway g', out, None)"
    | (listing) skill where "x = Op_Listing (list_tools skill (ex_registry (ag_executor ag)))"
    | (relayed) h where "x = Op_Relayed h" | (status) s where "x = Op_Status s"
  proof (cases "reserved_mcp_tool t")
    case False
    with assms(3) have "\<exists>tl :: json tool. op = proxy_op (ae_float (ad_env deps)) skill_evm t (Some (tl_input_schema tl)) (mcp_proxy (ad_sdk deps) t)"
      by (auto simp: look)
    with assms(4) obtain m gw out where "call (ad_sdk deps) (cx_caller ctx) t (Some m) (aw_gateway g) = (gw, out, None)"
        "x = Op_Text out" "g' = g\<lparr>aw_gateway := gw\<rparr>"
      by (auto simp: call_proxy_op mcp_proxy_def split: sum.splits prod.splits option.splits)
    then show ?thesis by (intro answer) simp_all
  next
    case True
    with assms(3) have "local_op deps node t = Some op" by (simp add: look)
    with assms(4) show ?thesis
      by (auto simp: local_op_def native_def call_op_def Let_def broadcast_handler_def status_handler_def
          split: if_splits option.splits prod.splits sum.splits intro: listing relayed status)
  qed
  then show ?thesis
  proof cases
    case answer
    from call_text [OF answer(2)] assms(2) have "json_parse out = Some v \<Longrightarrow> fits (nat max_nesting - 1) v" for v
      unfolding outside_fits_def by blast
    with assms(2) show ?thesis
      using read_text_fits [of "ae_float (ad_env deps)" out] by (simp add: answer(1) structured_text_read outside_fits_def)
  next
    case (listing skill)
    show ?thesis
      unfolding listing structured_result.simps four
      by (rule listing_fits) (rule started_schema_fits [OF assms(1,2)])
  next
    case (status s)
    show ?thesis unfolding status structured_result.simps four by (rule status_fits)
  qed (simp add: max_nesting_def)
qed

section \<open>Properties\<close>

text \<open>C22: The agent starts exactly when it has a path to a configuration that loads, the node can be
  dialed and the private service gives a usable catalog: registering the operations never fails or
  panics, and a loaded configuration never lacks the token.\<close>

theorem boot_succeeds_exactly:
  "(is_ok (snd (boot deps path w)) \<longleftrightarrow> path \<noteq> [] \<and>
     (\<exists>cfg. load_config (ad_decode_file deps) path = Inr cfg \<and> is_ok (ad_dial deps (cf_evm_rpc_url cfg))
        \<and> is_ok (snd (connect (ad_sdk deps) (cf_mcp_url cfg) (cf_mcp_auth_token cfg) (cf_mcp_timeout cfg) w))))
   \<and> snd (boot deps path w) \<notin> range (Inl \<circ> Register_Failed) \<union> range (Inl \<circ> Register_Panic)
       \<union> {Inl (Mcp_Failed Token_Required)}"
proof -
  obtain w' res where "boot deps path w = (w', res)" by (cases "boot deps path w")
  moreover from this have "snd (boot deps path w) = res" by simp
  ultimately show ?thesis by (cases rule: boot_cases) (auto simp: is_ok_iff)
qed

text \<open>C19: What a started agent offers: its own relay, status and listing operations, and the tools of the
  start-up catalog under their own names, except those that would take a reserved name. The login
  operations are never among them, so no bearer is ever handed out and no request speaks for a
  tenant.\<close>

theorem public_surface:
  assumes "boot deps path w = (w', Inr ag)"
  shows "{t. lookup_op (ex_registry (ag_executor ag)) t \<noteq> None} =
      {''broadcast_evm_tx'', ''evm_tx_status'', ''list_tools''}
      \<union> {t \<in> catalog_names (ag_gateway ag). \<not> reserved_mcp_tool t}
    \<and> lookup_op (ex_registry (ag_executor ag)) ''auth_challenge'' = None
    \<and> lookup_op (ex_registry (ag_executor ag)) ''auth_verify'' = None
    \<and> (\<forall>t op. lookup_op (ex_registry (ag_executor ag)) t = Some op \<longrightarrow>
         op_skill op = (if t = ''list_tools'' then skill_meta else skill_evm))
    \<and> cx_tenant (request_ctx (ag_executor ag) now xc req) = None"
proof -
  obtain node where look: "\<And>t. lookup_op (ex_registry (ag_executor ag)) t =
      (if reserved_mcp_tool t then local_op deps node t
       else map_option (\<lambda>tl. proxy_op (ae_float (ad_env deps)) skill_evm t (Some (tl_input_schema tl))
         (mcp_proxy (ad_sdk deps) t)) (map_of (cl_tools (gw_client (ag_gateway ag))) t))"
    using boot_wired [OF assms] by metis
  have "op_skill op = (if t = ''list_tools'' then skill_meta else skill_evm)"
    if "lookup_op (ex_registry (ag_executor ag)) t = Some op" for t op
    using that by (auto simp: look local_op_def reserved_mcp_tool_def Let_def split: if_splits)
  moreover have "lookup_op (ex_registry (ag_executor ag)) t \<noteq> None \<longleftrightarrow>
      t \<in> {''broadcast_evm_tx'', ''evm_tx_status'', ''list_tools''} \<or>
      (t \<in> catalog_names (ag_gateway ag) \<and> \<not> reserved_mcp_tool t)" for t
    using local_op_None [of deps node t] by (auto simp: look reserved_mcp_tool_def)
  moreover have "lookup_op (ex_registry (ag_executor ag)) ''auth_challenge'' = None"
      "lookup_op (ex_registry (ag_executor ag)) ''auth_verify'' = None"
    by (simp_all add: look reserved_mcp_tool_def local_op_def)
  moreover have "ex_authr (ag_executor ag) = Some \<lparr>ar_tenants = Some (new_tenant_store default_bearer_ttl)\<rparr>"
    by (rule boot_wired [OF assms])
  then have "cx_tenant (request_ctx (ag_executor ag) now xc req) = None"
    by (simp add: request_ctx_def attach_def Let_def lookup_by_bearer_def new_tenant_store_def)
  ultimately show ?thesis by blast
qed

text \<open>A configuration, the service of \<open>price_sdk\<close>, and a node that takes every transaction.\<close>

definition demo_node :: "(unit, unit, nat, string) node" where
  "demo_node _ =
     \<lparr>ec_hex_decode = (\<lambda>s. Inr s), ec_unmarshal_tx = (\<lambda>s. Inr s), ec_send = (\<lambda>_. None),
      ec_tx_hash_hex = (\<lambda>tx. ''0x'' @ tx), ec_hex_to_hash = (\<lambda>s. s), ec_receipt = (\<lambda>_. Receipt_Not_Found)\<rparr>"

definition demo_cfg :: config where
  "demo_cfg =
     \<lparr>cf_listen_addr = '':8080'', cf_public_url = [], cf_chain_id = ''svp-1'', cf_evm_rpc_url = ''http://node'',
      cf_llm_provider = [], cf_llm_base_url = [], cf_llm_model = [], cf_llm_api_key_env = ''KEY'',
      cf_mcp_url = ''http://mcp'', cf_mcp_auth_token = ''tok'', cf_mcp_timeout = 0\<rparr>"

definition demo_deps :: "(unit, unit, nat, string) agent_deps" where
  "demo_deps =
     \<lparr>ad_decode_file = (\<lambda>_ _. Inr demo_cfg), ad_getenv = (\<lambda>_. ''sk''), ad_dial = (\<lambda>_. Inr demo_node),
      ad_sdk = price_sdk, ad_llm_env = overloaded_env, ad_schema = (\<lambda>_. None), ad_env = plain_env\<rparr>"

definition demo_agent :: "(unit, unit, nat, string) agent" where
  "demo_agent = (case snd (boot demo_deps ''agent.toml'' ()) of Inr ag \<Rightarrow> ag | Inl _ \<Rightarrow> undefined)"

lemma demo_load:
  "load_config (\<lambda>_ _. Inr demo_cfg) ''agent.toml'' = Inr (demo_cfg\<lparr>cf_public_url := ''http://localhost:8080''\<rparr>)"
  by code_simp

lemma demo_connect:
  "connect price_sdk ''http://mcp'' ''tok'' 0 () = ((), Inr (gw_client price_gateway))"
  by code_simp

lemma demo_boot:
  "boot demo_deps ''agent.toml'' () = ((), Inr demo_agent)"
  "gw_client (ag_gateway demo_agent) = gw_client price_gateway"
proof -
  obtain w' res where b: "boot demo_deps ''agent.toml'' () = (w', res)"
    by (cases "boot demo_deps ''agent.toml'' ()")
  then have "\<exists>ag. res = Inr ag \<and> gw_client (ag_gateway ag) = gw_client price_gateway"
  proof (cases rule: boot_cases)
    case (up cfg node client r)
    then have "client = gw_client price_gateway"
      using demo_load demo_connect by (auto simp: demo_deps_def demo_cfg_def)
    with up(5) show ?thesis by (simp add: start_agent_def Let_def)
  qed (use demo_load demo_connect in \<open>auto simp: demo_deps_def demo_cfg_def\<close>)
  then show "boot demo_deps ''agent.toml'' () = ((), Inr demo_agent)"
    "gw_client (ag_gateway demo_agent) = gw_client price_gateway"
    using b by (auto simp: demo_agent_def)
qed

lemma demo_catalog: "catalog_names (ag_gateway demo_agent) = {''get_price''}"
  by (simp add: demo_boot(2) price_gateway_def)

lemma public_surface_witness:
  "{t. lookup_op (ex_registry (ag_executor demo_agent)) t \<noteq> None} =
     {''broadcast_evm_tx'', ''evm_tx_status'', ''list_tools'', ''get_price''}"
proof -
  have "\<not> reserved_mcp_tool ''get_price''" by code_simp
  then have "{''broadcast_evm_tx'', ''evm_tx_status'', ''list_tools''}
      \<union> {t \<in> catalog_names (ag_gateway demo_agent). \<not> reserved_mcp_tool t} =
      {''broadcast_evm_tx'', ''evm_tx_status'', ''list_tools'', ''get_price''}"
    unfolding demo_catalog by auto
  with public_surface [OF demo_boot(1)] show ?thesis by simp
qed

text \<open>C10: What a started agent advertises is what it runs. A request is dispatched exactly when
  \<open>list_tools\<close> lists the tool it names under the skill it names. The Agent Card has an entry for each
  of the two skills that any operation belongs to, and for no other; an entry ends in the sorted list
  of exactly the tools a request under that skill is dispatched to.\<close>

theorem surface_matches_dispatch:
  assumes "boot deps path w = (w', Inr ag)" and "r = ex_registry (ag_executor ag)"
  shows "(is_ok (select_op r req) \<longleftrightarrow> (\<exists>d\<in>set (list_tools [] r). td_skill d = rq_skill req \<and> td_tool d = rq_tool req))
    \<and> sorted (map td_tool (list_tools [] r)) \<and> distinct (map td_tool (list_tools [] r))
    \<and> (\<forall>t op. lookup_op r t = Some op \<longrightarrow> op_skill op \<in> {skill_meta, skill_evm} \<and> op_tool op = t)
    \<and> (\<exists>d1 d2. d1 \<in> sk_desc ` set skill_metas \<and> map_of (ci_overrides agent_identity) skill_evm = Some d2
        \<and> map (\<lambda>sk. (sk_id sk, sk_desc sk)) (ac_skills (ag_card ag)) =
          [(skill_meta, d1 @ '' Tools: list_tools.''),
           (skill_evm, d2 @ '' Tools: ''
              @ join '', '' (sorted_list_of_set {t. \<exists>op. lookup_op r t = Some op \<and> op_skill op = skill_evm}) @ ''.'')])"
proof -
  obtain node where ok: "registry_ok r"
    using boot_lookup [OF assms(1)] unfolding assms(2) by blast
  note skill = boot_skills [OF assms(1), folded assms(2)]
  note tools = boot_tools [OF assms(1), folded assms(2)]
  have listed: "(\<exists>d\<in>set (list_tools [] r). td_skill d = skill \<and> td_tool d = t) \<longleftrightarrow>
      (\<exists>op. lookup_op r t = Some op \<and> op_skill op = skill)" for skill t
    using listed_iff [OF ok, of skill t] by (simp add: list_tools_def)
  have "skill_meta \<noteq> []" "skill_evm \<noteq> []" by (simp_all add: skill_meta_def skill_evm_def)
  then have "is_ok (select_op r req) \<longleftrightarrow> (\<exists>op. lookup_op r (rq_tool req) = Some op \<and> op_skill op = rq_skill req)"
    using skill [of "rq_tool req"] by (auto simp: is_ok_iff select_op_Inr split: if_splits)
  moreover have "op_skill op \<in> {skill_meta, skill_evm} \<and> op_tool op = t" if "lookup_op r t = Some op" for t op
    using skill [OF that] ok that by (auto simp: registry_ok_def lookup_op_def)
  moreover have "sorted (map td_tool (list_tools [] r))" "distinct (map td_tool (list_tools [] r))"
    using list_ops_sorted [of r] list_ops_tools [OF ok] by (simp_all add: list_tools_def comp_def)
  moreover have "\<exists>d1 d2. d1 \<in> sk_desc ` set skill_metas \<and> map_of (ci_overrides agent_identity) skill_evm = Some d2
        \<and> map (\<lambda>sk. (sk_id sk, sk_desc sk)) (ac_skills (ag_card ag)) =
          [(skill_meta, d1 @ '' Tools: list_tools.''),
           (skill_evm, d2 @ '' Tools: '' @ join '', '' (sorted_list_of_set (tools_of r skill_evm)) @ ''.'')]"
  proof -
    have distinct: "skill_meta \<noteq> skill_evm" by (simp add: skill_meta_def skill_evm_def)
    obtain url where "ag_card ag = build_agent_card agent_identity url r"
      using boot_card [OF assms(1)] unfolding assms(2) by blast
    then show ?thesis
      by (simp add: build_agent_card_def skill_metas_def card_skill_eq [OF ok] tools distinct agent_identity_def)
  qed
  ultimately show ?thesis unfolding listed tools_of_def by blast
qed

lemma surface_matches_dispatch_witness:
  "map sk_id (ac_skills (ag_card demo_agent)) = [skill_meta, skill_evm]"
proof -
  obtain e1 e2 where "map (\<lambda>sk. (sk_id sk, sk_desc sk)) (ac_skills (ag_card demo_agent)) = [(skill_meta, e1), (skill_evm, e2)]"
    using surface_matches_dispatch [OF demo_boot(1) refl, of zero_request] by (elim conjE exE) (erule that)
  then have "map fst (map (\<lambda>sk. (sk_id sk, sk_desc sk)) (ac_skills (ag_card demo_agent))) = [skill_meta, skill_evm]"
    by (simp only: list.map fst_conv)
  then show ?thesis by (simp add: comp_def)
qed

text \<open>C18: A structured request for a tool of the catalog, end to end. Its message is read field by field,
  each the last text under its name. Arguments that are neither absent nor an object of readable
  values are refused and nothing is called. Otherwise the private service is called once through the
  client, for the caller named, with a map that has under each key the last value written there: its
  keys are distinct, its strings valid UTF-8 and its nesting below the limit. The reply names skill
  and tool and carries either the service's answer, as the JSON object or array it is or as text, or
  the error.\<close>

theorem proxied_request_end_to_end:
  assumes "boot deps path w = (w', Inr ag)" and "floats_ok ft" and "ft = ae_float (ad_env deps)"
    and "json_parse (message_text (xc_message xc)) = Some (J_Obj ms)"
    and "list_all (\<lambda>f. all_text f ms) text_fields"
    and "text_member ''skill'' ms = skill_evm" and "text_member ''tool'' ms = t"
    and "trim_space (text_member ''intent'' ms) = []"
    and "t \<in> catalog_names (ag_gateway ag)" and "\<not> reserved_mcp_tool t"
    and "given = raw_member ''args'' ms" and "written = (case given of Some (J_Obj as) \<Rightarrow> as | _ \<Rightarrow> [])"
    and "readable \<longleftrightarrow> given \<in> {None, Some J_Null}
      \<or> given = Some (J_Obj written) \<and> list_all (\<lambda>(_, v). any_ok ft v) written"
  shows "unmarshal_request (message_text (xc_message xc)) =
      Some \<lparr>rq_skill = skill_evm, rq_tool = t, rq_args = given, rq_bearer = text_member ''bearer'' ms,
        rq_caller = text_member ''caller'' ms, rq_intent = text_member ''intent'' ms,
        rq_query = text_member ''query'' ms, rq_ticker = text_member ''ticker'' ms,
        rq_side = text_member ''side'' ms, rq_size = text_member ''size'' ms\<rparr>
    \<and> (\<not> readable \<longrightarrow> handle (ad_env deps) (ag_executor ag) now xc g =
        (g, Inr (json_text (J_Obj [(''skill'', J_Str skill_evm), (''tool'', J_Str t), (''ok'', J_Bool False),
          (''error'', J_Str (''decode args: '' @ ae_args_error (ad_env deps) t given))]))))
    \<and> (readable \<longrightarrow> (\<exists>m. gomap_ok m \<and> wf_members (nat max_nesting - 2) m
        \<and> (\<forall>k. map_of m k = map_option (any_value ft) (map_of (rev written) k))
        \<and> handle (ad_env deps) (ag_executor ag) now xc g =
          (case call (ad_sdk deps)
              (if trim_space (text_member ''caller'' ms) = [] then None else Some (trim_space (text_member ''caller'' ms)))
              t (Some m) (aw_gateway g) of (gw, out, err) \<Rightarrow>
            (g\<lparr>aw_gateway := gw\<rparr>, Inr (json_text (J_Obj ([(''skill'', J_Str skill_evm), (''tool'', J_Str t)]
              @ (case err of
                   None \<Rightarrow> [(''ok'', J_Bool True), (''result'', read_text ft out)]
                 | Some e \<Rightarrow> [(''ok'', J_Bool False)]
                     @ (if mcp_error_text e = [] then [] else [(''error'', J_Str (mcp_error_text e))])))))))))"
proof -
  let ?req = "envelope ms"
  have req: "unmarshal_request (message_text (xc_message xc)) = Some ?req"
    using assms(4,5) by (simp add: unmarshal_request_def dec_request_Obj)
  have fields: "rq_skill ?req = skill_evm" "rq_tool ?req = t" "rq_args ?req = given"
      "rq_caller ?req = text_member ''caller'' ms"
    using assms(6,7,11) by (simp_all add: envelope_def)
  have "structured xc ?req" using req assms(8) by (simp add: structured_def envelope_def)
  note step = proxy_dispatch [OF assms(1) this fields(1,2) assms(9,10), folded assms(3), unfolded fields]
  have "wf_json (nat max_nesting) (J_Obj ms)" using assms(4) by (rule json_parse_wf)
  then have "args_wf given"
    using dec_request_wf [of "J_Obj ms" ?req] assms(5) fields(3) by (simp add: dec_request_Obj wf_request_def)
  note args = written_args [OF assms(2) this assms(12), folded assms(13)]
  have named: "skill_evm \<noteq> []" "t \<noteq> []" using boot_names [OF assms(1,9)] by (simp_all add: skill_evm_def)
  have caller: "with_caller None (text_member ''caller'' ms) =
      (if trim_space (text_member ''caller'' ms) = [] then None else Some (trim_space (text_member ''caller'' ms)))"
    by (simp add: with_caller_def Let_def)
  have bad: "handle (ad_env deps) (ag_executor ag) now xc g =
        (g, Inr (json_text (J_Obj [(''skill'', J_Str skill_evm), (''tool'', J_Str t), (''ok'', J_Bool False),
          (''error'', J_Str (''decode args: '' @ ae_args_error (ad_env deps) t given))])))" if "\<not> readable"
    using args that step named
    by (cases "proxy_args ft given") (simp_all add: respond_def response_json_def unless_empty_def fields)
  have good: "\<exists>m. gomap_ok m \<and> wf_members (nat max_nesting - 2) m
        \<and> (\<forall>k. map_of m k = map_option (any_value ft) (map_of (rev written) k))
        \<and> handle (ad_env deps) (ag_executor ag) now xc g =
          (case call (ad_sdk deps)
              (if trim_space (text_member ''caller'' ms) = [] then None else Some (trim_space (text_member ''caller'' ms)))
              t (Some m) (aw_gateway g) of (gw, out, err) \<Rightarrow>
            (g\<lparr>aw_gateway := gw\<rparr>, Inr (json_text (J_Obj ([(''skill'', J_Str skill_evm), (''tool'', J_Str t)]
              @ (case err of
                   None \<Rightarrow> [(''ok'', J_Bool True), (''result'', read_text ft out)]
                 | Some e \<Rightarrow> [(''ok'', J_Bool False)]
                     @ (if mcp_error_text e = [] then [] else [(''error'', J_Str (mcp_error_text e))])))))))" if now: "readable"
  proof -
    obtain m where m: "proxy_args ft given = Inr m" using args now by (cases "proxy_args ft given") simp_all
    have "handle (ad_env deps) (ag_executor ag) now xc g =
          (case call (ad_sdk deps)
              (if trim_space (text_member ''caller'' ms) = [] then None else Some (trim_space (text_member ''caller'' ms)))
              t (Some m) (aw_gateway g) of (gw, out, err) \<Rightarrow>
            (g\<lparr>aw_gateway := gw\<rparr>, Inr (json_text (J_Obj ([(''skill'', J_Str skill_evm), (''tool'', J_Str t)]
              @ (case err of
                   None \<Rightarrow> [(''ok'', J_Bool True), (''result'', read_text ft out)]
                 | Some e \<Rightarrow> [(''ok'', J_Bool False)]
                     @ (if mcp_error_text e = [] then [] else [(''error'', J_Str (mcp_error_text e))])))))))"
      unfolding step m sum.case caller
      by (auto simp: respond_def response_json_def unless_empty_def fields named structured_text_read assms(3)
          split: prod.split option.split)
    with args m show ?thesis by auto
  qed
  show ?thesis
  proof (intro conjI impI)
    show "unmarshal_request (message_text (xc_message xc)) =
      Some \<lparr>rq_skill = skill_evm, rq_tool = t, rq_args = given, rq_bearer = text_member ''bearer'' ms,
        rq_caller = text_member ''caller'' ms, rq_intent = text_member ''intent'' ms,
        rq_query = text_member ''query'' ms, rq_ticker = text_member ''ticker'' ms,
        rq_side = text_member ''side'' ms, rq_size = text_member ''size'' ms\<rparr>"
      unfolding req envelope_def using assms(6,7,11) by simp
  qed (rule bad, assumption, rule good, assumption)
qed

definition price_members :: members where
  "price_members =
     [(''skill'', J_Str skill_evm), (''tool'', J_Str ''get_price''), (''caller'', J_Str '' bob ''),
      (''args'', J_Obj [(''pair'', J_Str ''a''), (''pair'', J_Str ''b'')])]"

definition price_message :: exec_ctx where
  "price_message = \<lparr>xc_message = Some [Some (Text_Part (json_text (J_Obj price_members)))],
     xc_stored_task = False, xc_params = None\<rparr>"

lemma price_message_parses: "json_parse (message_text (xc_message price_message)) = Some (J_Obj price_members)"
  by code_simp

lemma proxied_request_end_to_end_witness:
  "snd (handle plain_env (ag_executor demo_agent) 0 price_message
      \<lparr>aw_gateway = ag_gateway demo_agent, aw_llm = 0, aw_submitted = []\<rparr>) =
     Inr (json_text (J_Obj [(''skill'', J_Str skill_evm), (''tool'', J_Str ''get_price''),
       (''ok'', J_Bool True), (''result'', J_Str ''7'')]))"
proof -
  let ?g = "\<lparr>aw_gateway = ag_gateway demo_agent, aw_llm = 0, aw_submitted = []\<rparr>"
  have env: "ad_env demo_deps = plain_env" "ad_sdk demo_deps = price_sdk" "ae_float plain_env = literal_float"
    by (simp_all add: demo_deps_def plain_env_def)
  have texts: "list_all (\<lambda>f. all_text f price_members) text_fields"
    "text_member ''skill'' price_members = skill_evm" "text_member ''tool'' price_members = ''get_price''"
    "trim_space (text_member ''intent'' price_members) = []" "\<not> reserved_mcp_tool ''get_price''"
    "raw_member ''args'' price_members = Some (J_Obj [(''pair'', J_Str ''a''), (''pair'', J_Str ''b'')])"
    "read_text literal_float ''7'' = J_Str ''7''"
    by code_simp+
  have tool: "''get_price'' \<in> catalog_names (ag_gateway demo_agent)" by (simp add: demo_catalog)
  obtain gw where served: "call price_sdk ctx ''get_price'' m (ag_gateway demo_agent) = (gw, ''7'', None)" for ctx m
    by (auto simp: call_def call_tool_def call_outcome_def demo_boot(2) price_gateway_def price_sdk_def)
  show ?thesis
    using proxied_request_end_to_end [OF demo_boot(1) literal_floats _ price_message_parses texts(1-4) tool texts(5)
      texts(6) [symmetric] refl refl, of 0 ?g]
    by (auto simp: env texts served simp del: json_text.simps)
qed

text \<open>C21: Every structured reply of a started agent is JSON that reads back as the outcome of the operation
  it was dispatched to: skill and tool as named, and either the result and no error or the error's
  text and no result. A result is what the operation gave: the hash, the receipt's state, the listed
  tools with their schemas, or the service's text as the value it denotes. Bytes that are no UTF-8
  become replacement characters. Of the code outside it needs \<open>outside_fits\<close>: numbers are written as
  literals, and schemas and the service's JSON answers leave a few levels of nesting.\<close>

theorem replies_read_back:
  assumes "boot deps path w = (w', Inr ag)" and "outside_fits deps (ag_gateway ag)"
    and "structured xc req" and "handle (ad_env deps) (ag_executor ag) now xc g = (g', Inr reply)"
  shows "\<exists>op r v resp. lookup_op (ex_registry (ag_executor ag)) (rq_tool req) = Some op \<and> op_skill op = rq_skill req
    \<and> call_op (ex_registry (ag_executor ag)) op (request_ctx (ag_executor ag) now xc req) (rq_args req) g = (g', r)
    \<and> json_parse reply = Some v \<and> dec_response zero_response v = Some resp
    \<and> rp_skill resp = rq_skill req \<and> rp_tool resp = rq_tool req
    \<and> (case r of
         Inl e \<Rightarrow> \<not> rp_ok resp \<and> rp_result resp = None
           \<and> rp_error resp = valid_utf8 (op_error_text (ae_args_error (ad_env deps) (rq_tool req) (rq_args req)) e)
       | Inr x \<Rightarrow> rp_ok resp \<and> rp_error resp = [] \<and> rp_result resp = Some (clean (case x of
           Op_Text s \<Rightarrow> read_text (ae_float (ad_env deps)) s
         | Op_Relayed h \<Rightarrow> J_Obj [(''tx_hash'', J_Str h)]
         | Op_Status s \<Rightarrow> J_Obj ([(''tx_hash'', J_Str (to_tx_hash s)), (''status'', J_Str (to_status s))]
             @ (if to_block_number s = 0 then [] else [(''block_number'', J_Num (show_int (to_block_number s)))])
             @ (if to_gas_used s = 0 then [] else [(''gas_used'', J_Num (show_nat (to_gas_used s)))]))
         | Op_Listing ds \<Rightarrow> J_Obj [(''tools'', J_Arr (map (\<lambda>d. J_Obj
             [(''skill'', J_Str (td_skill d)), (''tool'', J_Str (td_tool d)),
              (''input_schema'', case td_schema d of Raw_Schema s \<Rightarrow> s
                 | Reflected_Schema None \<Rightarrow> J_Null | Reflected_Schema (Some s) \<Rightarrow> s)]) ds))])))"
proof -
  let ?env = "ad_env deps" and ?r = "ex_registry (ag_executor ag)"
  obtain op r where op: "select_op ?r req = Inr op"
    and run: "call_op ?r op (request_ctx (ag_executor ag) now xc req) (rq_args req) g = (g', r)"
    and reply: "reply = json_text (response_json (respond ?env req r))"
    by (rule handle_Inr [OF assms(3,4)])
  from op have found: "lookup_op ?r (rq_tool req) = Some op" "op_skill op = rq_skill req"
    by (simp_all add: select_op_Inr)
  have "wf_request req"
    using assms(3) dec_request_wf json_parse_wf
    by (auto simp: structured_def unmarshal_request_def split: option.splits)
  then have names: "valid_utf8 (rq_skill req) = rq_skill req" "valid_utf8 (rq_tool req) = rq_tool req"
    by (simp_all add: wf_request_def utf8_def)
  have "fits (nat max_nesting - 1) v" if "rp_result (respond ?env req r) = Some v" for v
    using that started_result_fits [OF assms(1,2) found(1)] run by (cases r) (auto simp: respond_def)
  from reply_reads_back [OF this] obtain v where
      v: "json_parse reply = Some v" "dec_response zero_response v = Some (clean_response (respond ?env req r))"
    unfolding reply by blast
  show ?thesis
    by (intro exI [of _ op] exI [of _ r] exI [of _ v] exI [of _ "clean_response (respond ?env req r)"] conjI found run v)
      (cases r; simp add: clean_response_def respond_def names structured_result_eq del: structured_result.simps)+
qed

lemma demo_outside_fits: "outside_fits demo_deps (ag_gateway demo_agent)"
proof -
  have "json_parse ''7'' = Some (J_Num ''7'')" "scan_number ''7'' = Some (''7'', [])" by code_simp+
  then show ?thesis
    by (auto simp: outside_fits_def demo_deps_def plain_env_def literal_floats demo_boot(2) price_gateway_def
        price_sdk_def max_nesting_def)
qed

lemma replies_read_back_witness:
  "\<exists>reply v resp. snd (handle plain_env (ag_executor demo_agent) 0 meta_request
      \<lparr>aw_gateway = ag_gateway demo_agent, aw_llm = 0, aw_submitted = []\<rparr>) = Inr reply
     \<and> json_parse reply = Some v \<and> dec_response zero_response v = Some resp
     \<and> rp_skill resp = skill_meta \<and> rp_tool resp = ''list_tools''"
proof -
  let ?g = "\<lparr>aw_gateway = ag_gateway demo_agent, aw_llm = 0, aw_submitted = []\<rparr>"
  have env: "ad_env demo_deps = plain_env" by (simp add: demo_deps_def)
  have req: "rq_tool meta_named = ''list_tools''" "rq_skill meta_named = skill_meta"
    by (simp_all add: meta_named_def zero_request_def)
  obtain g' x where h: "handle plain_env (ag_executor demo_agent) 0 meta_request ?g = (g', x)"
    by (cases "handle plain_env (ag_executor demo_agent) 0 meta_request ?g")
  have "''list_tools'' \<in> tools_of (ex_registry (ag_executor demo_agent)) skill_meta"
    unfolding boot_tools(2) [OF demo_boot(1)] by (rule singletonI)
  then obtain op where op: "lookup_op (ex_registry (ag_executor demo_agent)) ''list_tools'' = Some op"
    unfolding tools_of_def by blast
  then have "select_op (ex_registry (ag_executor demo_agent)) meta_named = Inr op"
    using boot_skills [OF demo_boot(1) op] by (simp add: select_op_Inr req skill_meta_def)
  then obtain reply where reply: "x = Inr reply"
    using h handle_structured [OF meta_structured, of plain_env "ag_executor demo_agent" 0 ?g]
    by (auto split: prod.splits)
  from replies_read_back [OF demo_boot(1) demo_outside_fits meta_structured h [folded env, unfolded reply]]
  show ?thesis unfolding h reply snd_conv req by blast
qed

end
