(* ===== verification/Chain_Client.thy ===== *)
theory Chain_Client
  imports Go_Strings
begin

text \<open>
  The client of the chain's agent registry (\<open>internal/agentchain/client.go\<close>,
  \<open>internal/mcp/chain\<close>): queries and broadcasts over gRPC or over CometBFT RPC.

  The node and both transports are arguments on an arbitrary world \<open>'c\<close>, as are the protobuf
  codecs: every message that crosses the RPC has a \<open>codec\<close>. Messages are records with the
  fields the program uses.
\<close>

section \<open>Messages\<close>

record coin =
  cn_denom :: string
  cn_amount :: int

record pricing =
  pr_amount :: string
  pr_unit :: string

record chain_agent =
  ca_agent_id :: string
  ca_owner :: string
  ca_endpoint :: string
  ca_capability_hash :: string
  ca_capabilities :: "string list"
  ca_metadata :: string
  ca_pricing :: "pricing option"
  ca_status :: nat
  ca_bond :: coin
  ca_unbonding_complete_height :: nat

record agent_params =
  ap_registration_fee :: coin
  ap_min_bond :: coin

record account_info =
  ai_account_number :: nat
  ai_sequence :: nat

record broadcast_result =
  br_tx_hash :: string
  br_code :: nat
  br_raw_log :: string

section \<open>Fee rejections\<close>

text \<open>
  \<open>insufficientFeeRE\<close>, as the leftmost match of Go's regular expressions. \<open>\s\<close> is one of the
  five ASCII blanks. A run of \<open>\S\<close> that must be followed by a blank is a whole run; the last
  group is lazy, so it ends at the first colon that starts the closing words, and else at the
  end of its run.
\<close>

definition is_blank :: "char \<Rightarrow> bool" where
  "is_blank c \<longleftrightarrow> c \<in> set [CHR 0x20, CHR 0x09, CHR 0x0A, CHR 0x0C, CHR 0x0D]"

definition skip_blanks :: "string \<Rightarrow> string" where
  "skip_blanks s = dropWhile is_blank s"

definition closes :: "string \<Rightarrow> bool" where
  "closes s \<longleftrightarrow>
     (let s = skip_blanks s
      in has_prefix s '':'' \<and> has_prefix (skip_blanks (tl s)) ''insufficient fee'')"

text \<open>The lazy group: the bytes taken so far, and the rest.\<close>

fun lazy_group :: "string \<Rightarrow> string \<Rightarrow> string option" where
  "lazy_group acc s =
     (if acc \<noteq> [] \<and> (closes s \<or> s = []) then Some acc
      else (case s of
          [] \<Rightarrow> None
        | c # cs \<Rightarrow> if is_blank c then None else lazy_group (acc @ [c]) cs))"

declare lazy_group.simps [simp del]

definition fee_match :: "string \<Rightarrow> (string \<times> string) option" where
  "fee_match s =
     (if \<not> has_prefix s ''insufficient fee'' then None
      else (let s = drop 16 s;
                s = (if has_prefix s ''s'' then tl s else s)
            in if \<not> has_prefix s '';'' then None
               else (let s = skip_blanks (tl s)
                     in if \<not> has_prefix s ''got:'' then None
                        else (let s = skip_blanks (drop 4 s);
                                  got = takeWhile (\<lambda>c. \<not> is_blank c) s;
                                  s = dropWhile (\<lambda>c. \<not> is_blank c) s
                              in if got = [] \<or> s = [] then None
                                 else (let s = skip_blanks s
                                       in if \<not> has_prefix s ''required:'' then None
                                          else map_option (\<lambda>r. (got, r))
                                            (lazy_group [] (skip_blanks (drop 9 s))))))))"

fun find_fee :: "string \<Rightarrow> (string \<times> string) option" where
  "find_fee [] = fee_match []"
| "find_fee (c # cs) = (case fee_match (c # cs) of Some m \<Rightarrow> Some m | None \<Rightarrow> find_fee cs)"

record insufficient_fee =
  if_required :: string
  if_got :: string

definition insufficient_fee_text :: "insufficient_fee \<Rightarrow> string" where
  "insufficient_fee_text e = ''insufficient fee: got '' @ if_got e @ '', required '' @ if_required e"

definition parse_broadcast_error :: "broadcast_result \<Rightarrow> insufficient_fee option" where
  "parse_broadcast_error r =
     (if br_code r = 0 then None
      else (case find_fee (br_raw_log r) of
          Some (got, required) \<Rightarrow> Some \<lparr>if_required = required, if_got = got\<rparr>
        | None \<Rightarrow> None))"

section \<open>Transports\<close>

text \<open>The status codes of gRPC; \<open>NotFound\<close> is 5.\<close>

record grpc_error =
  ge_code :: nat
  ge_text :: string

definition grpc_not_found :: nat where
  "grpc_not_found = 5"

record abci_reply =
  ab_code :: nat
  ab_log :: string
  ab_codespace :: string
  ab_value :: string

text \<open>The account of \<open>x/auth\<close> is an \<open>Any\<close> of a type \<open>'any\<close> that the registry unpacks.\<close>

record ('c, 'any) grpc_api =
  gr_params :: "'c \<Rightarrow> 'c \<times> (grpc_error + agent_params)"
  gr_agent :: "string \<Rightarrow> 'c \<Rightarrow> 'c \<times> (grpc_error + chain_agent)"
  gr_account :: "string \<Rightarrow> 'c \<Rightarrow> 'c \<times> (grpc_error + 'any)"
  gr_broadcast :: "string \<Rightarrow> 'c \<Rightarrow> 'c \<times> (grpc_error + broadcast_result)"

record 'c rpc_api =
  rp_abci_query :: "string \<Rightarrow> string \<Rightarrow> 'c \<Rightarrow> 'c \<times> (string + abci_reply)"
  rp_broadcast_tx_sync :: "string \<Rightarrow> 'c \<Rightarrow> 'c \<times> (string + broadcast_result)"

record ('req, 'resp) codec =
  cd_marshal :: "'req \<Rightarrow> string + string"
  cd_unmarshal :: "string \<Rightarrow> string + 'resp"

record 'any codecs =
  co_params :: "(unit, agent_params) codec"
  co_agent :: "(string, chain_agent) codec"
  co_account :: "(string, 'any option) codec"
  co_unpack :: "'any \<Rightarrow> string + account_info"

datatype ('c, 'any) chain_client = Grpc_Client "('c, 'any) grpc_api" | Rpc_Client "'c rpc_api"

text \<open>The connections themselves are opened by the libraries: \<open>connect\<close>.\<close>

definition grpc_dial ::
    "(string \<Rightarrow> string + ('c, 'any) grpc_api) \<Rightarrow> string \<Rightarrow> string + ('c, 'any) grpc_api" where
  "grpc_dial connect addr = map_err (\<lambda>e. ''dial chain gRPC '' @ addr @ '': '' @ e) (connect addr)"

definition dial ::
    "(string \<Rightarrow> string + ('c, 'any) grpc_api) \<Rightarrow> string \<Rightarrow> string + ('c, 'any) chain_client" where
  "dial connect addr =
     (case grpc_dial connect addr of
        Inl e \<Rightarrow> Inl (''dial '' @ addr @ '': '' @ e)
      | Inr grpc \<Rightarrow> Inr (Grpc_Client grpc))"

definition dial_rpc :: "(string \<Rightarrow> string + 'c rpc_api) \<Rightarrow> string \<Rightarrow> string + ('c, 'any) chain_client" where
  "dial_rpc connect url =
     (case connect url of
        Inl e \<Rightarrow> Inl (''cometbft.New '' @ url @ '': '' @ e)
      | Inr rpc \<Rightarrow> Inr (Rpc_Client rpc))"

datatype query_error =
    Query_Plain string
  | Query_Refused string nat string string

fun query_error_text :: "query_error \<Rightarrow> string" where
  "query_error_text (Query_Plain e) = e"
| "query_error_text (Query_Refused path code log codespace) =
     ''abci query '' @ path @ '': code '' @ show_nat code @ '' ('' @ codespace @ ''): '' @ log"

fun is_rpc_not_found :: "query_error \<Rightarrow> bool" where
  "is_rpc_not_found (Query_Refused path code log codespace) = contains (to_lower log) ''not found''"
| "is_rpc_not_found (Query_Plain e) = False"

definition is_not_found :: "grpc_error \<Rightarrow> bool" where
  "is_not_found e \<longleftrightarrow> ge_code e = grpc_not_found"

definition rpc_query ::
    "'c rpc_api \<Rightarrow> ('req, 'resp) codec \<Rightarrow> string \<Rightarrow> 'req \<Rightarrow> 'c \<Rightarrow> 'c \<times> (query_error + 'resp)" where
  "rpc_query rpc cd path req c =
     (case cd_marshal cd req of
        Inl e \<Rightarrow> (c, Inl (Query_Plain (''marshal '' @ path @ '' request: '' @ e)))
      | Inr data \<Rightarrow>
          (case rp_abci_query rpc path data c of
             (c, Inl e) \<Rightarrow> (c, Inl (Query_Plain (''abci query '' @ path @ '': '' @ e)))
           | (c, Inr r) \<Rightarrow>
               if ab_code r \<noteq> 0 then (c, Inl (Query_Refused path (ab_code r) (ab_log r) (ab_codespace r)))
               else (case cd_unmarshal cd (ab_value r) of
                   Inl e \<Rightarrow> (c, Inl (Query_Plain (''unmarshal '' @ path @ '' response: '' @ e)))
                 | Inr x \<Rightarrow> (c, Inr x))))"

section \<open>The client's operations\<close>

definition params_path :: string where
  "params_path = ''/dydxprotocol.agent.Query/Params''"

definition agent_path :: string where
  "agent_path = ''/dydxprotocol.agent.Query/Agent''"

definition account_path :: string where
  "account_path = ''/cosmos.auth.v1beta1.Query/Account''"

definition query_params ::
    "'any codecs \<Rightarrow> ('c, 'any) chain_client \<Rightarrow> 'c \<Rightarrow> 'c \<times> (string + agent_params)" where
  "query_params co client c =
     (case client of
        Rpc_Client rpc \<Rightarrow> map_prod id (map_err query_error_text) (rpc_query rpc (co_params co) params_path () c)
      | Grpc_Client grpc \<Rightarrow>
          map_prod id (map_err (\<lambda>e. ''agent.Query/Params: '' @ ge_text e)) (gr_params grpc c))"

text \<open>An unknown agent is an answer, not an error.\<close>

definition agent_by_id ::
    "'any codecs \<Rightarrow> ('c, 'any) chain_client \<Rightarrow> string \<Rightarrow> 'c \<Rightarrow> 'c \<times> (string + chain_agent option)" where
  "agent_by_id co client agent_id c =
     (case client of
        Rpc_Client rpc \<Rightarrow>
          (case rpc_query rpc (co_agent co) agent_path agent_id c of
             (c, Inl e) \<Rightarrow>
               if is_rpc_not_found e then (c, Inr None)
               else (c, Inl (''agent.Query/Agent '' @ agent_id @ '': '' @ query_error_text e))
           | (c, Inr a) \<Rightarrow> (c, Inr (Some a)))
      | Grpc_Client grpc \<Rightarrow>
          (case gr_agent grpc agent_id c of
             (c, Inl e) \<Rightarrow>
               if is_not_found e then (c, Inr None)
               else (c, Inl (''agent.Query/Agent '' @ agent_id @ '': '' @ ge_text e))
           | (c, Inr a) \<Rightarrow> (c, Inr (Some a))))"

text \<open>The gRPC account client (\<open>accountClient.Account\<close>).\<close>

definition unpack_account :: "'any codecs \<Rightarrow> string \<Rightarrow> 'any \<Rightarrow> string + account_info" where
  "unpack_account co address any = map_err (\<lambda>e. ''unpack account '' @ address @ '': '' @ e) (co_unpack co any)"

definition grpc_account ::
    "'any codecs \<Rightarrow> ('c, 'any) grpc_api \<Rightarrow> string \<Rightarrow> 'c \<Rightarrow> 'c \<times> (string + account_info)" where
  "grpc_account co grpc address c =
     (case gr_account grpc address c of
        (c, Inl e) \<Rightarrow> (c, Inl (''auth.Query/Account '' @ address @ '': '' @ ge_text e))
      | (c, Inr any) \<Rightarrow> (c, unpack_account co address any))"

definition query_account ::
    "'any codecs \<Rightarrow> ('c, 'any) chain_client \<Rightarrow> string \<Rightarrow> 'c \<Rightarrow> 'c \<times> (string + account_info)" where
  "query_account co client address c =
     (case client of
        Rpc_Client rpc \<Rightarrow>
          (case rpc_query rpc (co_account co) account_path address c of
             (c, Inl e) \<Rightarrow> (c, Inl (''auth.Query/Account '' @ address @ '': '' @ query_error_text e))
           | (c, Inr None) \<Rightarrow> (c, Inl (''auth.Query/Account '' @ address @ '': empty account''))
           | (c, Inr (Some any)) \<Rightarrow> (c, unpack_account co address any))
      | Grpc_Client grpc \<Rightarrow> grpc_account co grpc address c)"

text \<open>The gRPC broadcast client; the RPC client answers with the same fields.\<close>

definition grpc_broadcast ::
    "('c, 'any) grpc_api \<Rightarrow> string \<Rightarrow> 'c \<Rightarrow> 'c \<times> (string + broadcast_result)" where
  "grpc_broadcast grpc tx c =
     map_prod id (map_err (\<lambda>e. ''Tx.Service/BroadcastTx: '' @ ge_text e)) (gr_broadcast grpc tx c)"

definition send_tx ::
    "('c, 'any) chain_client \<Rightarrow> string \<Rightarrow> 'c \<Rightarrow> 'c \<times> (string + broadcast_result)" where
  "send_tx client tx c =
     (case client of
        Rpc_Client rpc \<Rightarrow>
          map_prod id (map_err (\<lambda>e. ''cometbft broadcast_tx_sync: '' @ e)) (rp_broadcast_tx_sync rpc tx c)
      | Grpc_Client grpc \<Rightarrow> grpc_broadcast grpc tx c)"

definition broadcast_sync ::
    "('c, 'any) chain_client \<Rightarrow> string \<Rightarrow> 'c \<Rightarrow> 'c \<times> (string + broadcast_result)" where
  "broadcast_sync client tx c =
     (case send_tx client tx c of
        (c, Inl e) \<Rightarrow> (c, Inl e)
      | (c, Inr r) \<Rightarrow>
          (case parse_broadcast_error r of
             Some e \<Rightarrow> (c, Inl (insufficient_fee_text e))
           | None \<Rightarrow> (c, Inr r)))"

section \<open>The chain's own wording is read back\<close>

lemma skip_blanks_solid: "s \<noteq> [] \<Longrightarrow> \<not> is_blank (hd s) \<Longrightarrow> skip_blanks s = s"
  by (cases s) (simp_all add: skip_blanks_def)

lemma run_of_solid:
  assumes "list_all (\<lambda>c. \<not> is_blank c) g"
  shows "takeWhile (\<lambda>c. \<not> is_blank c) (g @ CHR '' '' # t) = g"
    and "dropWhile (\<lambda>c. \<not> is_blank c) (g @ CHR '' '' # t) = CHR '' '' # t"
  using assms by (induction g) (simp_all add: is_blank_def)

lemma not_closes_solid: "\<not> is_blank c \<Longrightarrow> c \<noteq> CHR '':'' \<Longrightarrow> \<not> closes (c # s)"
  by (simp add: closes_def skip_blanks_def has_prefix_def)

lemma closes_words: "closes ('': insufficient fee'' @ t)"
  by (simp add: closes_def skip_blanks_def is_blank_def has_prefix_def)

lemma lazy_group_run:
  assumes "list_all (\<lambda>c. \<not> is_blank c \<and> c \<noteq> CHR '':'') r" and "acc @ r \<noteq> []"
  shows "lazy_group acc (r @ '': insufficient fee'' @ t) = Some (acc @ r)"
  using assms
proof (induction r arbitrary: acc)
  case Nil
  then show ?case using closes_words [of t] by (simp add: lazy_group.simps)
next
  case (Cons c r)
  have "lazy_group (acc @ [c]) (r @ '': insufficient fee'' @ t) = Some ((acc @ [c]) @ r)"
    by (rule Cons.IH) (use Cons.prems in auto)
  moreover have "\<not> closes (c # r @ '': insufficient fee'' @ t)" "\<not> is_blank c"
    using Cons.prems by (simp_all add: not_closes_solid)
  ultimately show ?case by (simp add: lazy_group.simps [of acc])
qed

definition coin_text :: "string \<Rightarrow> bool" where
  "coin_text s \<longleftrightarrow> s \<noteq> [] \<and> list_all (\<lambda>c. \<not> is_blank c \<and> c \<noteq> CHR '':'') s"

lemma fee_match_text:
  assumes "coin_text g" and "coin_text r"
  shows "fee_match (''insufficient fees; got: '' @ g @ '' required: '' @ r @ '': insufficient fee'' @ t) = Some (g, r)"
proof -
  let ?tail = "r @ '': insufficient fee'' @ t"
  have g: "g \<noteq> []" "\<not> is_blank (hd g)" "list_all (\<lambda>c. \<not> is_blank c) g"
    and r: "r \<noteq> []" "\<not> is_blank (hd r)"
    using assms by (auto simp: coin_text_def list_all_iff)
  have "skip_blanks ('' '' @ g @ '' required: '' @ ?tail) = g @ '' required: '' @ ?tail"
    using skip_blanks_solid [of "g @ '' required: '' @ ?tail"] g by (simp add: skip_blanks_def is_blank_def)
  moreover have "skip_blanks ('' '' @ ?tail) = ?tail"
    using skip_blanks_solid [of ?tail] r by (simp add: skip_blanks_def is_blank_def)
  moreover have "lazy_group [] ?tail = Some r"
    using lazy_group_run [of r "[]" t] assms(2) by (simp add: coin_text_def)
  moreover have "skip_blanks '' got: '' = ''got: ''" by code_simp
  ultimately show ?thesis
    using run_of_solid [OF g(3), of "''required: '' @ ?tail"] g(1)
    by (simp add: fee_match_def has_prefix_def Let_def skip_blanks_def [of "CHR '' '' # CHR ''g'' # _"]
        skip_blanks_def [of "CHR '' '' # CHR ''r'' # _"] is_blank_def)
qed

lemma find_fee_text:
  assumes "coin_text g" and "coin_text r"
  shows "find_fee (''insufficient fees; got: '' @ g @ '' required: '' @ r @ '': insufficient fee'' @ t) = Some (g, r)"
  using fee_match_text [OF assms, of t] by simp

lemma broadcast_sync_Inr:
  "broadcast_sync client tx c = (c', Inr r) \<longleftrightarrow>
     send_tx client tx c = (c', Inr r) \<and> (br_code r = 0 \<or> find_fee (br_raw_log r) = None)"
  by (cases "send_tx client tx c"; cases "snd (send_tx client tx c)")
    (auto simp: broadcast_sync_def parse_broadcast_error_def split: option.splits)

section \<open>Properties\<close>

text \<open>C23: A broadcast counts as submitted exactly when the node answered and its answer is a success or
  a refusal other than the one for too small a fee: every other refusal goes unnoticed. A refusal in
  the chain's own words is reported with the two amounts in it.\<close>

theorem broadcast_outcomes:
  assumes "coin_text g" and "coin_text r" and "0 < code"
  shows "(broadcast_sync client tx c = (c', Inr res) \<longleftrightarrow>
      send_tx client tx c = (c', Inr res) \<and> (br_code res = 0 \<or> find_fee (br_raw_log res) = None))
    \<and> (send_tx client tx c = (c', Inr \<lparr>br_tx_hash = h, br_code = code, br_raw_log =
          ''insufficient fees; got: '' @ g @ '' required: '' @ r @ '': insufficient fee'' @ t\<rparr>) \<longrightarrow>
      broadcast_sync client tx c = (c', Inl (''insufficient fee: got '' @ g @ '', required '' @ r)))"
proof (intro conjI impI)
  assume "send_tx client tx c = (c', Inr \<lparr>br_tx_hash = h, br_code = code, br_raw_log =
    ''insufficient fees; got: '' @ g @ '' required: '' @ r @ '': insufficient fee'' @ t\<rparr>)"
  then show "broadcast_sync client tx c = (c', Inl (''insufficient fee: got '' @ g @ '', required '' @ r))"
    using find_fee_text [OF assms(1,2), of t] assms(3)
    by (simp add: broadcast_sync_def parse_broadcast_error_def insufficient_fee_text_def del: find_fee.simps)
qed (rule broadcast_sync_Inr)

text \<open>A node that refuses for the fee, and one that refuses for another reason.\<close>

definition refusing_rpc :: "string \<Rightarrow> nat rpc_api" where
  "refusing_rpc log =
     \<lparr>rp_abci_query = (\<lambda>_ _ c. (c, Inr \<lparr>ab_code = 22, ab_log = ''agent Not Found'', ab_codespace = ''agent'', ab_value = []\<rparr>)),
      rp_broadcast_tx_sync = (\<lambda>_ c. (Suc c, Inr \<lparr>br_tx_hash = ''AB'', br_code = 13, br_raw_log = log\<rparr>))\<rparr>"

lemma broadcast_outcomes_witness:
  "broadcast_sync (Rpc_Client (refusing_rpc (''insufficient fees; got: '' @ ''1asvp'' @ '' required: '' @ ''9asvp'' @
       '': insufficient fee'' @ []))) ''tx'' 0 = (1, Inl (''insufficient fee: got '' @ ''1asvp'' @ '', required '' @ ''9asvp''))
   \<and> broadcast_sync (Rpc_Client (refusing_rpc ''out of gas'')) ''tx'' 0 =
       (1, Inr \<lparr>br_tx_hash = ''AB'', br_code = 13, br_raw_log = ''out of gas''\<rparr>)"
proof -
  have coins: "coin_text ''1asvp''" "coin_text ''9asvp''" "(0::nat) < 13" by code_simp+
  have "find_fee ''out of gas'' = None" by code_simp
  with broadcast_outcomes [OF coins] show ?thesis
    by (intro conjI broadcast_outcomes [OF coins, THEN conjunct2, THEN mp]
        broadcast_outcomes [OF coins, THEN conjunct1, THEN iffD2])
      (simp_all add: send_tx_def refusing_rpc_def del: find_fee.simps)
qed

text \<open>An agent counts as not registered exactly when the registry says so: by the gRPC status, or over
  RPC by the words of the refusal in any case; every other failure is an error.\<close>

theorem unknown_agent_outcomes:
  "(agent_by_id co (Grpc_Client grpc) agent_id c = (c', Inr None) \<longleftrightarrow>
     (\<exists>e. gr_agent grpc agent_id c = (c', Inl e) \<and> ge_code e = 5))
   \<and> (agent_by_id co (Rpc_Client rpc) agent_id c = (c', Inr None) \<longleftrightarrow>
     (\<exists>data r. cd_marshal (co_agent co) agent_id = Inr data
        \<and> rp_abci_query rpc ''/dydxprotocol.agent.Query/Agent'' data c = (c', Inr r)
        \<and> ab_code r \<noteq> 0 \<and> contains (to_lower (ab_log r)) ''not found''))
   \<and> (agent_by_id co (Rpc_Client rpc) agent_id c = (c', Inr (Some a)) \<longleftrightarrow>
     (\<exists>data r. cd_marshal (co_agent co) agent_id = Inr data
        \<and> rp_abci_query rpc ''/dydxprotocol.agent.Query/Agent'' data c = (c', Inr r)
        \<and> ab_code r = 0 \<and> cd_unmarshal (co_agent co) (ab_value r) = Inr a))"
proof (intro conjI)
  show "agent_by_id co (Grpc_Client grpc) agent_id c = (c', Inr None) \<longleftrightarrow>
     (\<exists>e. gr_agent grpc agent_id c = (c', Inl e) \<and> ge_code e = 5)"
    by (cases "gr_agent grpc agent_id c"; cases "snd (gr_agent grpc agent_id c)")
      (auto simp: agent_by_id_def is_not_found_def grpc_not_found_def)
qed (auto simp: agent_by_id_def rpc_query_def agent_path_def split: prod.splits sum.splits if_splits)+

end
