(* ===== verification/Registration.thy ===== *)
theory Registration
  imports Chain_Client "HOL-Library.List_Lexorder" "HOL-Library.Char_ord"
begin

text \<open>
  What the registry should hold for the agent, and the messages that bring it there
  (\<open>internal/agentchain/register.go\<close>), with the registry's side of those messages as the
  specification they are meant for.
\<close>

section \<open>The desired registration\<close>

record desired =
  de_endpoint :: string
  de_capability_hash :: string
  de_capabilities :: "string list"
  de_metadata :: string
  de_pricing :: "pricing option"

record msg_register =
  mr_owner :: string
  mr_agent_id :: string
  mr_endpoint :: string
  mr_capability_hash :: string
  mr_capabilities :: "string list"
  mr_initial_bond :: coin
  mr_metadata :: string
  mr_pricing :: "pricing option"

record msg_update =
  mu_owner :: string
  mu_agent_id :: string
  mu_endpoint :: string
  mu_capability_hash :: string
  mu_capabilities :: "string list"
  mu_pricing :: "pricing option"
  mu_metadata :: string

text \<open>
  An account address is its bytes; \<open>text_of\<close> is its bech32 text, and the id of an owner's agent is
  derived by the registry's own package: \<open>id_of\<close>.
\<close>

definition build_register ::
    "(string \<Rightarrow> string) \<Rightarrow> (string \<Rightarrow> string) \<Rightarrow> string \<Rightarrow> desired \<Rightarrow> coin \<Rightarrow> msg_register" where
  "build_register text_of id_of owner_addr want bond =
     \<lparr>mr_owner = text_of owner_addr, mr_agent_id = id_of owner_addr, mr_endpoint = de_endpoint want,
      mr_capability_hash = de_capability_hash want, mr_capabilities = de_capabilities want,
      mr_initial_bond = bond, mr_metadata = de_metadata want, mr_pricing = de_pricing want\<rparr>"

definition build_update :: "chain_agent \<Rightarrow> desired \<Rightarrow> msg_update" where
  "build_update existing want =
     (let metadata = (if de_metadata want \<noteq> [] then de_metadata want else ca_metadata existing);
          pricing = (case de_pricing want of None \<Rightarrow> ca_pricing existing | Some p \<Rightarrow> Some p)
      in \<lparr>mu_owner = ca_owner existing, mu_agent_id = ca_agent_id existing, mu_endpoint = de_endpoint want,
          mu_capability_hash = de_capability_hash want, mu_capabilities = de_capabilities want,
          mu_pricing = pricing, mu_metadata = metadata\<rparr>)"

section \<open>Drift\<close>

definition same_pricing :: "pricing option \<Rightarrow> pricing option \<Rightarrow> bool" where
  "same_pricing a b \<longleftrightarrow>
     (case (a, b) of
        (Some p, Some q) \<Rightarrow> pr_unit p = pr_unit q \<and> pr_amount p = pr_amount q
      | (None, None) \<Rightarrow> True
      | _ \<Rightarrow> False)"

definition same_set :: "string list \<Rightarrow> string list \<Rightarrow> bool" where
  "same_set a b \<longleftrightarrow> length a = length b \<and> sort a = sort b"

datatype drift =
    Endpoint_Moved string string
  | Card_Changed string string
  | Capabilities_Changed "string list" "string list"
  | Metadata_Changed
  | Pricing_Changed

definition drifts :: "chain_agent \<Rightarrow> desired \<Rightarrow> drift list" where
  "drifts existing want =
     (if ca_endpoint existing \<noteq> de_endpoint want
      then [Endpoint_Moved (ca_endpoint existing) (de_endpoint want)] else [])
     @ (if ca_capability_hash existing \<noteq> de_capability_hash want
        then [Card_Changed (ca_capability_hash existing) (de_capability_hash want)] else [])
     @ (if \<not> same_set (ca_capabilities existing) (de_capabilities want)
        then [Capabilities_Changed (ca_capabilities existing) (de_capabilities want)] else [])
     @ (if de_metadata want \<noteq> [] \<and> ca_metadata existing \<noteq> de_metadata want then [Metadata_Changed] else [])
     @ (if de_pricing want \<noteq> None \<and> \<not> same_pricing (ca_pricing existing) (de_pricing want)
        then [Pricing_Changed] else [])"

section \<open>What the registry makes of the messages\<close>

text \<open>
  The contract of the two messages, as the comments of the source state it: a registration
  creates the record, an update replaces every mutable field with the value sent. Status, bond
  and height are the registry's own.
\<close>

definition apply_register :: "msg_register \<Rightarrow> nat \<Rightarrow> chain_agent" where
  "apply_register m status =
     \<lparr>ca_agent_id = mr_agent_id m, ca_owner = mr_owner m, ca_endpoint = mr_endpoint m,
      ca_capability_hash = mr_capability_hash m, ca_capabilities = mr_capabilities m,
      ca_metadata = mr_metadata m, ca_pricing = mr_pricing m, ca_status = status,
      ca_bond = mr_initial_bond m, ca_unbonding_complete_height = 0\<rparr>"

definition apply_update :: "msg_update \<Rightarrow> chain_agent \<Rightarrow> chain_agent" where
  "apply_update m a =
     a\<lparr>ca_endpoint := mu_endpoint m, ca_capability_hash := mu_capability_hash m,
       ca_capabilities := mu_capabilities m, ca_metadata := mu_metadata m, ca_pricing := mu_pricing m\<rparr>"

section \<open>What agreement means\<close>

text \<open>The record agrees with the desired state; tags count as often as they are given.\<close>

definition settled :: "chain_agent \<Rightarrow> desired \<Rightarrow> bool" where
  "settled a want \<longleftrightarrow>
     ca_endpoint a = de_endpoint want \<and> ca_capability_hash a = de_capability_hash want
     \<and> mset (ca_capabilities a) = mset (de_capabilities want)
     \<and> (de_metadata want = [] \<or> ca_metadata a = de_metadata want)
     \<and> (de_pricing want = None \<or> ca_pricing a = de_pricing want)"

lemma sort_eq_iff_mset: "sort xs = sort ys \<longleftrightarrow> mset xs = mset ys"
  by (metis mset_sort properties_for_sort sorted_sort)

lemma same_set_mset: "same_set xs ys \<longleftrightarrow> mset xs = mset ys"
  by (auto simp: same_set_def sort_eq_iff_mset dest: mset_eq_length)

lemma same_pricing_eq: "same_pricing p q \<longleftrightarrow> p = q"
  by (cases p; cases q) (auto simp: same_pricing_def)

lemma drifts_Nil: "drifts a want = [] \<longleftrightarrow> settled a want"
  by (auto simp: drifts_def settled_def same_set_mset same_pricing_eq)

lemma settled_update: "settled (apply_update (build_update a want) a) want"
  by (auto simp: settled_def apply_update_def build_update_def Let_def split: option.splits)

lemma settled_register: "settled (apply_register (build_register text_of id_of owner want bond) status) want"
  by (simp add: settled_def apply_register_def build_register_def)

section \<open>Properties\<close>

text \<open>C38: No drift is reported exactly when the record agrees with what is served: endpoint and card hash,
  the tags in any order but each as often as given, and metadata and price where the caller names
  them. A drift is one of the record, never of the order of tags.\<close>

theorem no_drift_iff_settled:
  "(drifts a want = [] \<longleftrightarrow>
     ca_endpoint a = de_endpoint want \<and> ca_capability_hash a = de_capability_hash want
     \<and> mset (ca_capabilities a) = mset (de_capabilities want)
     \<and> (de_metadata want = [] \<or> ca_metadata a = de_metadata want)
     \<and> (de_pricing want = None \<or> ca_pricing a = de_pricing want))
   \<and> distinct (drifts a want)
   \<and> (Endpoint_Moved u v \<in> set (drifts a want) \<longleftrightarrow> ca_endpoint a \<noteq> de_endpoint want
        \<and> u = ca_endpoint a \<and> v = de_endpoint want)"
  by (simp add: drifts_Nil settled_def) (auto simp: drifts_def)

text \<open>An update brings the record to the desired state and changes nothing that was not asked for:
  the owner, the id, status and bond stay, and so do metadata and price when the caller names none.
  Updating an updated record again would change nothing.\<close>

theorem update_settles:
  "drifts (apply_update (build_update a want) a) want = []
   \<and> ca_owner (apply_update (build_update a want) a) = ca_owner a
   \<and> mu_agent_id (build_update a want) = ca_agent_id a
   \<and> ca_bond (apply_update (build_update a want) a) = ca_bond a
   \<and> ca_metadata (apply_update (build_update a (want\<lparr>de_metadata := []\<rparr>)) a) = ca_metadata a
   \<and> ca_pricing (apply_update (build_update a (want\<lparr>de_pricing := None\<rparr>)) a) = ca_pricing a
   \<and> apply_update (build_update (apply_update (build_update a want) a) want) (apply_update (build_update a want) a)
       = apply_update (build_update a want) a"
  by (simp add: drifts_Nil settled_update)
    (auto simp: apply_update_def build_update_def Let_def split: option.splits)

end
