(* ===== verification/Owner_Key.thy ===== *)
theory Owner_Key
  imports Chain_Client
begin

unbundle bit_operations_syntax

text \<open>
  The owner key (\<open>internal/owner\<close>, \<open>internal/mcp/signer\<close>, \<open>internal/mcp/payload\<close> and
  \<open>cmd/owner-keygen\<close>): reading it, minting it into a file, and signing with it.

  The curve, the address of a key, the protobuf codecs and the integer parser of the SDK are
  arguments. A private key is its 32 bytes.
\<close>

section \<open>Reading a key\<close>

datatype key_error = Key_Not_Hex | Key_Length nat

definition parse_priv_key :: "string \<Rightarrow> key_error + string" where
  "parse_priv_key value =
     (case hex_decode (trim_prefix (trim_space value) ''0x'') of
        None \<Rightarrow> Inl Key_Not_Hex
      | Some bytes \<Rightarrow> if length bytes \<noteq> 32 then Inl (Key_Length (length bytes)) else Inr bytes)"

datatype owner_error = Read_Key_File string | Parse_Owner_Key key_error

text \<open>The key and its address, or nothing when there is neither a variable nor a file.\<close>

definition load_key ::
    "(string \<Rightarrow> string) \<Rightarrow> string \<Rightarrow> (string \<Rightarrow> string + string) \<Rightarrow> string \<Rightarrow>
     owner_error + (string \<times> string) option" where
  "load_key address env_value read_file key_file =
     (case (if trim_space env_value = [] \<and> key_file \<noteq> []
            then map_err Read_Key_File (bindE (read_file key_file) (\<lambda>raw. Inr (trim_space raw)))
            else Inr (trim_space env_value)) of
        Inl e \<Rightarrow> Inl e
      | Inr hex_key \<Rightarrow>
          if hex_key = [] then Inr None
          else (case parse_priv_key hex_key of
              Inl e \<Rightarrow> Inl (Parse_Owner_Key e)
            | Inr priv \<Rightarrow> Inr (Some (priv, address priv))))"

section \<open>Minting a key\<close>

definition generate_key :: "(string \<Rightarrow> string) \<Rightarrow> string + string \<Rightarrow> string + string \<times> string" where
  "generate_key address gen =
     (case gen of
        Inl e \<Rightarrow> Inl (''generate owner key: '' @ e)
      | Inr priv \<Rightarrow> Inr (hex_encode priv, address priv))"

text \<open>A file system: contents and permission bits by path.\<close>

record file_entry =
  fl_content :: string
  fl_mode :: int

type_synonym file_system = "(string, file_entry) gomap"

text \<open>
  The process's umask, which the system takes from the mode of every file it creates, and what can
  go wrong beyond an existing file: the open, the write after some bytes, the close.
\<close>

record keygen_env =
  ke_generate :: "string + string"
  ke_umask :: int
  ke_open_error :: "string option"
  ke_write_error :: "(nat \<times> string) option"
  ke_close_error :: "string option"

datatype keygen_error =
    Out_Required
  | Generate_Failed string
  | Create_Failed string
  | Write_Failed string
  | Close_Failed string

definition key_mode :: int where
  "key_mode = 0x180"

definition open_exclusive ::
    "string option \<Rightarrow> string \<Rightarrow> int \<Rightarrow> file_system \<Rightarrow> string + file_system" where
  "open_exclusive err path mode fs =
     (if map_of fs path \<noteq> None then Inl ''file exists''
      else (case err of Some e \<Rightarrow> Inl e | None \<Rightarrow> Inr (AList.update path \<lparr>fl_content = [], fl_mode = mode\<rparr> fs)))"

definition owner_keygen ::
    "(string \<Rightarrow> string) \<Rightarrow> keygen_env \<Rightarrow> string \<Rightarrow> file_system \<Rightarrow>
     file_system \<times> (keygen_error + string list)" where
  "owner_keygen address env path fs =
     (if path = [] then (fs, Inl Out_Required)
      else (case generate_key address (ke_generate env) of
          Inl e \<Rightarrow> (fs, Inl (Generate_Failed e))
        | Inr (key, addr) \<Rightarrow>
            (case open_exclusive (ke_open_error env) path (key_mode AND NOT (ke_umask env)) fs of
               Inl e \<Rightarrow> (fs, Inl (Create_Failed e))
             | Inr fs \<Rightarrow>
                 (let text = key @ [CHR 0x0A]; mode = key_mode AND NOT (ke_umask env)
                  in case ke_write_error env of
                       Some (n, e) \<Rightarrow>
                         (AList.update path \<lparr>fl_content = take n text, fl_mode = mode\<rparr> fs, Inl (Write_Failed e))
                     | None \<Rightarrow>
                         (let fs = AList.update path \<lparr>fl_content = text, fl_mode = mode\<rparr> fs
                          in case ke_close_error env of
                               Some e \<Rightarrow> (fs, Inl (Close_Failed e))
                             | None \<Rightarrow> (fs, Inr [addr]))))))"

text \<open>Reading a whole file back.\<close>

definition read_from :: "file_system \<Rightarrow> string \<Rightarrow> string + string" where
  "read_from fs path = (case map_of fs path of None \<Rightarrow> Inl ''no such file'' | Some f \<Rightarrow> Inr (fl_content f))"

section \<open>Signing\<close>

record fee_spec =
  fs_denom :: string
  fs_amount :: string
  fs_gas_limit :: nat

record 'any auth_info =
  au_public_key :: 'any
  au_sequence :: nat
  au_fee :: "coin list"
  au_gas_limit :: nat

record sign_doc =
  sd_body_bytes :: string
  sd_auth_info_bytes :: string
  sd_chain_id :: string
  sd_account_number :: nat

record tx_raw =
  tr_body_bytes :: string
  tr_auth_info_bytes :: string
  tr_signatures :: "string list"

record ('msg, 'any) tx_codec =
  tc_pack :: "'msg \<Rightarrow> string + 'any"
  tc_marshal_body :: "'any list \<Rightarrow> string + string"
  tc_parse_int :: "string \<Rightarrow> int option"
  tc_pack_pub_key :: "string \<Rightarrow> string + 'any"
  tc_marshal_auth :: "'any auth_info \<Rightarrow> string + string"
  tc_marshal_sign_doc :: "sign_doc \<Rightarrow> string + string"
  tc_sign :: "string \<Rightarrow> string \<Rightarrow> string + string"
  tc_marshal_raw :: "tx_raw \<Rightarrow> string + string"

datatype sign_error =
    No_Messages
  | Pack_Msg nat string
  | Marshal_Body string
  | Bad_Fee_Amount string
  | Pack_Pub_Key string
  | Marshal_Auth_Info string
  | Compute_Sign_Bytes string
  | Sign_Failed string
  | Marshal_Tx_Raw string

definition direct_sign_bytes ::
    "('msg, 'any) tx_codec \<Rightarrow> string \<Rightarrow> string \<Rightarrow> string \<Rightarrow> nat \<Rightarrow> string + string" where
  "direct_sign_bytes tc body auth chain_id account_number =
     map_err (\<lambda>e. ''marshal SignDoc: '' @ e)
       (tc_marshal_sign_doc tc \<lparr>sd_body_bytes = body, sd_auth_info_bytes = auth, sd_chain_id = chain_id,
          sd_account_number = account_number\<rparr>)"

fun pack_msgs :: "('msg, 'any) tx_codec \<Rightarrow> nat \<Rightarrow> 'msg list \<Rightarrow> sign_error + 'any list" where
  "pack_msgs tc i [] = Inr []"
| "pack_msgs tc i (m # ms) =
     (case tc_pack tc m of
        Inl e \<Rightarrow> Inl (Pack_Msg i e)
      | Inr a \<Rightarrow> bindE (pack_msgs tc (Suc i) ms) (\<lambda>as. Inr (a # as)))"

definition fee_coins :: "fee_spec \<Rightarrow> int \<Rightarrow> coin list" where
  "fee_coins fee amount = (if amount = 0 then [] else [\<lparr>cn_denom = fs_denom fee, cn_amount = amount\<rparr>])"

definition sign_tx ::
    "('msg, 'any) tx_codec \<Rightarrow> string \<Rightarrow> string \<Rightarrow> account_info \<Rightarrow> 'msg list \<Rightarrow> fee_spec \<Rightarrow> sign_error + string" where
  "sign_tx tc priv chain_id acct msgs fee =
     (if msgs = [] then Inl No_Messages
      else bindE (pack_msgs tc 0 msgs) (\<lambda>anys.
        bindE (map_err Marshal_Body (tc_marshal_body tc anys)) (\<lambda>body.
        case tc_parse_int tc (fs_amount fee) of
          None \<Rightarrow> Inl (Bad_Fee_Amount (fs_amount fee))
        | Some amount \<Rightarrow>
            bindE (map_err Pack_Pub_Key (tc_pack_pub_key tc priv)) (\<lambda>pub.
            bindE (map_err Marshal_Auth_Info (tc_marshal_auth tc
              \<lparr>au_public_key = pub, au_sequence = ai_sequence acct, au_fee = fee_coins fee amount,
               au_gas_limit = fs_gas_limit fee\<rparr>)) (\<lambda>auth.
            bindE (map_err Compute_Sign_Bytes (direct_sign_bytes tc body auth chain_id (ai_account_number acct))) (\<lambda>bytes.
            bindE (map_err Sign_Failed (tc_sign tc priv bytes)) (\<lambda>sig.
            map_err Marshal_Tx_Raw (tc_marshal_raw tc
              \<lparr>tr_body_bytes = body, tr_auth_info_bytes = auth, tr_signatures = [sig]\<rparr>))))))))"

section \<open>Reading back what was minted\<close>

lemma no_hex_prefix: "trim_prefix (hex_encode k) ''0x'' = hex_encode k"
proof -
  have "CHR ''x'' \<notin> set (hex_encode k)" by (rule hex_value_None_neq) code_simp
  then have "\<not> has_prefix (hex_encode k) ''0x''" by (auto simp: has_prefix_iff)
  then show ?thesis by (simp add: trim_prefix_def)
qed

lemma parse_hex_key: "length k = 32 \<Longrightarrow> parse_priv_key (hex_encode k) = Inr k"
  using trim_space_hex(1) [of k] by (cases "k = []") (simp_all add: parse_priv_key_def no_hex_prefix)

lemma load_env_key:
  assumes "length k = 32"
  shows "load_key address (hex_encode k) read_file key_file = Inr (Some (k, address k))"
proof -
  have "k \<noteq> []" using assms by auto
  then show ?thesis
    using assms by (simp add: load_key_def trim_space_hex parse_hex_key)
qed

lemma load_file_key:
  assumes "length k = 32" and "trim_space env_value = []" and "key_file \<noteq> []"
    and "read_file key_file = Inr (hex_encode k @ [CHR 0x0A])"
  shows "load_key address env_value read_file key_file = Inr (Some (k, address k))"
proof -
  have "k \<noteq> []" using assms(1) by auto
  then show ?thesis
    using assms by (simp add: load_key_def trim_space_hex parse_hex_key)
qed

lemma open_exclusive_Inr:
  "open_exclusive err path mode fs = Inr fs' \<longleftrightarrow>
     map_of fs path = None \<and> err = None \<and> fs' = AList.update path \<lparr>fl_content = [], fl_mode = mode\<rparr> fs"
  by (auto simp: open_exclusive_def split: option.splits)

lemma owner_keygen_frame:
  assumes "map_of fs p = Some f"
  shows "map_of (fst (owner_keygen address env path fs)) p = Some f"
  using assms
  by (cases "p = path")
    (auto simp: owner_keygen_def open_exclusive_def Let_def gomap_get_update split: sum.splits option.splits)

lemma owner_keygen_Inr:
  assumes "owner_keygen address env path fs = (fs', Inr out)"
  obtains k where "ke_generate env = Inr k" and "out = [address k]" and "path \<noteq> []"
    and "map_of fs path = None"
    and "map_of fs' path = Some \<lparr>fl_content = hex_encode k @ [CHR 0x0A], fl_mode = key_mode AND NOT (ke_umask env)\<rparr>"
  using assms
  by (auto simp: owner_keygen_def generate_key_def open_exclusive_Inr Let_def gomap_get_update
      split: if_splits sum.splits option.splits)

text \<open>Whatever the umask, nobody but the owner has a bit, and the usual ones leave both of the owner's.\<close>

lemma key_mode_private: "(key_mode AND NOT u) AND 0x3F = 0"
proof -
  have "(key_mode AND NOT u) AND 0x3F = (key_mode AND 0x3F) AND NOT u" by (simp add: ac_simps)
  also have "key_mode AND 0x3F = 0" by (simp add: key_mode_def)
  finally show ?thesis by simp
qed

lemma key_mode_usual:
  assumes "u AND key_mode = 0"
  shows "key_mode AND NOT u = 0x180"
proof -
  have "key_mode = (key_mode AND NOT u) OR (u AND key_mode)"
    by (rule bit_eqI) (auto simp: bit_simps)
  with assms have "key_mode = key_mode AND NOT u" by (metis or.right_neutral)
  then show ?thesis by (simp add: key_mode_def)
qed

section \<open>What a signature covers\<close>

text \<open>
  The chain's own check of a transaction it received, for an account it knows: one signer, whose
  sequence is the account's and whose one signature verifies, under the public key the transaction
  names, over the document of \<open>SIGN_MODE_DIRECT\<close>: the received body and signer info, the chain's id
  and the account's number.
\<close>

definition chain_accepts ::
    "(sign_doc \<Rightarrow> string + string) \<Rightarrow> (string \<Rightarrow> tx_raw option) \<Rightarrow> (string \<Rightarrow> 'any auth_info option) \<Rightarrow>
     ('any \<Rightarrow> string \<Rightarrow> string \<Rightarrow> bool) \<Rightarrow> string \<Rightarrow> account_info \<Rightarrow> string \<Rightarrow> bool" where
  "chain_accepts marshal_doc decode_raw decode_auth verify chain_id acct tx \<longleftrightarrow>
     (\<exists>raw info doc sig. decode_raw tx = Some raw \<and> decode_auth (tr_auth_info_bytes raw) = Some info
        \<and> au_sequence info = ai_sequence acct \<and> tr_signatures raw = [sig]
        \<and> marshal_doc \<lparr>sd_body_bytes = tr_body_bytes raw, sd_auth_info_bytes = tr_auth_info_bytes raw,
            sd_chain_id = chain_id, sd_account_number = ai_account_number acct\<rparr> = Inr doc
        \<and> verify (au_public_key info) doc sig)"

lemma sign_tx_Inr:
  assumes "sign_tx tc priv chain_id acct msgs fee = Inr tx"
  obtains anys body amount pub auth bytes sig where "msgs \<noteq> []" and "pack_msgs tc 0 msgs = Inr anys"
    and "tc_marshal_body tc anys = Inr body" and "tc_parse_int tc (fs_amount fee) = Some amount"
    and "tc_pack_pub_key tc priv = Inr pub"
    and "tc_marshal_auth tc \<lparr>au_public_key = pub, au_sequence = ai_sequence acct,
       au_fee = fee_coins fee amount, au_gas_limit = fs_gas_limit fee\<rparr> = Inr auth"
    and "direct_sign_bytes tc body auth chain_id (ai_account_number acct) = Inr bytes"
    and "tc_sign tc priv bytes = Inr sig"
    and "tc_marshal_raw tc \<lparr>tr_body_bytes = body, tr_auth_info_bytes = auth, tr_signatures = [sig]\<rparr> = Inr tx"
  using assms
  by (auto simp: sign_tx_def bindE_eq_Inr split: if_splits option.splits)

lemma pack_msgs_Inr:
  "pack_msgs tc i ms = Inr as \<Longrightarrow> list_all2 (\<lambda>m a. tc_pack tc m = Inr a) ms as"
  by (induction ms arbitrary: i as) (auto simp: bindE_eq_Inr split: sum.splits)

section \<open>Properties\<close>

text \<open>C25: A key that was minted into a file is the key that is loaded from it, under the address that was
  printed, and in a file created with mode 0600 less the umask, so that only its owner can read it; the
  hexadecimal text works as the variable just as well. The curve's keys are 32 bytes.\<close>

theorem minted_key_loads:
  assumes "owner_keygen address env path fs = (fs', Inr out)"
    and "\<And>k. ke_generate env = Inr k \<Longrightarrow> length k = 32" and "trim_space env_value = []"
  shows "\<exists>k. ke_generate env = Inr k \<and> out = [address k]
    \<and> load_key address env_value (read_from fs') path = Inr (Some (k, address k))
    \<and> load_key address (hex_encode k) read_file key_file = Inr (Some (k, address k))
    \<and> (\<exists>mode. map_option fl_mode (map_of fs' path) = Some mode \<and> mode = 0x180 AND NOT (ke_umask env)
        \<and> mode AND 0x3F = 0 \<and> (ke_umask env AND 0x180 = 0 \<longrightarrow> mode = 0x180))"
proof -
  from assms(1) obtain k where k: "ke_generate env = Inr k" "out = [address k]" "path \<noteq> []"
      "map_of fs' path = Some \<lparr>fl_content = hex_encode k @ [CHR 0x0A], fl_mode = key_mode AND NOT (ke_umask env)\<rparr>"
    by (rule owner_keygen_Inr)
  then have "read_from fs' path = Inr (hex_encode k @ [CHR 0x0A])" by (simp add: read_from_def)
  moreover have "(0x180 AND NOT (ke_umask env)) AND 0x3F = 0"
      "ke_umask env AND 0x180 = 0 \<longrightarrow> 0x180 AND NOT (ke_umask env) = 0x180"
    using key_mode_private [of "ke_umask env"] key_mode_usual [of "ke_umask env"] unfolding key_mode_def by blast+
  ultimately show ?thesis
    using k assms(2,3) by (intro exI [of _ k]) (simp add: load_file_key load_env_key key_mode_def)
qed

definition demo_keygen :: keygen_env where
  "demo_keygen = \<lparr>ke_generate = Inr (replicate 32 CHR 0xAB), ke_umask = 0x12, ke_open_error = None, ke_write_error = None, ke_close_error = None\<rparr>"

lemma demo_keygen_run:
  "owner_keygen (take 3) demo_keygen ''k'' [] =
     ([(''k'', \<lparr>fl_content = hex_encode (replicate 32 CHR 0xAB) @ [CHR 0x0A], fl_mode = 0x180\<rparr>)],
      Inr [replicate 3 CHR 0xAB])"
  by code_simp

lemma minted_key_loads_witness:
  "load_key (take 3) [] (read_from (fst (owner_keygen (take 3) demo_keygen ''k'' []))) ''k'' =
     Inr (Some (replicate 32 CHR 0xAB, take 3 (replicate 32 CHR 0xAB)))"
proof -
  have "length k = 32" if "ke_generate demo_keygen = Inr k" for k
    using that by (auto simp: demo_keygen_def)
  from minted_key_loads [OF demo_keygen_run this trim_space_Nil] show ?thesis
    unfolding demo_keygen_run by (auto simp: demo_keygen_def)
qed

text \<open>C26: Minting never touches a file that is there: whatever happens on the way, every existing file
  keeps its bytes and its mode, and naming one as the target is refused. So no registered key is ever
  replaced.\<close>

theorem keygen_keeps_existing_files:
  assumes "map_of fs p = Some f"
  shows "map_of (fst (owner_keygen address env path fs)) p = Some f
    \<and> (p = path \<longrightarrow> fst (owner_keygen address env path fs) = fs \<and> \<not> is_ok (snd (owner_keygen address env path fs)))"
  using owner_keygen_frame [OF assms] assms
  by (auto simp: owner_keygen_def open_exclusive_def split: sum.splits)

lemma keygen_keeps_existing_files_witness:
  "snd (owner_keygen (take 3) demo_keygen ''k'' [(''k'', \<lparr>fl_content = ''old'', fl_mode = 0x180\<rparr>)]) =
     Inl (Create_Failed ''file exists'')
   \<and> fst (owner_keygen (take 3) demo_keygen ''k'' [(''k'', \<lparr>fl_content = ''old'', fl_mode = 0x180\<rparr>)]) =
     [(''k'', \<lparr>fl_content = ''old'', fl_mode = 0x180\<rparr>)]"
proof
  show "snd (owner_keygen (take 3) demo_keygen ''k'' [(''k'', \<lparr>fl_content = ''old'', fl_mode = 0x180\<rparr>)]) =
      Inl (Create_Failed ''file exists'')"
    by (simp add: owner_keygen_def generate_key_def demo_keygen_def open_exclusive_def)
  show "fst (owner_keygen (take 3) demo_keygen ''k'' [(''k'', \<lparr>fl_content = ''old'', fl_mode = 0x180\<rparr>)]) =
      [(''k'', \<lparr>fl_content = ''old'', fl_mode = 0x180\<rparr>)]"
    using keygen_keeps_existing_files [of "[(''k'', \<lparr>fl_content = ''old'', fl_mode = 0x180\<rparr>)]" "''k''"
        "\<lparr>fl_content = ''old'', fl_mode = 0x180\<rparr>" "take 3" demo_keygen "''k''"] by simp
qed

text \<open>C24: A signed transaction carries exactly the given messages in order, the account's sequence, the
  declared fee and the public key of the signing key, and the chain accepts it: it rebuilds the signed
  document from what it received, its own id and the account's number. The codec reads back what it
  wrote, and what a key signs verifies under its public key.\<close>

theorem signed_tx_is_accepted:
  fixes tc :: "('msg, 'any) tx_codec"
  assumes "sign_tx tc priv chain_id acct msgs fee = Inr tx"
    and "\<And>raw bytes. tc_marshal_raw tc raw = Inr bytes \<Longrightarrow> decode_raw bytes = Some raw"
    and "\<And>info bytes. tc_marshal_auth tc info = Inr bytes \<Longrightarrow> decode_auth bytes = Some info"
    and "\<And>pub bytes sig. tc_pack_pub_key tc priv = Inr pub \<Longrightarrow> tc_sign tc priv bytes = Inr sig \<Longrightarrow>
      verify pub bytes sig"
  shows "chain_accepts (tc_marshal_sign_doc tc) decode_raw decode_auth verify chain_id acct tx
    \<and> (\<exists>anys body auth pub amount sig. decode_raw tx =
          Some \<lparr>tr_body_bytes = body, tr_auth_info_bytes = auth, tr_signatures = [sig]\<rparr>
        \<and> list_all2 (\<lambda>m a. tc_pack tc m = Inr a) msgs anys \<and> tc_marshal_body tc anys = Inr body
        \<and> tc_parse_int tc (fs_amount fee) = Some amount \<and> tc_pack_pub_key tc priv = Inr pub
        \<and> decode_auth auth = Some \<lparr>au_public_key = pub, au_sequence = ai_sequence acct,
             au_fee = (if amount = 0 then [] else [\<lparr>cn_denom = fs_denom fee, cn_amount = amount\<rparr>]),
             au_gas_limit = fs_gas_limit fee\<rparr>)"
  using assms(1)
proof (rule sign_tx_Inr)
  fix anys body amount auth bytes sig and pub :: 'any
  let ?info = "\<lparr>au_public_key = pub, au_sequence = ai_sequence acct, au_fee = fee_coins fee amount,
    au_gas_limit = fs_gas_limit fee\<rparr>"
  assume packed: "pack_msgs tc 0 msgs = Inr anys" and body: "tc_marshal_body tc anys = Inr body"
    and amount: "tc_parse_int tc (fs_amount fee) = Some amount" and pub: "tc_pack_pub_key tc priv = Inr pub"
    and auth: "tc_marshal_auth tc ?info = Inr auth"
    and bytes: "direct_sign_bytes tc body auth chain_id (ai_account_number acct) = Inr bytes"
    and sig: "tc_sign tc priv bytes = Inr sig"
    and raw: "tc_marshal_raw tc \<lparr>tr_body_bytes = body, tr_auth_info_bytes = auth, tr_signatures = [sig]\<rparr> = Inr tx"
  have decoded: "decode_raw tx = Some \<lparr>tr_body_bytes = body, tr_auth_info_bytes = auth, tr_signatures = [sig]\<rparr>"
      "decode_auth auth = Some ?info"
    by (rule assms(2) [OF raw], rule assms(3) [OF auth])
  moreover have "verify pub bytes sig" by (rule assms(4) [OF pub sig])
  ultimately have "chain_accepts (tc_marshal_sign_doc tc) decode_raw decode_auth verify chain_id acct tx"
    using bytes unfolding chain_accepts_def direct_sign_bytes_def map_err_eq_Inr by fastforce
  with decoded pack_msgs_Inr [OF packed] body amount pub show ?thesis
    unfolding fee_coins_def by blast
qed

text \<open>A codec that can write a single transaction meets the hypotheses.\<close>

definition demo_raw :: tx_raw where
  "demo_raw = \<lparr>tr_body_bytes = ''body'', tr_auth_info_bytes = ''auth'', tr_signatures = [''sig'']\<rparr>"

definition demo_info :: "string auth_info" where
  "demo_info = \<lparr>au_public_key = ''pub'', au_sequence = 4, au_fee = [], au_gas_limit = 1\<rparr>"

definition demo_codec :: "(string, string) tx_codec" where
  "demo_codec =
     \<lparr>tc_pack = (\<lambda>m. Inr m), tc_marshal_body = (\<lambda>_. Inr ''body''), tc_parse_int = (\<lambda>_. Some 0),
      tc_pack_pub_key = (\<lambda>_. Inr ''pub''),
      tc_marshal_auth = (\<lambda>i. if i = demo_info then Inr ''auth'' else Inl ''too long''),
      tc_marshal_sign_doc =
        (\<lambda>d. Inr (sd_body_bytes d @ sd_auth_info_bytes d @ sd_chain_id d @ show_nat (sd_account_number d))),
      tc_sign = (\<lambda>_ m. if m = ''bodyauthc3'' then Inr ''sig'' else Inl ''refused''),
      tc_marshal_raw = (\<lambda>r. if r = demo_raw then Inr ''tx'' else Inl ''too long'')\<rparr>"

definition demo_fee :: fee_spec where
  "demo_fee = \<lparr>fs_denom = ''asvp'', fs_amount = ''0'', fs_gas_limit = 1\<rparr>"

lemma demo_signed:
  "sign_tx demo_codec ''k'' ''c'' \<lparr>ai_account_number = 3, ai_sequence = 4\<rparr> [''m''] demo_fee = Inr ''tx''"
  by code_simp

lemma signed_tx_is_accepted_witness:
  "chain_accepts (tc_marshal_sign_doc demo_codec) (\<lambda>_. Some demo_raw) (\<lambda>_. Some demo_info)
     (\<lambda>p m s. p = ''pub'' \<and> m = ''bodyauthc3'' \<and> s = ''sig'') ''c'' \<lparr>ai_account_number = 3, ai_sequence = 4\<rparr> ''tx''"
proof -
  have "(\<lambda>_. Some demo_raw) bytes = Some raw" if "tc_marshal_raw demo_codec raw = Inr bytes" for raw bytes
    using that by (simp add: demo_codec_def split: if_splits)
  moreover have "(\<lambda>_. Some demo_info) bytes = Some info" if "tc_marshal_auth demo_codec info = Inr bytes" for info bytes
    using that by (simp add: demo_codec_def split: if_splits)
  moreover have "(\<lambda>p m s. p = ''pub'' \<and> m = ''bodyauthc3'' \<and> s = ''sig'') pub bytes sig"
    if "tc_pack_pub_key demo_codec ''k'' = Inr pub" "tc_sign demo_codec ''k'' bytes = Inr sig" for pub bytes sig
    using that by (auto simp: demo_codec_def split: if_splits)
  ultimately show ?thesis by (rule signed_tx_is_accepted [OF demo_signed, THEN conjunct1])
qed

end
