(* ===== verification/Register_Command.thy ===== *)
theory Register_Command
  imports Registration Owner_Key Json Mcp_Client
begin

text \<open>
  The command that registers the agent or brings its registration up to date
  (\<open>cmd/agent-register\<close>).

  The card is fetched and the chain is asked on one world \<open>'c\<close>. A run gives that world, the
  lines it printed, the transactions it handed to the node and the error it ended with.
\<close>

section \<open>What the commands reach\<close>

datatype chain_msg =
    Msg_Register msg_register
  | Msg_Update msg_update
  | Msg_Deregister string string

datatype fetched =
    Bad_Card_Request string
  | Fetch_Failed string
  | Fetched nat "string + string"

text \<open>
  \<open>re_parse_address\<close> and \<open>re_address_text\<close> are bech32, \<open>re_agent_id\<close> and \<open>re_parse_agent_id\<close> the
  registry's ids, and the integers, coins, statuses and message checks are the SDK's.
\<close>

record ('c, 'any) reg_env =
  re_key_variable :: string
  re_read_file :: "string \<Rightarrow> string + string"
  re_derive_address :: "string \<Rightarrow> string"
  re_parse_address :: "string \<Rightarrow> string + string"
  re_address_text :: "string \<Rightarrow> string"
  re_agent_id :: "string \<Rightarrow> string"
  re_parse_agent_id :: "string \<Rightarrow> string + string"
  re_fetch :: "string \<Rightarrow> 'c \<Rightarrow> 'c \<times> fetched"
  re_sha256 :: "string \<Rightarrow> string"
  re_dial_rpc :: "string \<Rightarrow> string + 'c rpc_api"
  re_dial_grpc :: "string \<Rightarrow> string + ('c, 'any) grpc_api"
  re_codecs :: "'any codecs"
  re_tx :: "(chain_msg, 'any) tx_codec"
  re_parse_coin :: "string \<Rightarrow> string + coin"
  re_coin_text :: "coin \<Rightarrow> string"
  re_coin_add :: "coin \<Rightarrow> coin \<Rightarrow> coin"
  re_status_text :: "nat \<Rightarrow> string"
  re_deregistering :: nat
  re_validate :: "chain_msg \<Rightarrow> string option"

record reg_opts =
  ro_url :: string
  ro_card_url :: string
  ro_chain_id :: string
  ro_grpc_addr :: string
  ro_rpc_url :: string
  ro_key_file :: string
  ro_bond :: string
  ro_capabilities :: string
  ro_metadata :: string
  ro_pricing_amount :: string
  ro_pricing_unit :: string
  ro_fee_denom :: string
  ro_fee_amount :: string
  ro_gas_limit :: nat
  ro_dry_run :: bool

datatype reg_error =
    Reg_Url_Required
  | Reg_Chain_Required
  | Reg_Grpc_And_Rpc
  | Reg_Capabilities_Required
  | Reg_Owner_Key owner_error
  | Reg_No_Owner_Key
  | Reg_Owner_Address string
  | Reg_Card string
  | Reg_Card_Unreadable
  | Reg_Card_Elsewhere string string
  | Reg_Pricing_Unit_Required
  | Reg_Pricing_Amount
  | Reg_Dial string
  | Reg_Lookup string
  | Reg_Pricing_Required
  | Reg_Bond string
  | Reg_Invalid_Message string string
  | Reg_Account string string
  | Reg_Sign sign_error
  | Reg_Broadcast string string

section \<open>Options\<close>

definition split_tags :: "string \<Rightarrow> string list" where
  "split_tags csv = filter (\<lambda>p. p \<noteq> []) (map trim_space (split_byte CHR '','' csv))"

definition base_url_of :: "string \<Rightarrow> string" where
  "base_url_of url = trim_suffix (trim_space url) ''/''"

text \<open>The checks of the flags: the base URL, the URL to fetch the card from, and the tags.\<close>

definition check_opts :: "reg_opts \<Rightarrow> reg_error + string \<times> string \<times> string list" where
  "check_opts o' =
     (let base = base_url_of (ro_url o')
      in if base = [] then Inl Reg_Url_Required
         else if ro_chain_id o' = [] \<or> (ro_grpc_addr o' = [] \<and> ro_rpc_url o' = []) then Inl Reg_Chain_Required
         else if ro_grpc_addr o' \<noteq> [] \<and> ro_rpc_url o' \<noteq> [] then Inl Reg_Grpc_And_Rpc
         else (let card_base = base_url_of (ro_card_url o');
                   card_base = (if card_base = [] then base else card_base);
                   tags = split_tags (ro_capabilities o')
               in if tags = [] then Inl Reg_Capabilities_Required else Inr (base, card_base, tags)))"

text \<open>The owner: key, address text and address.\<close>

definition load_owner ::
    "('c, 'any) reg_env \<Rightarrow> string \<Rightarrow> reg_error + string \<times> string \<times> string" where
  "load_owner env key_file =
     (case load_key (re_derive_address env) (re_key_variable env) (re_read_file env) key_file of
        Inl e \<Rightarrow> Inl (Reg_Owner_Key e)
      | Inr None \<Rightarrow> Inl Reg_No_Owner_Key
      | Inr (Some (priv, addr)) \<Rightarrow>
          (case re_parse_address env addr of
             Inl e \<Rightarrow> Inl (Reg_Owner_Address e)
           | Inr owner \<Rightarrow> Inr (priv, addr, owner)))"

definition max_uint256 :: int where
  "max_uint256 = 2 ^ 256 - 1"

definition parse_pricing :: "('c, 'any) reg_env \<Rightarrow> reg_opts \<Rightarrow> reg_error + pricing option" where
  "parse_pricing env o' =
     (let amount_text = trim_space (ro_pricing_amount o'); unit' = trim_space (ro_pricing_unit o')
      in if amount_text = [] then Inr None
         else if unit' = [] then Inl Reg_Pricing_Unit_Required
         else (case tc_parse_int (re_tx env) amount_text of
             None \<Rightarrow> Inl Reg_Pricing_Amount
           | Some amount \<Rightarrow>
               if \<not> 0 < amount \<or> amount > max_uint256 then Inl Reg_Pricing_Amount
               else Inr (Some \<lparr>pr_amount = show_int amount, pr_unit = unit'\<rparr>)))"

text \<open>Two bytes encode the middle dot and three the dash of the messages.\<close>

definition dash :: string where
  "dash = [CHR 0xE2, CHR 0x80, CHR 0x94]"

definition middle_dot :: string where
  "middle_dot = [CHR 0xC2, CHR 0xB7]"

text \<open>The chain is reached over RPC when its URL is given, over gRPC otherwise.\<close>

definition dial_chain ::
    "('c, 'any) reg_env \<Rightarrow> string \<Rightarrow> string \<Rightarrow> string + ('c, 'any) chain_client" where
  "dial_chain env grpc_addr rpc_url =
     (if rpc_url \<noteq> [] then dial_rpc (re_dial_rpc env) rpc_url else dial (re_dial_grpc env) grpc_addr)"

section \<open>The card\<close>

definition card_path :: string where
  "card_path = ''/.well-known/agent-card.json''"

definition fetch_card :: "('c, 'any) reg_env \<Rightarrow> string \<Rightarrow> 'c \<Rightarrow> 'c \<times> (reg_error + string)" where
  "fetch_card env base c =
     (case re_fetch env (base @ card_path) c of
        (c, Bad_Card_Request e) \<Rightarrow> (c, Inl (Reg_Card (''build card request: '' @ e)))
      | (c, Fetch_Failed e) \<Rightarrow> (c, Inl (Reg_Card (''fetch '' @ base @ card_path @ '': '' @ e @ '' '' @ dash @ '' the agent has to be running and reachable'')))
      | (c, Fetched status body) \<Rightarrow>
          if status \<noteq> 200 then (c, Inl (Reg_Card (''fetch '' @ base @ card_path @ '': HTTP '' @ show_nat status)))
          else (c, map_err (\<lambda>e. Reg_Card (''read card: '' @ e)) body))"

text \<open>The URLs of the card's interfaces.\<close>

definition dec_card :: "string list decoder" where
  "dec_card = dec_object (\<lambda>cur ms. dec_field
     (dec_array [] (dec_object (\<lambda>cur ms. dec_field dec_string ''url'' ms cur))) ''supportedInterfaces'' ms cur)"

definition check_card_url :: "string \<Rightarrow> string \<Rightarrow> reg_error option" where
  "check_card_url doc base =
     (case (case json_parse doc of None \<Rightarrow> None | Some v \<Rightarrow> dec_card [] v) of
        None \<Rightarrow> Some Reg_Card_Unreadable
      | Some [] \<Rightarrow> None
      | Some (got # _) \<Rightarrow> if has_prefix got (base @ ''/'') then None else Some (Reg_Card_Elsewhere base got))"

section \<open>What to do\<close>

definition resolve_bond ::
    "('c, 'any) reg_env \<Rightarrow> ('c, 'any) chain_client \<Rightarrow> string \<Rightarrow> 'c \<Rightarrow> 'c \<times> (reg_error + coin)" where
  "resolve_bond env client spec c =
     (if spec \<noteq> [] then (c, map_err (\<lambda>e. Reg_Bond (''-bond '' @ go_quote spec @ '': '' @ e)) (re_parse_coin env spec))
      else (case query_params (re_codecs env) client c of
          (c, Inl e) \<Rightarrow> (c, Inl (Reg_Bond (e @ '' '' @ dash @ '' pass -bond to skip the lookup'')))
        | (c, Inr p) \<Rightarrow> (c, Inr (ap_min_bond p))))"

datatype decision =
    Current chain_agent
  | Register msg_register coin
  | Update msg_update "drift list"

definition decide ::
    "('c, 'any) reg_env \<Rightarrow> ('c, 'any) chain_client \<Rightarrow> reg_opts \<Rightarrow> string \<Rightarrow> desired \<Rightarrow> chain_agent option \<Rightarrow>
     'c \<Rightarrow> 'c \<times> (reg_error + decision)" where
  "decide env client o' owner want found c =
     (case found of
        None \<Rightarrow>
          if de_pricing want = None then (c, Inl Reg_Pricing_Required)
          else (case resolve_bond env client (ro_bond o') c of
              (c, Inl e) \<Rightarrow> (c, Inl e)
            | (c, Inr bond) \<Rightarrow>
                (c, Inr (Register (build_register (re_address_text env) (re_agent_id env) owner want bond) bond)))
      | Some existing \<Rightarrow>
          if drifts existing want = [] then (c, Inr (Current existing))
          else (c, Inr (Update (build_update existing want) (drifts existing want))))"

fun action_of :: "decision \<Rightarrow> string" where
  "action_of (Register m bond) = ''register''"
| "action_of (Update m ds) = ''update''"
| "action_of (Current a) = []"

fun message_of :: "decision \<Rightarrow> chain_msg option" where
  "message_of (Register m bond) = Some (Msg_Register m)"
| "message_of (Update m ds) = Some (Msg_Update m)"
| "message_of (Current a) = None"

section \<open>What is printed\<close>

text \<open>\<open>%v\<close> prints a list in brackets.\<close>

definition show_list_v :: "string list \<Rightarrow> string" where
  "show_list_v xs = ''['' @ join '' '' xs @ '']''"

fun drift_text :: "drift \<Rightarrow> string" where
  "drift_text (Endpoint_Moved a b) = ''endpoint moved: registered '' @ go_quote a @ '', serving '' @ go_quote b"
| "drift_text (Card_Changed a b) =
     ''card changed: registered sha256 '' @ hex_encode a @ '', serving '' @ hex_encode b"
| "drift_text (Capabilities_Changed a b) =
     ''capabilities changed: registered '' @ show_list_v a @ '', configured '' @ show_list_v b"
| "drift_text Metadata_Changed = ''metadata changed''"
| "drift_text Pricing_Changed = ''pricing changed''"

fun decision_lines :: "('c, 'any) reg_env \<Rightarrow> string \<Rightarrow> decision \<Rightarrow> string list" where
  "decision_lines env agent_id (Register m bond) =
     [''not registered '' @ dash @ '' registering '' @ agent_id, ''  bond     '' @ re_coin_text env bond]"
| "decision_lines env agent_id (Update m ds) =
     (''registered but stale '' @ dash @ '' updating '' @ agent_id)
     # map (\<lambda>d. ''  '' @ middle_dot @ '' '' @ drift_text d) ds"
| "decision_lines env agent_id (Current a) =
     [''already registered and current '' @ dash @ '' nothing to do'',
      ''  agent    '' @ ca_agent_id a, ''  status   '' @ re_status_text env (ca_status a),
      ''  bond     '' @ re_coin_text env (ca_bond a), ''  endpoint '' @ ca_endpoint a]"

definition summary_lines :: "string \<Rightarrow> desired \<Rightarrow> string list" where
  "summary_lines addr want =
     [''  owner    '' @ addr @ '' (also the operator)'', ''  endpoint '' @ de_endpoint want,
      ''  card     sha256 '' @ hex_encode (de_capability_hash want),
      ''  tags     '' @ join '','' (de_capabilities want)]
     @ (case de_pricing want of None \<Rightarrow> [] | Some p \<Rightarrow> [''  pricing  '' @ pr_amount p @ '' / '' @ pr_unit p])"

text \<open>What an account the chain does not know still needs; the bond of an update is not asked for.\<close>

definition funding_hint ::
    "('c, 'any) reg_env \<Rightarrow> ('c, 'any) chain_client \<Rightarrow> reg_opts \<Rightarrow> decision \<Rightarrow> 'c \<Rightarrow> 'c \<times> string" where
  "funding_hint env client o' d c =
     (let gas = \<lparr>cn_denom = ro_fee_denom o',
                 cn_amount = (case tc_parse_int (re_tx env) (ro_fee_amount o') of None \<Rightarrow> 0 | Some a \<Rightarrow> a)\<rparr>
      in case d of
           Register m bond \<Rightarrow>
             (case query_params (re_codecs env) client c of
                (c, r) \<Rightarrow>
                  (let (parts, total) =
                     (case r of
                        Inl _ \<Rightarrow> ([], gas)
                      | Inr p \<Rightarrow>
                          ([''registration fee '' @ re_coin_text env (ap_registration_fee p)],
                           if cn_denom (ap_registration_fee p) = cn_denom gas
                           then re_coin_add env gas (ap_registration_fee p) else gas));
                       parts = parts @ [''bond '' @ re_coin_text env bond];
                       total = (if cn_denom bond = cn_denom total then re_coin_add env total bond else total);
                       parts = parts @ [''gas '' @ re_coin_text env gas]
                   in (c, ''  it needs '' @ join '' + '' parts @ [CHR 0x0A] @ ''  total at least ''
                          @ re_coin_text env total)))
         | _ \<Rightarrow> (c, ''  it needs gas: '' @ re_coin_text env gas))"

section \<open>The command\<close>

record 'c reg_result =
  rr_world :: 'c
  rr_lines :: "string list"
  rr_sent :: "string list"
  rr_error :: "reg_error option"

definition stop_with :: "'c \<Rightarrow> string list \<Rightarrow> reg_error \<Rightarrow> 'c reg_result" where
  "stop_with c out e = \<lparr>rr_world = c, rr_lines = out, rr_sent = [], rr_error = Some e\<rparr>"

definition finish_with :: "'c \<Rightarrow> string list \<Rightarrow> 'c reg_result" where
  "finish_with c out = \<lparr>rr_world = c, rr_lines = out, rr_sent = [], rr_error = None\<rparr>"

definition fee_of :: "reg_opts \<Rightarrow> fee_spec" where
  "fee_of o' = \<lparr>fs_denom = ro_fee_denom o', fs_amount = ro_fee_amount o', fs_gas_limit = ro_gas_limit o'\<rparr>"

text \<open>From the message on: validation, dry run, account, signature and broadcast.\<close>

definition submit ::
    "('c, 'any) reg_env \<Rightarrow> ('c, 'any) chain_client \<Rightarrow> reg_opts \<Rightarrow> string \<Rightarrow> string \<Rightarrow> decision \<Rightarrow> chain_msg \<Rightarrow>
     string list \<Rightarrow> 'c \<Rightarrow> 'c reg_result" where
  "submit env client o' priv addr d msg out c =
     (case re_validate env msg of
        Some e \<Rightarrow> stop_with c out (Reg_Invalid_Message (action_of d) e)
      | None \<Rightarrow>
          if ro_dry_run o' then finish_with c (out @ [''dry-run '' @ dash @ '' not broadcasting''])
          else (case query_account (re_codecs env) client addr c of
              (c, Inl e) \<Rightarrow>
                (case funding_hint env client o' d c of (c, hint) \<Rightarrow> stop_with c out (Reg_Account e hint))
            | (c, Inr acct) \<Rightarrow>
                (case sign_tx (re_tx env) priv (ro_chain_id o') acct [msg] (fee_of o') of
                   Inl e \<Rightarrow> stop_with c out (Reg_Sign e)
                 | Inr tx \<Rightarrow>
                     (case broadcast_sync client tx c of
                        (c, Inl e) \<Rightarrow>
                          \<lparr>rr_world = c, rr_lines = out, rr_sent = [tx], rr_error = Some (Reg_Broadcast (action_of d) e)\<rparr>
                      | (c, Inr r) \<Rightarrow>
                          \<lparr>rr_world = c,
                           rr_lines = out @ [action_of d @ '' submitted '' @ dash @ '' tx '' @ br_tx_hash r],
                           rr_sent = [tx], rr_error = None\<rparr>))))"

definition agent_register :: "('c, 'any) reg_env \<Rightarrow> reg_opts \<Rightarrow> 'c \<Rightarrow> 'c reg_result" where
  "agent_register env o' c =
     (case check_opts o' of
        Inl e \<Rightarrow> stop_with c [] e
      | Inr (base, card_base, tags) \<Rightarrow>
     (case load_owner env (ro_key_file o') of
        Inl e \<Rightarrow> stop_with c [] e
      | Inr (priv, addr, owner) \<Rightarrow>
     (case fetch_card env card_base c of
        (c, Inl e) \<Rightarrow> stop_with c [] e
      | (c, Inr doc) \<Rightarrow>
     (case check_card_url doc base of
        Some e \<Rightarrow> stop_with c [] e
      | None \<Rightarrow>
     (case parse_pricing env o' of
        Inl e \<Rightarrow> stop_with c [] e
      | Inr pricing \<Rightarrow>
     (let want = \<lparr>de_endpoint = base, de_capability_hash = re_sha256 env doc, de_capabilities = tags,
                  de_metadata = ro_metadata o', de_pricing = pricing\<rparr>
      in
     (case dial_chain env (ro_grpc_addr o') (ro_rpc_url o') of
        Inl e \<Rightarrow> stop_with c [] (Reg_Dial e)
      | Inr client \<Rightarrow>
     (case agent_by_id (re_codecs env) client (re_agent_id env owner) c of
        (c, Inl e) \<Rightarrow> stop_with c [] (Reg_Lookup e)
      | (c, Inr found) \<Rightarrow>
     (case decide env client o' owner want found c of
        (c, Inl e) \<Rightarrow> stop_with c [] e
      | (c, Inr d) \<Rightarrow>
     (case message_of d of
        None \<Rightarrow> finish_with c (decision_lines env (re_agent_id env owner) d)
      | Some msg \<Rightarrow>
          submit env client o' priv addr d msg
            (decision_lines env (re_agent_id env owner) d @ summary_lines addr want) c))))))))))"

section \<open>What a run has passed\<close>

text \<open>The state a run is in when it has a message to submit, or none.\<close>

definition ready ::
    "('c, 'any) reg_env \<Rightarrow> reg_opts \<Rightarrow> 'c \<Rightarrow> string \<Rightarrow> string \<Rightarrow> string \<Rightarrow> string \<Rightarrow> desired \<Rightarrow>
     ('c, 'any) chain_client \<Rightarrow> chain_agent option \<Rightarrow> decision \<Rightarrow> 'c \<Rightarrow> bool" where
  "ready env o' c priv addr owner doc want client found d c3 \<longleftrightarrow>
     (\<exists>card_base c1 c2. check_opts o' = Inr (de_endpoint want, card_base, de_capabilities want)
        \<and> load_owner env (ro_key_file o') = Inr (priv, addr, owner)
        \<and> fetch_card env card_base c = (c1, Inr doc)
        \<and> check_card_url doc (de_endpoint want) = None
        \<and> parse_pricing env o' = Inr (de_pricing want)
        \<and> de_capability_hash want = re_sha256 env doc \<and> de_metadata want = ro_metadata o'
        \<and> dial_chain env (ro_grpc_addr o') (ro_rpc_url o') = Inr client
        \<and> agent_by_id (re_codecs env) client (re_agent_id env owner) c1 = (c2, Inr found)
        \<and> decide env client o' owner want found c2 = (c3, Inr d))"

lemma agent_register_cases:
  obtains (stopped) c' e where "agent_register env o' c = stop_with c' [] e"
  | (current) priv addr owner doc want client found a c3 where
      "ready env o' c priv addr owner doc want client found (Current a) c3"
      "agent_register env o' c = finish_with c3 (decision_lines env (re_agent_id env owner) (Current a))"
  | (submitted) priv addr owner doc want client found d msg c3 where
      "ready env o' c priv addr owner doc want client found d c3" "message_of d = Some msg"
      "agent_register env o' c = submit env client o' priv addr d msg
         (decision_lines env (re_agent_id env owner) d @ summary_lines addr want) c3"
proof (cases "check_opts o'")
  case (Inl e)
  with stopped show ?thesis by (simp add: agent_register_def)
next
  case opts: (Inr x)
  obtain base card_base tags where x: "x = (base, card_base, tags)" by (cases x)
  show ?thesis
  proof (cases "load_owner env (ro_key_file o')")
    case (Inl e)
    with opts x stopped show ?thesis by (simp add: agent_register_def)
  next
    case owner: (Inr y)
    obtain priv addr own where y: "y = (priv, addr, own)" by (cases y)
    obtain c1 r where fetch: "fetch_card env card_base c = (c1, r)" by (cases "fetch_card env card_base c")
    show ?thesis
    proof (cases r)
      case (Inl e)
      with opts x owner y fetch stopped show ?thesis by (simp add: agent_register_def)
    next
      case doc: (Inr doc)
      note so_far = opts x owner y fetch doc
      show ?thesis
      proof (cases "check_card_url doc base")
        case (Some e)
        with so_far stopped show ?thesis by (simp add: agent_register_def)
      next
        case url: None
        show ?thesis
        proof (cases "parse_pricing env o'")
          case (Inl e)
          with so_far url stopped show ?thesis by (simp add: agent_register_def)
        next
          case pricing: (Inr p)
          define want where "want = \<lparr>de_endpoint = base, de_capability_hash = re_sha256 env doc,
            de_capabilities = tags, de_metadata = ro_metadata o', de_pricing = p\<rparr>"
          show ?thesis
          proof (cases "dial_chain env (ro_grpc_addr o') (ro_rpc_url o')")
            case (Inl e)
            with so_far url pricing stopped show ?thesis by (simp add: agent_register_def)
          next
            case client: (Inr client)
            obtain c2 l where lookup: "agent_by_id (re_codecs env) client (re_agent_id env own) c1 = (c2, l)"
              by (cases "agent_by_id (re_codecs env) client (re_agent_id env own) c1")
            show ?thesis
            proof (cases l)
              case (Inl e)
              with so_far url pricing client lookup stopped show ?thesis by (simp add: agent_register_def)
            next
              case found: (Inr found)
              obtain c3 dd where dec: "decide env client o' own want found c2 = (c3, dd)"
                by (cases "decide env client o' own want found c2")
              show ?thesis
              proof (cases dd)
                case (Inl e)
                with so_far url pricing client lookup found dec stopped show ?thesis
                  by (simp add: agent_register_def want_def)
              next
                case d: (Inr d)
                have rdy: "ready env o' c priv addr own doc want client found d c3"
                  unfolding ready_def
                  by (intro exI [of _ card_base] exI [of _ c1] exI [of _ c2])
                    (use so_far url pricing client lookup found dec d in \<open>simp add: want_def\<close>)
                show ?thesis
                proof (cases "message_of d")
                  case None
                  then obtain a where a: "d = Current a" by (cases d) auto
                  show ?thesis
                    by (rule current [OF rdy [unfolded a]])
                      (use so_far url pricing client lookup found dec d a in \<open>simp add: agent_register_def want_def\<close>)
                next
                  case (Some msg)
                  show ?thesis
                    by (rule submitted [OF rdy Some])
                      (use so_far url pricing client lookup found dec d Some in
                        \<open>simp add: agent_register_def want_def\<close>)
                qed
              qed
            qed
          qed
        qed
      qed
    qed
  qed
qed

section \<open>The registry\<close>

text \<open>
  The registry's side of the three messages, as a map of its records by id: what the comments of
  \<open>register.go\<close> and \<open>agent-deregister\<close> say of it. A registration needs a free id, the other two
  messages an existing one. What a deregistration makes of a record (its status, the unbonding of
  its bond) is the chain's: \<open>leave\<close>.
\<close>

definition registry_apply ::
    "nat \<Rightarrow> (chain_agent \<Rightarrow> chain_agent) \<Rightarrow> chain_msg \<Rightarrow> (string \<rightharpoonup> chain_agent) \<Rightarrow> (string \<rightharpoonup> chain_agent)" where
  "registry_apply active leave msg reg =
     (case msg of
        Msg_Register m \<Rightarrow>
          (if reg (mr_agent_id m) = None then reg(mr_agent_id m \<mapsto> apply_register m active) else reg)
      | Msg_Update m \<Rightarrow>
          (case reg (mu_agent_id m) of
             None \<Rightarrow> reg
           | Some a \<Rightarrow> reg(mu_agent_id m \<mapsto> apply_update m a))
      | Msg_Deregister owner agent_id \<Rightarrow>
          (case reg agent_id of
             None \<Rightarrow> reg
           | Some a \<Rightarrow> reg(agent_id \<mapsto> leave a)))"

text \<open>
  The chain answers a lookup from its registry, files every record under its own id, and is not
  changed by fetching the card.
\<close>

definition truthful ::
    "('c, 'any) reg_env \<Rightarrow> ('c \<Rightarrow> string \<rightharpoonup> chain_agent) \<Rightarrow> bool" where
  "truthful env registry \<longleftrightarrow>
     (\<forall>url c. registry (fst (re_fetch env url c)) = registry c)
     \<and> (\<forall>grpc rpc client agent_id c c' found. dial_chain env grpc rpc = Inr client
          \<longrightarrow> agent_by_id (re_codecs env) client agent_id c = (c', Inr found) \<longrightarrow> found = registry c agent_id)
     \<and> (\<forall>c agent_id a. registry c agent_id = Some a \<longrightarrow> ca_agent_id a = agent_id)"

text \<open>What a signed transaction carries can be read off it.\<close>

definition reads_back :: "(chain_msg, 'any) tx_codec \<Rightarrow> (string \<Rightarrow> chain_msg list) \<Rightarrow> bool" where
  "reads_back tc msgs_of \<longleftrightarrow>
     (\<forall>priv chain acct msg fee tx. sign_tx tc priv chain acct [msg] fee = Inr tx \<longrightarrow> msgs_of tx = [msg])"

lemma fetch_card_registry:
  assumes "truthful env registry"
  shows "registry (fst (fetch_card env base c)) = registry c"
proof -
  have "fst (fetch_card env base c) = fst (re_fetch env (base @ card_path) c)"
    by (auto simp: fetch_card_def split: prod.splits fetched.splits)
  with assms show ?thesis by (simp add: truthful_def)
qed

lemma decide_found:
  assumes "decide env client o' owner want found c = (c', Inr d)"
  shows "(found = None \<and> de_pricing want \<noteq> None
          \<and> (\<exists>bond. resolve_bond env client (ro_bond o') c = (c', Inr bond)
            \<and> d = Register (build_register (re_address_text env) (re_agent_id env) owner want bond) bond))
    \<or> (\<exists>a. found = Some a \<and> c' = c \<and> drifts a want = [] \<and> d = Current a)
    \<or> (\<exists>a. found = Some a \<and> c' = c \<and> drifts a want \<noteq> [] \<and> d = Update (build_update a want) (drifts a want))"
  using assms by (auto simp: decide_def split: option.splits if_splits prod.splits sum.splits)

text \<open>Whatever the decision asks for, the registry then holds a settled record.\<close>

lemma decision_settles:
  assumes "decide env client o' owner want (reg (re_agent_id env owner)) c = (c', Inr d)"
    and "message_of d = Some msg"
    and "\<And>agent_id a. reg agent_id = Some a \<Longrightarrow> ca_agent_id a = agent_id"
  shows "\<exists>a. registry_apply active leave msg reg (re_agent_id env owner) = Some a \<and> settled a want"
  using decide_found [OF assms(1)] assms(2,3)
  by (auto simp: registry_apply_def build_register_def [THEN arg_cong [where f = mr_agent_id]]
      settled_register settled_update build_update_def [THEN arg_cong [where f = mu_agent_id]] Let_def)


text \<open>A transaction is only sent at the very end of a run that stopped nowhere before.\<close>

lemma submit_sent:
  assumes "tx \<in> set (rr_sent (submit env client o' priv addr d msg out c))"
  obtains acct c1 where "re_validate env msg = None" and "\<not> ro_dry_run o'"
    and "query_account (re_codecs env) client addr c = (c1, Inr acct)"
    and "sign_tx (re_tx env) priv (ro_chain_id o') acct [msg] (fee_of o') = Inr tx"
    and "rr_sent (submit env client o' priv addr d msg out c) = [tx]"
  using assms
  by (auto simp: submit_def stop_with_def finish_with_def split: option.splits if_splits prod.splits sum.splits)

lemma agent_register_sent:
  assumes "tx \<in> set (rr_sent (agent_register env o' c))"
  obtains priv addr owner doc want client found d msg acct c1 c2
    where "ready env o' c priv addr owner doc want client found d c1" and "message_of d = Some msg"
    and "re_validate env msg = None" and "\<not> ro_dry_run o'"
    and "query_account (re_codecs env) client addr c1 = (c2, Inr acct)"
    and "sign_tx (re_tx env) priv (ro_chain_id o') acct [msg] (fee_of o') = Inr tx"
    and "rr_sent (agent_register env o' c) = [tx]"
proof (cases rule: agent_register_cases [of env o' c])
  case (submitted priv addr owner doc want client found d msg c3)
  from assms show ?thesis
    unfolding submitted(3) by (rule submit_sent) (rule that [OF submitted(1,2)], use submitted(3) in simp_all)
qed (use assms in \<open>simp_all add: stop_with_def finish_with_def\<close>)

lemma load_owner_Inr:
  "load_owner env key_file = Inr (priv, addr, owner) \<longleftrightarrow>
     load_key (re_derive_address env) (re_key_variable env) (re_read_file env) key_file = Inr (Some (priv, addr))
     \<and> re_parse_address env addr = Inr owner"
  by (auto simp: load_owner_def split: sum.splits option.splits)

text \<open>A run that finds a settled record sends nothing, and only a failing lookup makes it an error.\<close>

lemma settled_run:
  assumes "check_opts o' = Inr (de_endpoint want, card_base, de_capabilities want)"
    and "load_owner env (ro_key_file o') = Inr (priv, addr, owner)"
    and "fetch_card env card_base c = (c1, Inr doc)"
    and "check_card_url doc (de_endpoint want) = None"
    and "parse_pricing env o' = Inr (de_pricing want)"
    and "de_capability_hash want = re_sha256 env doc" and "de_metadata want = ro_metadata o'"
    and "dial_chain env (ro_grpc_addr o') (ro_rpc_url o') = Inr client"
    and "\<And>c2 found. agent_by_id (re_codecs env) client (re_agent_id env owner) c1 = (c2, Inr found)
          \<Longrightarrow> found = Some a" and "settled a want"
  shows "rr_sent (agent_register env o' c) = []
    \<and> (rr_error (agent_register env o' c) = None \<or> (\<exists>e. rr_error (agent_register env o' c) = Some (Reg_Lookup e)))"
proof -
  have want: "\<lparr>de_endpoint = de_endpoint want, de_capability_hash = re_sha256 env doc,
      de_capabilities = de_capabilities want, de_metadata = ro_metadata o', de_pricing = de_pricing want\<rparr> = want"
    using assms(6,7) by (cases want) simp
  obtain c2 r where l: "agent_by_id (re_codecs env) client (re_agent_id env owner) c1 = (c2, r)"
    by (cases "agent_by_id (re_codecs env) client (re_agent_id env owner) c1")
  show ?thesis
  proof (cases r)
    case (Inl e)
    with assms l show ?thesis by (simp add: agent_register_def stop_with_def)
  next
    case (Inr found)
    with assms(9) l have "found = Some a" by simp
    with assms(1-5,8,10) l Inr want show ?thesis
      by (simp add: agent_register_def Let_def decide_def drifts_Nil finish_with_def)
  qed
qed


text \<open>Where the card is fetched from, and the state the run is to reach.\<close>

definition card_source :: "reg_opts \<Rightarrow> string" where
  "card_source o' = (if base_url_of (ro_card_url o') = [] then base_url_of (ro_url o') else base_url_of (ro_card_url o'))"

definition wanted :: "('c, 'any) reg_env \<Rightarrow> reg_opts \<Rightarrow> string \<Rightarrow> pricing option \<Rightarrow> desired" where
  "wanted env o' doc pricing =
     \<lparr>de_endpoint = base_url_of (ro_url o'), de_capability_hash = re_sha256 env doc,
      de_capabilities = split_tags (ro_capabilities o'), de_metadata = ro_metadata o', de_pricing = pricing\<rparr>"

lemma check_opts_Inr:
  "check_opts o' = Inr (base, card_base, tags) \<Longrightarrow>
     base = base_url_of (ro_url o') \<and> card_base = card_source o' \<and> tags = split_tags (ro_capabilities o') \<and> tags \<noteq> []"
  by (auto simp: check_opts_def card_source_def Let_def split: if_splits)

lemma ready_unfold:
  assumes "ready env o' c priv addr owner doc want client found d c3"
  obtains c1 c2 where "check_opts o' = Inr (de_endpoint want, card_source o', de_capabilities want)"
    and "want = wanted env o' doc (de_pricing want)" and "parse_pricing env o' = Inr (de_pricing want)"
    and "load_owner env (ro_key_file o') = Inr (priv, addr, owner)"
    and "fetch_card env (card_source o') c = (c1, Inr doc)"
    and "check_card_url doc (base_url_of (ro_url o')) = None" and "split_tags (ro_capabilities o') \<noteq> []"
    and "dial_chain env (ro_grpc_addr o') (ro_rpc_url o') = Inr client"
    and "agent_by_id (re_codecs env) client (re_agent_id env owner) c1 = (c2, Inr found)"
    and "decide env client o' owner want found c2 = (c3, Inr d)"
  using assms unfolding ready_def
  by (elim exE conjE) (use check_opts_Inr [of o' "de_endpoint want" _ "de_capabilities want"] in
    \<open>cases want, auto simp: wanted_def\<close>)

text \<open>A run that ends well without sending anything, and is no dry run, found the record settled.\<close>

lemma submit_quiet:
  assumes "rr_error (submit env client o' priv addr d msg out c) = None"
    and "rr_sent (submit env client o' priv addr d msg out c) = []"
  shows "ro_dry_run o'"
  using assms by (auto simp: submit_def stop_with_def split: option.splits if_splits prod.splits sum.splits)

lemma agent_register_quiet:
  assumes "rr_error (agent_register env o' c) = None" and "rr_sent (agent_register env o' c) = []"
    and "\<not> ro_dry_run o'"
  shows "\<exists>priv addr owner doc pricing client a c1 c2.
      load_owner env (ro_key_file o') = Inr (priv, addr, owner)
    \<and> fetch_card env (card_source o') c = (c1, Inr doc) \<and> parse_pricing env o' = Inr pricing
    \<and> dial_chain env (ro_grpc_addr o') (ro_rpc_url o') = Inr client
    \<and> agent_by_id (re_codecs env) client (re_agent_id env owner) c1 = (c2, Inr (Some a))
    \<and> settled a (wanted env o' doc pricing)"
proof (cases rule: agent_register_cases [of env o' c])
  case (stopped c' e)
  with assms(1) show ?thesis by (simp add: stop_with_def)
next
  case (current priv addr owner doc want client found a c3)
  from current(1) show ?thesis
  proof (rule ready_unfold)
    fix c1 c2
    assume want: "want = wanted env o' doc (de_pricing want)" and price: "parse_pricing env o' = Inr (de_pricing want)"
      and fetch: "fetch_card env (card_source o') c = (c1, Inr doc)"
      and lookup: "agent_by_id (re_codecs env) client (re_agent_id env owner) c1 = (c2, Inr found)"
      and owner: "load_owner env (ro_key_file o') = Inr (priv, addr, owner)"
      and dial: "dial_chain env (ro_grpc_addr o') (ro_rpc_url o') = Inr client"
      and d: "decide env client o' owner want found c2 = (c3, Inr (Current a))"
    have "found = Some a" "settled a want" using decide_found [OF d] by (auto simp: drifts_Nil)
    with want price fetch lookup owner dial show ?thesis
      by (intro exI [of _ priv] exI [of _ addr] exI [of _ owner] exI [of _ doc] exI [of _ "de_pricing want"]
          exI [of _ client] exI [of _ a] exI [of _ c1] exI [of _ c2]) simp
  qed
next
  case (submitted priv addr owner doc want client found d msg c3)
  from assms(1,2) have "ro_dry_run o'" unfolding submitted(3) by (rule submit_quiet)
  with assms(3) show ?thesis by simp
qed

text \<open>What a run that sends has gone through, step by step.\<close>

lemma resolve_bond_Inr:
  "resolve_bond env client spec c = (c', Inr bond) \<longleftrightarrow>
     (if spec \<noteq> [] then c' = c \<and> re_parse_coin env spec = Inr bond
      else \<exists>p. query_params (re_codecs env) client c = (c', Inr p) \<and> bond = ap_min_bond p)"
  by (auto simp: resolve_bond_def split: prod.splits sum.splits)

lemma agent_register_guarded:
  assumes "tx \<in> set (rr_sent (agent_register env o' c))"
  shows "rr_sent (agent_register env o' c) = [tx] \<and> \<not> ro_dry_run o' \<and> split_tags (ro_capabilities o') \<noteq> []
    \<and> (\<exists>priv addr owner doc pricing client found msg acct c1 c2 c3 c4.
        load_key (re_derive_address env) (re_key_variable env) (re_read_file env) (ro_key_file o') = Inr (Some (priv, addr))
      \<and> re_parse_address env addr = Inr owner
      \<and> fetch_card env (card_source o') c = (c1, Inr doc)
      \<and> check_card_url doc (base_url_of (ro_url o')) = None \<and> parse_pricing env o' = Inr pricing
      \<and> dial_chain env (ro_grpc_addr o') (ro_rpc_url o') = Inr client
      \<and> agent_by_id (re_codecs env) client (re_agent_id env owner) c1 = (c2, Inr found)
      \<and> (case found of
           None \<Rightarrow> pricing \<noteq> None \<and> (\<exists>bond.
               (if ro_bond o' \<noteq> [] then c3 = c2 \<and> re_parse_coin env (ro_bond o') = Inr bond
                else \<exists>p. query_params (re_codecs env) client c2 = (c3, Inr p) \<and> bond = ap_min_bond p)
               \<and> msg = Msg_Register (build_register (re_address_text env) (re_agent_id env) owner
                   (wanted env o' doc pricing) bond))
         | Some a \<Rightarrow> c3 = c2 \<and> \<not> settled a (wanted env o' doc pricing)
             \<and> msg = Msg_Update (build_update a (wanted env o' doc pricing)))
      \<and> re_validate env msg = None
      \<and> query_account (re_codecs env) client addr c3 = (c4, Inr acct)
      \<and> sign_tx (re_tx env) priv (ro_chain_id o') acct [msg] (fee_of o') = Inr tx)"
proof -
  obtain priv addr owner doc want client found d msg acct c3 c4
    where rdy: "ready env o' c priv addr owner doc want client found d c3" and msg: "message_of d = Some msg"
      and valid: "re_validate env msg = None" "\<not> ro_dry_run o'"
      and account: "query_account (re_codecs env) client addr c3 = (c4, Inr acct)"
      and signed: "sign_tx (re_tx env) priv (ro_chain_id o') acct [msg] (fee_of o') = Inr tx"
      and sent: "rr_sent (agent_register env o' c) = [tx]"
    by (rule agent_register_sent [OF assms])
  from rdy show ?thesis
  proof (rule ready_unfold)
    fix c1 c2
    assume want: "want = wanted env o' doc (de_pricing want)" and price: "parse_pricing env o' = Inr (de_pricing want)"
      and owner: "load_owner env (ro_key_file o') = Inr (priv, addr, owner)"
      and fetch: "fetch_card env (card_source o') c = (c1, Inr doc)"
      and url: "check_card_url doc (base_url_of (ro_url o')) = None" and tags: "split_tags (ro_capabilities o') \<noteq> []"
      and dial: "dial_chain env (ro_grpc_addr o') (ro_rpc_url o') = Inr client"
      and found: "agent_by_id (re_codecs env) client (re_agent_id env owner) c1 = (c2, Inr found)"
      and d: "decide env client o' owner want found c2 = (c3, Inr d)"
    obtain p where p: "de_pricing want = p" by simp
    then have w: "want = wanted env o' doc p" using want by simp
    have kind: "case found of
           None \<Rightarrow> p \<noteq> None \<and> (\<exists>bond. resolve_bond env client (ro_bond o') c2 = (c3, Inr bond)
               \<and> msg = Msg_Register (build_register (re_address_text env) (re_agent_id env) owner want bond))
         | Some a \<Rightarrow> c3 = c2 \<and> \<not> settled a want \<and> msg = Msg_Update (build_update a want)"
      using decide_found [OF d] msg p by (auto simp: drifts_Nil)
    have key: "load_key (re_derive_address env) (re_key_variable env) (re_read_file env) (ro_key_file o') =
        Inr (Some (priv, addr))" "re_parse_address env addr = Inr owner"
      using owner by (simp_all only: load_owner_Inr)
    show ?thesis
      by (intro conjI [OF sent] conjI [OF valid(2)] conjI [OF tags] exI [of _ priv] exI [of _ addr] exI [of _ owner] exI [of _ doc] exI [of _ p]
          exI [of _ client] exI [of _ found] exI [of _ msg] exI [of _ acct] exI [of _ c1] exI [of _ c2]
          exI [of _ c3] exI [of _ c4])
        (intro conjI; fact key fetch url price [unfolded p] dial found valid(1) account signed
          kind [unfolded resolve_bond_Inr w])
  qed
qed

section \<open>Properties\<close>

text \<open>C11: After the transaction of a run is applied, the registry holds a record of the agent that agrees
  with what is served: the base URL, the digest of the fetched card, the tags, and metadata and price
  where given. The same run again then sends nothing, and ends without an error unless the lookup
  fails.\<close>

theorem registration_settles:
  assumes "tx \<in> set (rr_sent (agent_register env o' c))" and "truthful env registry"
    and "reads_back (re_tx env) msgs_of"
  shows "\<exists>agent_id doc pricing msg a. msgs_of tx = [msg]
    \<and> snd (fetch_card env (card_source o') c) = Inr doc \<and> parse_pricing env o' = Inr pricing
    \<and> registry_apply active leave msg (registry c) agent_id = Some a
    \<and> settled a (wanted env o' doc pricing)
    \<and> (\<forall>c'. registry c' = registry_apply active leave msg (registry c)
        \<longrightarrow> snd (fetch_card env (card_source o') c') = Inr doc
        \<longrightarrow> rr_sent (agent_register env o' c') = []
          \<and> (rr_error (agent_register env o' c') = None
              \<or> (\<exists>e. rr_error (agent_register env o' c') = Some (Reg_Lookup e))))"
proof -
  obtain priv addr owner doc want client found d msg acct c3 c4
    where rdy: "ready env o' c priv addr owner doc want client found d c3" and msg: "message_of d = Some msg"
      and signed: "sign_tx (re_tx env) priv (ro_chain_id o') acct [msg] (fee_of o') = Inr tx"
    by (rule agent_register_sent [OF assms(1)])
  from rdy show ?thesis
  proof (rule ready_unfold)
    fix c1 c2
    assume opts: "check_opts o' = Inr (de_endpoint want, card_source o', de_capabilities want)"
      and want: "want = wanted env o' doc (de_pricing want)" and price: "parse_pricing env o' = Inr (de_pricing want)"
      and owner: "load_owner env (ro_key_file o') = Inr (priv, addr, owner)"
      and fetch: "fetch_card env (card_source o') c = (c1, Inr doc)"
      and url: "check_card_url doc (base_url_of (ro_url o')) = None"
      and dial: "dial_chain env (ro_grpc_addr o') (ro_rpc_url o') = Inr client"
      and found: "agent_by_id (re_codecs env) client (re_agent_id env owner) c1 = (c2, Inr found)"
      and d: "decide env client o' owner want found c2 = (c3, Inr d)"
    have lookup: "f = registry c' (re_agent_id env owner)"
      if "agent_by_id (re_codecs env) client (re_agent_id env owner) c' = (c'', Inr f)" for c' c'' f
      using assms(2) dial that unfolding truthful_def by blast
    have "registry c1 = registry c" using fetch_card_registry [OF assms(2), of "card_source o'" c] fetch by simp
    with d lookup [OF found]
    have dec: "decide env client o' owner want (registry c (re_agent_id env owner)) c2 = (c3, Inr d)" by simp
    have ids: "ca_agent_id a = agent_id" if "registry c agent_id = Some a" for agent_id a
      using assms(2) that unfolding truthful_def by blast
    obtain a where a: "registry_apply active leave msg (registry c) (re_agent_id env owner) = Some a"
        and fits: "settled a want"
      using decision_settles [where reg = "registry c", OF dec msg ids] by blast
    have base: "de_endpoint want = base_url_of (ro_url o')" "de_capability_hash want = re_sha256 env doc"
        "de_metadata want = ro_metadata o'"
      by (subst want, simp add: wanted_def)+
    have again: "rr_sent (agent_register env o' c') = [] \<and> (rr_error (agent_register env o' c') = None
        \<or> (\<exists>e. rr_error (agent_register env o' c') = Some (Reg_Lookup e)))"
      if reg: "registry c' = registry_apply active leave msg (registry c)"
        and doc: "snd (fetch_card env (card_source o') c') = Inr doc" for c'
    proof -
      obtain c1' where fetch': "fetch_card env (card_source o') c' = (c1', Inr doc)"
        using doc by (cases "fetch_card env (card_source o') c'") simp
      then have "registry c1' = registry c'" using fetch_card_registry [OF assms(2), of "card_source o'" c'] by simp
      with lookup a reg have "f = Some a"
        if "agent_by_id (re_codecs env) client (re_agent_id env owner) c1' = (c'', Inr f)" for c'' f
        using that by metis
      from settled_run [OF opts owner fetch' _ price base(2,3) dial this fits] url base(1) show ?thesis by simp
    qed
    show ?thesis
      by (intro exI [of _ "re_agent_id env owner"] exI [of _ doc] exI [of _ "de_pricing want"] exI [of _ msg] exI [of _ a])
        (use assms(3) signed fetch price a fits want again in \<open>simp add: reads_back_def\<close>)
  qed
qed

text \<open>C12: A run only sends a transaction when it is not a dry run, and then exactly one: of one message that
  passed validation, signed with the owner's key and the account's numbers for the named chain. The
  owner's card was fetched and points below the endpoint, and there are tags. What is sent follows
  from what the chain that was dialed answers for the owner's agent: where it knows none, a price was
  named and the message registers it with the bond named or the chain's least one; where its record
  has drifted, the message updates it. A run that is no dry run, ends without an error and sends
  nothing was shown a settled record of the owner's agent by that chain.\<close>

theorem registration_guards:
  "(tx \<in> set (rr_sent (agent_register env o' c)) \<longrightarrow>
    rr_sent (agent_register env o' c) = [tx] \<and> \<not> ro_dry_run o' \<and> split_tags (ro_capabilities o') \<noteq> []
    \<and> (\<exists>priv addr owner doc pricing client found msg acct c1 c2 c3 c4.
        load_key (re_derive_address env) (re_key_variable env) (re_read_file env) (ro_key_file o') = Inr (Some (priv, addr))
      \<and> re_parse_address env addr = Inr owner
      \<and> fetch_card env (card_source o') c = (c1, Inr doc)
      \<and> check_card_url doc (base_url_of (ro_url o')) = None \<and> parse_pricing env o' = Inr pricing
      \<and> dial_chain env (ro_grpc_addr o') (ro_rpc_url o') = Inr client
      \<and> agent_by_id (re_codecs env) client (re_agent_id env owner) c1 = (c2, Inr found)
      \<and> (case found of
           None \<Rightarrow> pricing \<noteq> None \<and> (\<exists>bond.
               (if ro_bond o' \<noteq> [] then c3 = c2 \<and> re_parse_coin env (ro_bond o') = Inr bond
                else \<exists>p. query_params (re_codecs env) client c2 = (c3, Inr p) \<and> bond = ap_min_bond p)
               \<and> msg = Msg_Register (build_register (re_address_text env) (re_agent_id env) owner
                   (wanted env o' doc pricing) bond))
         | Some a \<Rightarrow> c3 = c2 \<and> \<not> settled a (wanted env o' doc pricing)
             \<and> msg = Msg_Update (build_update a (wanted env o' doc pricing)))
      \<and> re_validate env msg = None
      \<and> query_account (re_codecs env) client addr c3 = (c4, Inr acct)
      \<and> sign_tx (re_tx env) priv (ro_chain_id o') acct [msg] (fee_of o') = Inr tx))
   \<and> (rr_error (agent_register env o' c) = None \<and> rr_sent (agent_register env o' c) = [] \<and> \<not> ro_dry_run o' \<longrightarrow>
    (\<exists>priv addr owner doc pricing client a c1 c2.
        load_key (re_derive_address env) (re_key_variable env) (re_read_file env) (ro_key_file o') = Inr (Some (priv, addr))
      \<and> re_parse_address env addr = Inr owner
      \<and> fetch_card env (card_source o') c = (c1, Inr doc) \<and> parse_pricing env o' = Inr pricing
      \<and> dial_chain env (ro_grpc_addr o') (ro_rpc_url o') = Inr client
      \<and> agent_by_id (re_codecs env) client (re_agent_id env owner) c1 = (c2, Inr (Some a))
      \<and> settled a (wanted env o' doc pricing)))"
  (is "(?sent \<longrightarrow> ?guarded) \<and> (?ended \<longrightarrow> ?current)")
proof (rule conjI; rule impI)
  assume ?sent
  then show ?guarded by (rule agent_register_guarded)
next
  assume ?ended
  then show ?current
    by (elim conjE) (drule (2) agent_register_quiet, simp only: load_owner_Inr conj_assoc)
qed

text \<open>A registry that holds what it is told to register, and its run.\<close>

definition demo_coin :: coin where
  "demo_coin = \<lparr>cn_denom = ''asvp'', cn_amount = 7\<rparr>"

definition demo_message :: msg_register where
  "demo_message =
     \<lparr>mr_owner = ''svp1a'', mr_agent_id = ''did:a'', mr_endpoint = ''http://a'', mr_capability_hash = ''{}'',
      mr_capabilities = [''evm''], mr_initial_bond = demo_coin, mr_metadata = [],
      mr_pricing = Some \<lparr>pr_amount = ''5'', pr_unit = ''call''\<rparr>\<rparr>"

definition demo_raw_tx :: tx_raw where
  "demo_raw_tx = \<lparr>tr_body_bytes = ''b'', tr_auth_info_bytes = ''a'', tr_signatures = [''s'']\<rparr>"

definition demo_tx :: "(chain_msg, string) tx_codec" where
  "demo_tx =
     \<lparr>tc_pack = (\<lambda>m. if m = Msg_Register demo_message then Inr ''m'' else Inl ''unknown''),
      tc_marshal_body = (\<lambda>_. Inr ''b''), tc_parse_int = (\<lambda>_. Some 5), tc_pack_pub_key = (\<lambda>k. Inr k),
      tc_marshal_auth = (\<lambda>_. Inr ''a''), tc_marshal_sign_doc = (\<lambda>d. Inr (sd_body_bytes d)),
      tc_sign = (\<lambda>_ _. Inr ''s''), tc_marshal_raw = (\<lambda>_. Inr ''tx'')\<rparr>"

definition demo_grpc :: "(chain_agent option, string) grpc_api" where
  "demo_grpc =
     \<lparr>gr_params = (\<lambda>c. (c, Inr \<lparr>ap_registration_fee = demo_coin, ap_min_bond = demo_coin\<rparr>)),
      gr_agent = (\<lambda>i c. (c, case c of
          None \<Rightarrow> Inl \<lparr>ge_code = 5, ge_text = ''no''\<rparr>
        | Some a \<Rightarrow> if ca_agent_id a = i then Inr a else Inl \<lparr>ge_code = 5, ge_text = ''no''\<rparr>)),
      gr_account = (\<lambda>_ c. (c, Inr ''acct'')),
      gr_broadcast = (\<lambda>_ c. (Some (apply_register demo_message 1), Inr \<lparr>br_tx_hash = ''AB'', br_code = 0, br_raw_log = []\<rparr>))\<rparr>"

definition no_codec :: "('req, 'resp) codec" where
  "no_codec = \<lparr>cd_marshal = (\<lambda>_. Inl ''none''), cd_unmarshal = (\<lambda>_. Inl ''none'')\<rparr>"

definition demo_reg_env :: "(chain_agent option, string) reg_env" where
  "demo_reg_env =
     \<lparr>re_key_variable = hex_encode (replicate 32 CHR 0xAB), re_read_file = (\<lambda>_. Inl ''none''),
      re_derive_address = (\<lambda>_. ''svp1a''), re_parse_address = (\<lambda>_. Inr ''a''), re_address_text = (\<lambda>_. ''svp1a''),
      re_agent_id = (\<lambda>_. ''did:a''), re_parse_agent_id = (\<lambda>_. Inr ''a''), re_fetch = (\<lambda>_ c. (c, Fetched 200 (Inr ''{}''))),
      re_sha256 = id, re_dial_rpc = (\<lambda>_. Inl ''none''), re_dial_grpc = (\<lambda>_. Inr demo_grpc),
      re_codecs = \<lparr>co_params = no_codec, co_agent = no_codec, co_account = no_codec,
        co_unpack = (\<lambda>_. Inr \<lparr>ai_account_number = 3, ai_sequence = 4\<rparr>)\<rparr>,
      re_tx = demo_tx, re_parse_coin = (\<lambda>_. Inl ''none''), re_coin_text = (\<lambda>_. ''7asvp''), re_coin_add = (\<lambda>a b. a),
      re_status_text = (\<lambda>_. ''active''), re_deregistering = 2, re_validate = (\<lambda>_. None)\<rparr>"

definition demo_reg_opts :: reg_opts where
  "demo_reg_opts =
     \<lparr>ro_url = ''http://a/'', ro_card_url = [], ro_chain_id = ''c'', ro_grpc_addr = ''g'', ro_rpc_url = [],
      ro_key_file = [], ro_bond = [], ro_capabilities = ''evm, '', ro_metadata = [], ro_pricing_amount = ''5'',
      ro_pricing_unit = ''call'', ro_fee_denom = ''asvp'', ro_fee_amount = ''5'', ro_gas_limit = 1, ro_dry_run = False\<rparr>"

definition demo_registry :: "chain_agent option \<Rightarrow> string \<rightharpoonup> chain_agent" where
  "demo_registry c i = (case c of None \<Rightarrow> None | Some a \<Rightarrow> if ca_agent_id a = i then Some a else None)"

lemma demo_opts: "check_opts demo_reg_opts = Inr (''http://a'', ''http://a'', [''evm''])"
  by code_simp

lemma demo_owner: "load_owner demo_reg_env [] = Inr (replicate 32 CHR 0xAB, ''svp1a'', ''a'')"
  using load_env_key [of "replicate 32 CHR 0xAB" "\<lambda>_. ''svp1a''" "\<lambda>_. Inl ''none''" "[]"]
  by (simp add: load_owner_def demo_reg_env_def)

lemma demo_fetch: "fetch_card demo_reg_env base c = (c, Inr ''{}'')"
  by (simp add: fetch_card_def demo_reg_env_def)

lemma demo_url: "check_card_url ''{}'' ''http://a'' = None"
  by code_simp

lemma demo_pricing: "parse_pricing demo_reg_env demo_reg_opts = Inr (Some \<lparr>pr_amount = ''5'', pr_unit = ''call''\<rparr>)"
  by code_simp

lemma demo_truthful: "truthful demo_reg_env demo_registry"
  by (auto simp: truthful_def demo_reg_env_def demo_registry_def dial_chain_def dial_rpc_def dial_def grpc_dial_def
      agent_by_id_def is_not_found_def grpc_not_found_def demo_grpc_def
      split: if_splits option.splits)


lemma demo_run:
  "agent_register demo_reg_env demo_reg_opts None =
     submit demo_reg_env (Grpc_Client demo_grpc) demo_reg_opts (replicate 32 CHR 0xAB) ''svp1a''
       (Register demo_message demo_coin) (Msg_Register demo_message)
       (decision_lines demo_reg_env ''did:a'' (Register demo_message demo_coin)
        @ summary_lines ''svp1a'' (wanted demo_reg_env demo_reg_opts ''{}'' (Some \<lparr>pr_amount = ''5'', pr_unit = ''call''\<rparr>))) None"
proof -
  have bases: "base_url_of (ro_url demo_reg_opts) = ''http://a''" "split_tags (ro_capabilities demo_reg_opts) = [''evm'']"
    using check_opts_Inr [OF demo_opts] by simp_all
  have opts: "ro_key_file demo_reg_opts = []" "ro_grpc_addr demo_reg_opts = ''g''" "ro_rpc_url demo_reg_opts = []"
      "ro_bond demo_reg_opts = []" "ro_metadata demo_reg_opts = []"
    by (simp_all add: demo_reg_opts_def)
  have env: "dial_chain demo_reg_env ''g'' [] = Inr (Grpc_Client demo_grpc)" "re_agent_id demo_reg_env = (\<lambda>_. ''did:a'')"
      "re_address_text demo_reg_env = (\<lambda>_. ''svp1a'')" "re_sha256 demo_reg_env = id"
    by (simp_all add: dial_chain_def dial_def grpc_dial_def demo_reg_env_def)
  have lookup: "agent_by_id co (Grpc_Client demo_grpc) i None = (None, Inr None)" for co i
    by (simp add: agent_by_id_def demo_grpc_def is_not_found_def grpc_not_found_def)
  have bond: "resolve_bond demo_reg_env (Grpc_Client demo_grpc) [] None = (None, Inr demo_coin)"
    by (simp add: resolve_bond_def query_params_def demo_grpc_def)
  show ?thesis
    by (simp add: agent_register_def demo_opts demo_owner demo_fetch demo_url demo_pricing opts env lookup bond
        decide_def build_register_def wanted_def bases flip: demo_message_def)
qed

lemma demo_sent: "rr_sent (agent_register demo_reg_env demo_reg_opts None) = [''tx'']"
  unfolding demo_run
  by (simp add: submit_def query_account_def grpc_account_def unpack_account_def sign_tx_def
      direct_sign_bytes_def broadcast_sync_def send_tx_def grpc_broadcast_def parse_broadcast_error_def
      demo_reg_env_def demo_grpc_def demo_tx_def demo_reg_opts_def)

lemma demo_signs: "reads_back (re_tx demo_reg_env) (\<lambda>_. [Msg_Register demo_message])"
  by (auto simp: reads_back_def sign_tx_def demo_reg_env_def demo_tx_def split: if_splits)

lemma registration_settles_witness:
  "\<exists>a. registry_apply 1 id (Msg_Register demo_message) (demo_registry None) ''did:a'' = Some a
     \<and> settled a (wanted demo_reg_env demo_reg_opts ''{}'' (Some \<lparr>pr_amount = ''5'', pr_unit = ''call''\<rparr>))
     \<and> rr_sent (agent_register demo_reg_env demo_reg_opts (Some a)) = []"
proof -
  have sent: "''tx'' \<in> set (rr_sent (agent_register demo_reg_env demo_reg_opts None))" by (simp add: demo_sent)
  obtain i p a where a: "registry_apply 1 id (Msg_Register demo_message) (demo_registry None) i = Some a"
      and p: "parse_pricing demo_reg_env demo_reg_opts = Inr p"
      and fits: "settled a (wanted demo_reg_env demo_reg_opts ''{}'' p)"
      and again: "demo_registry c' = registry_apply 1 id (Msg_Register demo_message) (demo_registry None) \<Longrightarrow>
        rr_sent (agent_register demo_reg_env demo_reg_opts c') = []" for c'
    using registration_settles [where active = 1 and leave = id,
        OF sent demo_truthful demo_signs]
    by (auto simp: demo_fetch)
  have reg: "registry_apply 1 id (Msg_Register demo_message) (demo_registry None) =
      [''did:a'' \<mapsto> apply_register demo_message 1]"
    by (auto simp: registry_apply_def demo_registry_def demo_message_def)
  with a have i: "i = ''did:a''" "a = apply_register demo_message 1" by (auto split: if_splits)
  then have "demo_registry (Some a) = registry_apply 1 id (Msg_Register demo_message) (demo_registry None)"
    unfolding reg by (auto simp: demo_registry_def apply_register_def demo_message_def)
  from again [OF this] a i fits p show ?thesis by (simp add: demo_pricing)
qed

lemma registration_guards_witness:
  "rr_sent (agent_register demo_reg_env demo_reg_opts None) = [''tx'']
   \<and> split_tags (ro_capabilities demo_reg_opts) \<noteq> []"
  using registration_guards [of "''tx''" demo_reg_env demo_reg_opts None] demo_sent by auto

end
