(* ===== verification/Deregister_Command.thy ===== *)
theory Deregister_Command
  imports Register_Command
begin

text \<open>
  The command that removes the agent's registration (\<open>cmd/agent-deregister\<close>), on the same chain and
  owner key as the one that made it.
\<close>

section \<open>Options and errors\<close>

record dereg_opts =
  do_chain_id :: string
  do_grpc_addr :: string
  do_rpc_url :: string
  do_agent_id :: string
  do_key_file :: string
  do_fee_denom :: string
  do_fee_amount :: string
  do_gas_limit :: nat
  do_confirm :: bool

datatype dereg_error =
    Dereg_Chain_Required
  | Dereg_Grpc_And_Rpc
  | Dereg_Owner reg_error
  | Dereg_Dial string
  | Dereg_Bad_Id string
  | Dereg_Foreign_Id string string
  | Dereg_Lookup string
  | Dereg_Foreign_Record string string
  | Dereg_Invalid_Message string
  | Dereg_Account string
  | Dereg_Sign sign_error
  | Dereg_Broadcast string

record 'c dereg_result =
  dr_world :: 'c
  dr_lines :: "string list"
  dr_sent :: "string list"
  dr_error :: "dereg_error option"

definition dereg_stop :: "'c \<Rightarrow> string list \<Rightarrow> dereg_error \<Rightarrow> 'c dereg_result" where
  "dereg_stop c out e = \<lparr>dr_world = c, dr_lines = out, dr_sent = [], dr_error = Some e\<rparr>"

definition dereg_finish :: "'c \<Rightarrow> string list \<Rightarrow> 'c dereg_result" where
  "dereg_finish c out = \<lparr>dr_world = c, dr_lines = out, dr_sent = [], dr_error = None\<rparr>"

text \<open>The flags are only trimmed for the checks; later the chain is dialled with them as they are.\<close>

definition check_dereg_opts :: "dereg_opts \<Rightarrow> dereg_error option" where
  "check_dereg_opts o' =
     (let grpc = trim_space (do_grpc_addr o'); rpc = trim_space (do_rpc_url o')
      in if trim_space (do_chain_id o') = [] \<or> (grpc = [] \<and> rpc = []) then Some Dereg_Chain_Required
         else if grpc \<noteq> [] \<and> rpc \<noteq> [] then Some Dereg_Grpc_And_Rpc
         else None)"

text \<open>The agent to remove: the named one, if it is the owner's, or the one the owner's key stands for.\<close>

definition resolve_agent_id ::
    "('c, 'any) reg_env \<Rightarrow> string \<Rightarrow> string \<Rightarrow> string \<Rightarrow> dereg_error + string" where
  "resolve_agent_id env id_flag addr owner =
     (let agent_id = trim_space id_flag
      in if agent_id = [] then Inr (re_agent_id env owner)
         else (case re_parse_agent_id env agent_id of
             Inl e \<Rightarrow> Inl (Dereg_Bad_Id e)
           | Inr agent_owner \<Rightarrow>
               if agent_owner \<noteq> owner then Inl (Dereg_Foreign_Id (re_address_text env agent_owner) addr)
               else Inr agent_id))"

section \<open>What is printed\<close>

definition absent_lines :: "string \<Rightarrow> string \<Rightarrow> string list" where
  "absent_lines agent_id addr =
     [''not registered '' @ dash @ '' no deregistration transaction will be submitted'',
      ''  agent '' @ agent_id, ''  owner '' @ addr]"

definition record_lines :: "('c, 'any) reg_env \<Rightarrow> chain_agent \<Rightarrow> string list" where
  "record_lines env a =
     [''registered agent found'', ''  agent    '' @ ca_agent_id a, ''  owner    '' @ ca_owner a,
      ''  endpoint '' @ ca_endpoint a, ''  status   '' @ re_status_text env (ca_status a),
      ''  bond     '' @ re_coin_text env (ca_bond a)]
     @ (if ca_unbonding_complete_height a \<noteq> 0
        then [''  unbonding complete height '' @ show_nat (ca_unbonding_complete_height a)] else [])"

definition warning_lines :: "string list" where
  "warning_lines =
     [''warning: deregistration removes this agent from chain discovery and starts bond unbonding.'',
      ''warning: it does not stop the deployed container or remove its nginx/DNS configuration.'']"

section \<open>The command\<close>

definition dereg_fee :: "dereg_opts \<Rightarrow> fee_spec" where
  "dereg_fee o' = \<lparr>fs_denom = do_fee_denom o', fs_amount = do_fee_amount o', fs_gas_limit = do_gas_limit o'\<rparr>"

definition submit_dereg ::
    "('c, 'any) reg_env \<Rightarrow> ('c, 'any) chain_client \<Rightarrow> dereg_opts \<Rightarrow> string \<Rightarrow> string \<Rightarrow> string \<Rightarrow>
     string list \<Rightarrow> 'c \<Rightarrow> 'c dereg_result" where
  "submit_dereg env client o' priv addr agent_id out c =
     (let msg = Msg_Deregister addr agent_id
      in case re_validate env msg of
           Some e \<Rightarrow> dereg_stop c out (Dereg_Invalid_Message e)
         | None \<Rightarrow>
             if \<not> do_confirm o'
             then dereg_finish c (out @ [''preview only '' @ dash @ '' rerun with -confirm to sign and broadcast''])
             else (case query_account (re_codecs env) client addr c of
                 (c, Inl e) \<Rightarrow> dereg_stop c out (Dereg_Account e)
               | (c, Inr acct) \<Rightarrow>
                   (case sign_tx (re_tx env) priv (do_chain_id o') acct [msg] (dereg_fee o') of
                      Inl e \<Rightarrow> dereg_stop c out (Dereg_Sign e)
                    | Inr tx \<Rightarrow>
                        (case broadcast_sync client tx c of
                           (c, Inl e) \<Rightarrow>
                             \<lparr>dr_world = c, dr_lines = out, dr_sent = [tx], dr_error = Some (Dereg_Broadcast e)\<rparr>
                         | (c, Inr r) \<Rightarrow>
                             \<lparr>dr_world = c,
                              dr_lines = out @ [''deregistration submitted '' @ dash @ '' tx '' @ br_tx_hash r],
                              dr_sent = [tx], dr_error = None\<rparr>))))"

text \<open>What is done with the record that was found.\<close>

definition dereg_found ::
    "('c, 'any) reg_env \<Rightarrow> ('c, 'any) chain_client \<Rightarrow> dereg_opts \<Rightarrow> string \<Rightarrow> string \<Rightarrow> string \<Rightarrow>
     chain_agent \<Rightarrow> 'c \<Rightarrow> 'c dereg_result" where
  "dereg_found env client o' priv addr agent_id a c =
     (if ca_owner a \<noteq> addr then dereg_stop c [] (Dereg_Foreign_Record (ca_owner a) addr)
      else if ca_status a = re_deregistering env
      then dereg_finish c (record_lines env a @ [''already deregistering '' @ dash @ '' no transaction will be submitted''])
      else submit_dereg env client o' priv addr agent_id (record_lines env a @ warning_lines) c)"

definition agent_deregister :: "('c, 'any) reg_env \<Rightarrow> dereg_opts \<Rightarrow> 'c \<Rightarrow> 'c dereg_result" where
  "agent_deregister env o' c =
     (case check_dereg_opts o' of
        Some e \<Rightarrow> dereg_stop c [] e
      | None \<Rightarrow>
     (case load_owner env (do_key_file o') of
        Inl e \<Rightarrow> dereg_stop c [] (Dereg_Owner e)
      | Inr (priv, addr, owner) \<Rightarrow>
     (case dial_chain env (do_grpc_addr o') (do_rpc_url o') of
        Inl e \<Rightarrow> dereg_stop c [] (Dereg_Dial e)
      | Inr client \<Rightarrow>
     (case resolve_agent_id env (do_agent_id o') addr owner of
        Inl e \<Rightarrow> dereg_stop c [] e
      | Inr agent_id \<Rightarrow>
     (case agent_by_id (re_codecs env) client agent_id c of
        (c, Inl e) \<Rightarrow> dereg_stop c [] (Dereg_Lookup e)
      | (c, Inr None) \<Rightarrow> dereg_finish c (absent_lines agent_id addr)
      | (c, Inr (Some a)) \<Rightarrow> dereg_found env client o' priv addr agent_id a c)))))"

section \<open>What a run has passed\<close>

lemma resolve_agent_id_Inr:
  "resolve_agent_id env id_flag addr owner = Inr agent_id \<longleftrightarrow>
     (trim_space id_flag = [] \<and> agent_id = re_agent_id env owner)
     \<or> (trim_space id_flag \<noteq> [] \<and> agent_id = trim_space id_flag \<and> re_parse_agent_id env agent_id = Inr owner)"
  by (auto simp: resolve_agent_id_def Let_def split: sum.splits)

lemma submit_dereg_sent:
  assumes "tx \<in> set (dr_sent (submit_dereg env client o' priv addr agent_id out c))"
  obtains acct c1 where "re_validate env (Msg_Deregister addr agent_id) = None" and "do_confirm o'"
    and "query_account (re_codecs env) client addr c = (c1, Inr acct)"
    and "sign_tx (re_tx env) priv (do_chain_id o') acct [Msg_Deregister addr agent_id] (dereg_fee o') = Inr tx"
    and "dr_sent (submit_dereg env client o' priv addr agent_id out c) = [tx]"
  using assms
  by (auto simp: submit_dereg_def Let_def dereg_stop_def dereg_finish_def
      split: option.splits if_splits prod.splits sum.splits)

lemma agent_deregister_cases:
  obtains (quiet) "dr_sent (agent_deregister env o' c) = []"
  | (found) priv addr owner client agent_id a c1 where "check_dereg_opts o' = None"
      "load_owner env (do_key_file o') = Inr (priv, addr, owner)"
      "dial_chain env (do_grpc_addr o') (do_rpc_url o') = Inr client"
      "resolve_agent_id env (do_agent_id o') addr owner = Inr agent_id"
      "agent_by_id (re_codecs env) client agent_id c = (c1, Inr (Some a))"
      "agent_deregister env o' c = dereg_found env client o' priv addr agent_id a c1"
proof (cases "dr_sent (agent_deregister env o' c) = []")
  case False
  then obtain priv addr owner client agent_id a c1 where steps: "check_dereg_opts o' = None"
      "load_owner env (do_key_file o') = Inr (priv, addr, owner)"
      "dial_chain env (do_grpc_addr o') (do_rpc_url o') = Inr client"
      "resolve_agent_id env (do_agent_id o') addr owner = Inr agent_id"
      "agent_by_id (re_codecs env) client agent_id c = (c1, Inr (Some a))"
    by (auto simp: agent_deregister_def dereg_stop_def dereg_finish_def
        split: option.splits sum.splits prod.splits)
  then show ?thesis by (intro found [of priv addr owner client agent_id c1 a]) (simp_all add: agent_deregister_def)
qed (rule quiet)

text \<open>A record on its way out is left alone.\<close>

lemma deregistering_run:
  assumes "check_dereg_opts o' = None" and "load_owner env (do_key_file o') = Inr (priv, addr, owner)"
    and "dial_chain env (do_grpc_addr o') (do_rpc_url o') = Inr client"
    and "resolve_agent_id env (do_agent_id o') addr owner = Inr agent_id"
    and "\<And>c1 f. agent_by_id (re_codecs env) client agent_id c = (c1, Inr f) \<Longrightarrow> f = Some a"
    and "ca_owner a = addr" and "ca_status a = re_deregistering env"
  shows "dr_sent (agent_deregister env o' c) = []
    \<and> (dr_error (agent_deregister env o' c) = None
        \<or> (\<exists>e. dr_error (agent_deregister env o' c) = Some (Dereg_Lookup e)))"
proof -
  obtain c1 r where l: "agent_by_id (re_codecs env) client agent_id c = (c1, r)"
    by (cases "agent_by_id (re_codecs env) client agent_id c")
  show ?thesis
  proof (cases r)
    case (Inl e)
    with assms l show ?thesis by (simp add: agent_deregister_def dereg_stop_def)
  next
    case (Inr f)
    with assms(5) l have "f = Some a" by simp
    with assms l Inr show ?thesis by (simp add: agent_deregister_def dereg_found_def dereg_finish_def)
  qed
qed

lemma agent_deregister_sent:
  assumes "tx \<in> set (dr_sent (agent_deregister env o' c))"
  obtains priv addr owner agent_id client c1 c2 a acct
    where "dr_sent (agent_deregister env o' c) = [tx]" and "do_confirm o'"
    and "load_owner env (do_key_file o') = Inr (priv, addr, owner)"
    and "resolve_agent_id env (do_agent_id o') addr owner = Inr agent_id"
    and "dial_chain env (do_grpc_addr o') (do_rpc_url o') = Inr client"
    and "agent_by_id (re_codecs env) client agent_id c = (c1, Inr (Some a))"
    and "ca_owner a = addr" and "ca_status a \<noteq> re_deregistering env"
    and "re_validate env (Msg_Deregister addr agent_id) = None"
    and "sign_tx (re_tx env) priv (do_chain_id o') acct [Msg_Deregister addr agent_id] (dereg_fee o') = Inr tx"
    and "query_account (re_codecs env) client addr c1 = (c2, Inr acct)" and "check_dereg_opts o' = None"
proof (cases rule: agent_deregister_cases [of env o' c])
  case (found priv addr owner client agent_id a c1)
  have mine: "ca_owner a = addr" "ca_status a \<noteq> re_deregistering env"
    using assms unfolding found(6)
    by (auto simp: dereg_found_def dereg_stop_def dereg_finish_def split: if_splits)
  then have steps: "agent_deregister env o' c =
      submit_dereg env client o' priv addr agent_id (record_lines env a @ warning_lines) c1"
    unfolding found(6) by (simp add: dereg_found_def)
  from assms show ?thesis
    unfolding steps by (rule submit_dereg_sent) (rule that; use steps found(1-5) mine in simp)
qed (use assms in simp)

section \<open>Properties\<close>

text \<open>C16: What a deregistration sends is for the owner's own record: it is under the agent the key stands for
  or the one named, it names the owner's address as its owner, and it is not on its way out. Applied
  to the registry it takes that record out of use and touches no other; whatever else the chain does
  to it (it begins to unbond the bond), the same command again sends nothing, and only a failing
  lookup makes it an error.\<close>

theorem deregistration_settles:
  assumes "tx \<in> set (dr_sent (agent_deregister env o' c))" and "truthful env registry"
    and "reads_back (re_tx env) msgs_of"
    and "\<And>a. ca_status (leave a) = re_deregistering env \<and> ca_owner (leave a) = ca_owner a"
  shows "\<exists>priv addr owner agent_id a.
      load_key (re_derive_address env) (re_key_variable env) (re_read_file env) (do_key_file o') = Inr (Some (priv, addr))
    \<and> re_parse_address env addr = Inr owner
    \<and> (if trim_space (do_agent_id o') = [] then agent_id = re_agent_id env owner
       else agent_id = trim_space (do_agent_id o') \<and> re_parse_agent_id env agent_id = Inr owner)
    \<and> msgs_of tx = [Msg_Deregister addr agent_id]
    \<and> registry c agent_id = Some a \<and> ca_owner a = addr \<and> ca_status a \<noteq> re_deregistering env
    \<and> registry_apply active leave (Msg_Deregister addr agent_id) (registry c) = (registry c)(agent_id \<mapsto> leave a)
    \<and> (\<forall>c'. registry c' = (registry c)(agent_id \<mapsto> leave a) \<longrightarrow>
        dr_sent (agent_deregister env o' c') = []
        \<and> (dr_error (agent_deregister env o' c') = None
            \<or> (\<exists>e. dr_error (agent_deregister env o' c') = Some (Dereg_Lookup e))))"
proof -
  obtain priv addr owner agent_id client c1 a acct
    where opts: "check_dereg_opts o' = None"
      and owner: "load_owner env (do_key_file o') = Inr (priv, addr, owner)"
      and agent: "resolve_agent_id env (do_agent_id o') addr owner = Inr agent_id"
      and client: "dial_chain env (do_grpc_addr o') (do_rpc_url o') = Inr client"
      and found: "agent_by_id (re_codecs env) client agent_id c = (c1, Inr (Some a))"
      and mine: "ca_owner a = addr" "ca_status a \<noteq> re_deregistering env"
      and signed: "sign_tx (re_tx env) priv (do_chain_id o') acct [Msg_Deregister addr agent_id] (dereg_fee o') = Inr tx"
    by (rule agent_deregister_sent [OF assms(1)])
  have lookup: "f = registry c' agent_id"
    if "agent_by_id (re_codecs env) client agent_id c' = (c'', Inr f)" for c' c'' f
    using assms(2) client that unfolding truthful_def by blast
  from lookup [OF found] have a: "registry c agent_id = Some a" by simp
  have again: "dr_sent (agent_deregister env o' c') = []
        \<and> (dr_error (agent_deregister env o' c') = None
            \<or> (\<exists>e. dr_error (agent_deregister env o' c') = Some (Dereg_Lookup e)))"
    if "registry c' = (registry c)(agent_id \<mapsto> leave a)" for c'
    by (rule deregistering_run [OF opts owner client agent, of c' "leave a"])
      (use lookup [of c'] that assms(4) mine(1) in auto)
  show ?thesis
    by (intro exI [of _ priv] exI [of _ addr] exI [of _ owner] exI [of _ agent_id] exI [of _ a])
      (use assms(3) signed a mine owner agent again in
        \<open>auto simp: reads_back_def registry_apply_def load_owner_Inr resolve_agent_id_Inr\<close>)
qed

text \<open>The record that \<open>agent-register\<close> made, and the run that removes it.\<close>

definition dereg_env :: "(chain_agent option, string) reg_env" where
  "dereg_env = demo_reg_env\<lparr>re_tx := demo_tx\<lparr>tc_pack :=
     (\<lambda>m. if m = Msg_Deregister ''svp1a'' ''did:a'' then Inr ''m'' else Inl ''unknown'')\<rparr>\<rparr>"

definition demo_dereg_opts :: dereg_opts where
  "demo_dereg_opts =
     \<lparr>do_chain_id = ''c'', do_grpc_addr = ''g'', do_rpc_url = [], do_agent_id = [], do_key_file = [],
      do_fee_denom = ''asvp'', do_fee_amount = ''25000000000000000'', do_gas_limit = 1000000, do_confirm = True\<rparr>"

definition demo_record :: chain_agent where
  "demo_record = apply_register demo_message 1"

lemma demo_record_fields: "ca_owner demo_record = ''svp1a''" "ca_agent_id demo_record = ''did:a''" "ca_status demo_record = 1"
  by (simp_all add: demo_record_def apply_register_def demo_message_def)

lemma dereg_env_same:
  "load_owner dereg_env = load_owner demo_reg_env" "dial_chain dereg_env = dial_chain demo_reg_env"
proof -
  have same: "re_derive_address dereg_env = re_derive_address demo_reg_env" "re_key_variable dereg_env = re_key_variable demo_reg_env"
      "re_read_file dereg_env = re_read_file demo_reg_env" "re_parse_address dereg_env = re_parse_address demo_reg_env"
    by (simp_all add: dereg_env_def)
  show "load_owner dereg_env = load_owner demo_reg_env" by (intro ext) (simp only: load_owner_def same)
qed (simp add: dial_chain_def fun_eq_iff dereg_env_def)

lemma demo_dereg_run: "dr_sent (agent_deregister dereg_env demo_dereg_opts (Some demo_record)) = [''tx'']"
proof -
  have "trim_space ''c'' = ''c''" "trim_space ''g'' = ''g''" by code_simp+
  then have opts: "check_dereg_opts demo_dereg_opts = None"
    by (simp add: check_dereg_opts_def demo_dereg_opts_def Let_def)
  have owner: "load_owner dereg_env [] = Inr (replicate 32 CHR 0xAB, ''svp1a'', ''a'')"
    unfolding dereg_env_same(1) by (rule demo_owner)
  have client: "dial_chain dereg_env ''g'' [] = Inr (Grpc_Client demo_grpc)"
    by (simp add: dial_chain_def dial_def grpc_dial_def dereg_env_def demo_reg_env_def)
  have agent: "resolve_agent_id dereg_env [] addr owner = Inr ''did:a''" for addr owner
    by (simp add: resolve_agent_id_def dereg_env_def demo_reg_env_def)
  have found: "agent_by_id co (Grpc_Client demo_grpc) ''did:a'' (Some demo_record) = (Some demo_record, Inr (Some demo_record))" for co
    by (simp add: agent_by_id_def demo_grpc_def demo_record_fields)
  show ?thesis
    by (simp add: agent_deregister_def opts, simp add: demo_dereg_opts_def owner client agent found)
      (simp add: dereg_found_def demo_record_fields submit_dereg_def query_account_def grpc_account_def
        unpack_account_def sign_tx_def direct_sign_bytes_def broadcast_sync_def send_tx_def grpc_broadcast_def
        parse_broadcast_error_def dereg_env_def demo_reg_env_def demo_grpc_def demo_tx_def)
qed

lemma dereg_truthful: "truthful dereg_env demo_registry"
  using demo_truthful by (simp add: truthful_def dereg_env_same(2)) (simp add: dereg_env_def)

lemma dereg_signs: "reads_back (re_tx dereg_env) (\<lambda>_. [Msg_Deregister ''svp1a'' ''did:a''])"
  by (auto simp: reads_back_def sign_tx_def dereg_env_def demo_tx_def split: if_splits)

text \<open>The chain marks the record and notes when its bond will be free.\<close>

definition demo_leave :: "chain_agent \<Rightarrow> chain_agent" where
  "demo_leave a = a\<lparr>ca_status := 2, ca_unbonding_complete_height := 99\<rparr>"

lemma deregistration_settles_witness:
  "registry_apply 1 demo_leave (Msg_Deregister ''svp1a'' ''did:a'') (demo_registry (Some demo_record)) =
     [''did:a'' \<mapsto> demo_leave demo_record]
   \<and> dr_sent (agent_deregister dereg_env demo_dereg_opts (Some (demo_leave demo_record))) = []"
proof -
  have leaves: "ca_status (demo_leave a) = re_deregistering dereg_env \<and> ca_owner (demo_leave a) = ca_owner a" for a
    by (simp add: dereg_env_def demo_reg_env_def demo_leave_def)
  have sent: "''tx'' \<in> set (dr_sent (agent_deregister dereg_env demo_dereg_opts (Some demo_record)))"
    by (simp add: demo_dereg_run)
  have reg: "demo_registry (Some a) = [ca_agent_id a \<mapsto> a]" for a by (auto simp: demo_registry_def)
  have id: "ca_agent_id (demo_leave demo_record) = ''did:a''" by (simp add: demo_leave_def demo_record_fields)
  from deregistration_settles [OF sent dereg_truthful dereg_signs leaves, of 1] show ?thesis
    by (auto simp: reg id demo_record_fields split: if_splits)
qed

end
