(* ===== verification/Go_Flags.thy ===== *)
theory Go_Flags
  imports Go_Duration
begin

text \<open>
  What the commands use of the packages \<open>flag\<close> and \<open>strconv\<close> to read their arguments. The options are
  a record \<open>'o\<close>; a flag is the setter of its field, which may refuse the text it is given.
\<close>

section \<open>Values of flags\<close>

definition parse_bool :: "string \<Rightarrow> bool option" where
  "parse_bool s =
     (if s \<in> set [''1'', ''t'', ''T'', ''TRUE'', ''true'', ''True''] then Some True
      else if s \<in> set [''0'', ''f'', ''F'', ''FALSE'', ''false'', ''False''] then Some False
      else None)"

text \<open>
  \<open>strconv.ParseUint(s, 0, 64)\<close>: a prefix gives the base, and underscores may separate digits. A syntax
  and a range error are the same to the flags.
\<close>

definition letter_value :: "char \<Rightarrow> nat option" where
  "letter_value c =
     (let k = of_char (ascii_lower c) in if 97 \<le> k \<and> k \<le> 122 then Some (k - 87) else digit_value c)"

fun parse_uint_digits :: "nat \<Rightarrow> nat \<Rightarrow> string \<Rightarrow> nat option" where
  "parse_uint_digits base n [] = Some n"
| "parse_uint_digits base n (c # cs) =
     (if c = CHR ''_'' then parse_uint_digits base n cs
      else (case letter_value c of
          None \<Rightarrow> None
        | Some d \<Rightarrow>
            if base \<le> d \<or> 2 ^ 64 \<le> n * base + d then None else parse_uint_digits base (n * base + d) cs))"

datatype seen = Seen_Start | Seen_Digit | Seen_Underscore | Seen_Other

fun underscores_from :: "bool \<Rightarrow> seen \<Rightarrow> string \<Rightarrow> bool" where
  "underscores_from hex saw [] \<longleftrightarrow> saw \<noteq> Seen_Underscore"
| "underscores_from hex saw (c # cs) \<longleftrightarrow>
     (if digit_value c \<noteq> None \<or> (hex \<and> (case letter_value c of None \<Rightarrow> False | Some d \<Rightarrow> d < 16))
      then underscores_from hex Seen_Digit cs
      else if c = CHR ''_'' then saw = Seen_Digit \<and> underscores_from hex Seen_Underscore cs
      else saw \<noteq> Seen_Underscore \<and> underscores_from hex Seen_Other cs)"

text \<open>The base a prefix announces, and the text after it.\<close>

definition base_prefix :: "string \<Rightarrow> nat option" where
  "base_prefix s =
     (let p = map ascii_lower (take 2 s)
      in if p = ''0b'' then Some 2 else if p = ''0o'' then Some 8 else if p = ''0x'' then Some 16 else None)"

definition underscore_ok :: "string \<Rightarrow> bool" where
  "underscore_ok s =
     (let s = (if take 1 s = ''-'' \<or> take 1 s = ''+'' then drop 1 s else s)
      in case base_prefix s of
           None \<Rightarrow> underscores_from False Seen_Start s
         | Some b \<Rightarrow> underscores_from (b = 16) Seen_Digit (drop 2 s))"

definition parse_uint64 :: "string \<Rightarrow> nat option" where
  "parse_uint64 s =
     (if s = [] then None
      else (let (base, body) =
              (if take 1 s \<noteq> ''0'' then (10, s)
               else (case base_prefix s of
                   Some b \<Rightarrow> if 3 \<le> length s then (b, drop 2 s) else (8, drop 1 s)
                 | None \<Rightarrow> (8, drop 1 s)))
            in case parse_uint_digits base 0 body of
                 None \<Rightarrow> None
               | Some n \<Rightarrow> if CHR ''_'' \<in> set body \<and> \<not> underscore_ok s then None else Some n))"

section \<open>Flags\<close>

record 'o flag =
  fg_is_bool :: bool
  fg_set :: "string \<Rightarrow> 'o \<Rightarrow> 'o option"

definition text_flag :: "(string \<Rightarrow> 'o \<Rightarrow> 'o) \<Rightarrow> 'o flag" where
  "text_flag set_to = \<lparr>fg_is_bool = False, fg_set = (\<lambda>v o'. Some (set_to v o'))\<rparr>"

definition bool_flag :: "(bool \<Rightarrow> 'o \<Rightarrow> 'o) \<Rightarrow> 'o flag" where
  "bool_flag set_to = \<lparr>fg_is_bool = True, fg_set = (\<lambda>v o'. map_option (\<lambda>b. set_to b o') (parse_bool v))\<rparr>"

definition uint_flag :: "(nat \<Rightarrow> 'o \<Rightarrow> 'o) \<Rightarrow> 'o flag" where
  "uint_flag set_to = \<lparr>fg_is_bool = False, fg_set = (\<lambda>v o'. map_option (\<lambda>n. set_to n o') (parse_uint64 v))\<rparr>"

definition duration_flag :: "(duration \<Rightarrow> 'o \<Rightarrow> 'o) \<Rightarrow> 'o flag" where
  "duration_flag set_to =
     \<lparr>fg_is_bool = False,
      fg_set = (\<lambda>v o'. case parse_duration v of Inl _ \<Rightarrow> None | Inr d \<Rightarrow> Some (set_to d o'))\<rparr>"

datatype flag_error =
    Bad_Flag_Syntax string
  | Undefined_Flag string
  | Flag_Needs_Argument string
  | Invalid_Flag_Value string string
  | Help_Wanted

text \<open>What an argument that starts a flag names, and the value after an equals sign.\<close>

definition flag_body :: "string \<Rightarrow> string option" where
  "flag_body s =
     (if length s < 2 \<or> take 1 s \<noteq> ''-'' \<or> s = ''--'' then None
      else Some (if take 2 s = ''--'' then drop 2 s else drop 1 s))"

definition split_flag :: "string \<Rightarrow> string \<times> string option" where
  "split_flag body =
     (case dropWhile (\<lambda>c. c \<noteq> CHR ''='') (tl body) of
        [] \<Rightarrow> (body, None)
      | _ # v \<Rightarrow> (hd body # takeWhile (\<lambda>c. c \<noteq> CHR ''='') (tl body), Some v))"

definition flag_name :: "string \<Rightarrow> string option" where
  "flag_name s = map_option (fst \<circ> split_flag) (flag_body s)"

datatype 'o flag_step =
    Flag_Seen 'o "string list"
  | Flags_Done "string list"
  | Flag_Failed flag_error

definition set_flag :: "'o flag \<Rightarrow> string \<Rightarrow> string \<Rightarrow> string list \<Rightarrow> 'o \<Rightarrow> 'o flag_step" where
  "set_flag f name v rest o' =
     (case fg_set f v o' of None \<Rightarrow> Flag_Failed (Invalid_Flag_Value name v) | Some o'' \<Rightarrow> Flag_Seen o'' rest)"

definition parse_one :: "(string \<times> 'o flag) list \<Rightarrow> string list \<Rightarrow> 'o \<Rightarrow> 'o flag_step" where
  "parse_one fs args o' =
     (case args of
        [] \<Rightarrow> Flags_Done []
      | s # rest \<Rightarrow>
          (case flag_body s of
             None \<Rightarrow> Flags_Done (if s = ''--'' then rest else args)
           | Some body \<Rightarrow>
               if body = [] \<or> hd body = CHR ''-'' \<or> hd body = CHR ''='' then Flag_Failed (Bad_Flag_Syntax s)
               else (case split_flag body of
                   (name, given) \<Rightarrow>
                     (case map_of fs name of
                        None \<Rightarrow>
                          Flag_Failed (if name = ''help'' \<or> name = ''h'' then Help_Wanted else Undefined_Flag name)
                      | Some f \<Rightarrow>
                          if fg_is_bool f
                          then set_flag f name (case given of None \<Rightarrow> ''true'' | Some v \<Rightarrow> v) rest o'
                          else (case (given, rest) of
                              (Some v, _) \<Rightarrow> set_flag f name v rest o'
                            | (None, v # rest) \<Rightarrow> set_flag f name v rest o'
                            | (None, []) \<Rightarrow> Flag_Failed (Flag_Needs_Argument name))))))"

lemma parse_one_seen:
  assumes "parse_one fs args o' = Flag_Seen o'' rest"
  obtains s name f v pre where "args = s # pre @ rest" and "flag_name s = Some name" and "map_of fs name = Some f"
    and "fg_set f v o' = Some o''"
proof -
  obtain s rest' where args: "args = s # rest'" using assms by (cases args) (auto simp: parse_one_def)
  obtain body where body: "flag_body s = Some body" using assms by (cases "flag_body s") (auto simp: parse_one_def args)
  obtain name given where split: "split_flag body = (name, given)" by (cases "split_flag body")
  from assms args body split obtain f where f: "map_of fs name = Some f"
    by (cases "map_of fs name") (auto simp: parse_one_def split: if_splits)
  have name: "flag_name s = Some name" using body split by (simp add: flag_name_def)
  from assms args body split f obtain v where "fg_set f v o' = Some o''" "rest = rest' \<or> (\<exists>w. rest' = w # rest)"
    by (auto simp: parse_one_def set_flag_def split: if_splits option.splits list.splits)
  then show ?thesis using that [of s "[]" name f v] that [of s _ name f v] args name f by force
qed

function parse_flags ::
    "(string \<times> 'o flag) list \<Rightarrow> string list \<Rightarrow> 'o \<Rightarrow> flag_error + 'o \<times> string list" where
  "parse_flags fs args o' =
     (case parse_one fs args o' of
        Flag_Seen o'' rest \<Rightarrow> parse_flags fs rest o''
      | Flags_Done rest \<Rightarrow> Inr (o', rest)
      | Flag_Failed e \<Rightarrow> Inl e)"
  by pat_completeness auto
termination
  by (relation "measure (\<lambda>(fs, args, o'). length args)") (auto elim!: parse_one_seen)

declare parse_flags.simps [simp del]

text \<open>Flags nobody names keep their fields.\<close>

lemma parse_flags_invariant:
  assumes "parse_flags fs args o' = Inr (o'', rest)" and "P o'"
    and "\<And>s name f v o1 o2. s \<in> set args \<Longrightarrow> flag_name s = Some name \<Longrightarrow> map_of fs name = Some f \<Longrightarrow>
           fg_set f v o1 = Some o2 \<Longrightarrow> P o1 \<Longrightarrow> P o2"
  shows "P o''"
  using assms
proof (induction fs args o' rule: parse_flags.induct)
  case (1 fs args o')
  show ?case
  proof (cases "parse_one fs args o'")
    case (Flag_Seen o1 rest')
    then obtain s name f v pre where step: "args = s # pre @ rest'" "flag_name s = Some name"
        "map_of fs name = Some f" "fg_set f v o' = Some o1"
      by (rule parse_one_seen)
    have "P o1" by (rule 1(4) [OF _ step(2-4) 1(3)]) (simp add: step(1))
    moreover have "parse_flags fs rest' o1 = Inr (o'', rest)"
      using 1(2) Flag_Seen by (simp add: parse_flags.simps [of fs args o'])
    ultimately show ?thesis
      using 1(1) [OF Flag_Seen] 1(4) step(1) by (metis UnCI list.set_intros(2) set_append)
  qed (use 1(2,3) in \<open>auto simp: parse_flags.simps [of fs args o']\<close>)
qed

end
