(* ===== verification/Command_Line.thy ===== *)
theory Command_Line
  imports Deregister_Command Go_Flags
begin

text \<open>
  The \<open>main\<close> functions of \<open>cmd/agent-register\<close>, \<open>cmd/agent-deregister\<close> and \<open>cmd/owner-keygen\<close>: the flags
  with their defaults, the deadline, and the status the process exits with. The environment of a run
  is a function of its deadline.
\<close>

section \<open>Flags\<close>

definition default_fee_denom :: string where
  "default_fee_denom = ''asvp''"

definition default_fee_amount :: string where
  "default_fee_amount = ''25000000000000000''"

definition default_fee_gas_limit :: nat where
  "default_fee_gas_limit = 1000000"

definition register_defaults :: "reg_opts \<times> duration" where
  "register_defaults =
     (\<lparr>ro_url = [], ro_card_url = [], ro_chain_id = [], ro_grpc_addr = [], ro_rpc_url = [], ro_key_file = [],
       ro_bond = [], ro_capabilities = [], ro_metadata = [], ro_pricing_amount = [], ro_pricing_unit = ''call'',
       ro_fee_denom = default_fee_denom, ro_fee_amount = default_fee_amount,
       ro_gas_limit = default_fee_gas_limit, ro_dry_run = False\<rparr>, 90 * go_second)"

definition register_flags :: "(string \<times> (reg_opts \<times> duration) flag) list" where
  "register_flags =
     [(''url'', text_flag (\<lambda>v. apfst (ro_url_update (\<lambda>_. v)))),
      (''card-url'', text_flag (\<lambda>v. apfst (ro_card_url_update (\<lambda>_. v)))),
      (''chain-id'', text_flag (\<lambda>v. apfst (ro_chain_id_update (\<lambda>_. v)))),
      (''grpc'', text_flag (\<lambda>v. apfst (ro_grpc_addr_update (\<lambda>_. v)))),
      (''rpc'', text_flag (\<lambda>v. apfst (ro_rpc_url_update (\<lambda>_. v)))),
      (''key-file'', text_flag (\<lambda>v. apfst (ro_key_file_update (\<lambda>_. v)))),
      (''bond'', text_flag (\<lambda>v. apfst (ro_bond_update (\<lambda>_. v)))),
      (''capabilities'', text_flag (\<lambda>v. apfst (ro_capabilities_update (\<lambda>_. v)))),
      (''metadata'', text_flag (\<lambda>v. apfst (ro_metadata_update (\<lambda>_. v)))),
      (''pricing-amount'', text_flag (\<lambda>v. apfst (ro_pricing_amount_update (\<lambda>_. v)))),
      (''pricing-unit'', text_flag (\<lambda>v. apfst (ro_pricing_unit_update (\<lambda>_. v)))),
      (''fee-denom'', text_flag (\<lambda>v. apfst (ro_fee_denom_update (\<lambda>_. v)))),
      (''fee-amount'', text_flag (\<lambda>v. apfst (ro_fee_amount_update (\<lambda>_. v)))),
      (''gas-limit'', uint_flag (\<lambda>n. apfst (ro_gas_limit_update (\<lambda>_. n)))),
      (''dry-run'', bool_flag (\<lambda>b. apfst (ro_dry_run_update (\<lambda>_. b)))),
      (''timeout'', duration_flag (\<lambda>d. apsnd (\<lambda>_. d)))]"

definition deregister_defaults :: "dereg_opts \<times> duration" where
  "deregister_defaults =
     (\<lparr>do_chain_id = [], do_grpc_addr = [], do_rpc_url = [], do_agent_id = [], do_key_file = [],
       do_fee_denom = default_fee_denom, do_fee_amount = default_fee_amount,
       do_gas_limit = default_fee_gas_limit, do_confirm = False\<rparr>, 90 * go_second)"

definition deregister_flags :: "(string \<times> (dereg_opts \<times> duration) flag) list" where
  "deregister_flags =
     [(''chain-id'', text_flag (\<lambda>v. apfst (do_chain_id_update (\<lambda>_. v)))),
      (''grpc'', text_flag (\<lambda>v. apfst (do_grpc_addr_update (\<lambda>_. v)))),
      (''rpc'', text_flag (\<lambda>v. apfst (do_rpc_url_update (\<lambda>_. v)))),
      (''agent-id'', text_flag (\<lambda>v. apfst (do_agent_id_update (\<lambda>_. v)))),
      (''key-file'', text_flag (\<lambda>v. apfst (do_key_file_update (\<lambda>_. v)))),
      (''fee-denom'', text_flag (\<lambda>v. apfst (do_fee_denom_update (\<lambda>_. v)))),
      (''fee-amount'', text_flag (\<lambda>v. apfst (do_fee_amount_update (\<lambda>_. v)))),
      (''gas-limit'', uint_flag (\<lambda>n. apfst (do_gas_limit_update (\<lambda>_. n)))),
      (''confirm'', bool_flag (\<lambda>b. apfst (do_confirm_update (\<lambda>_. b)))),
      (''timeout'', duration_flag (\<lambda>d. apsnd (\<lambda>_. d)))]"

section \<open>The commands\<close>

text \<open>Arguments that are no flags end the process: asking for help is no failure, anything else is one.\<close>

definition usage_status :: "flag_error \<Rightarrow> nat" where
  "usage_status e = (if e = Help_Wanted then 0 else 2)"

definition register_main ::
    "(duration \<Rightarrow> ('c, 'any) reg_env) \<Rightarrow> string list \<Rightarrow> 'c \<Rightarrow> nat \<times> 'c reg_result option" where
  "register_main env_of args c =
     (case parse_flags register_flags args register_defaults of
        Inl e \<Rightarrow> (usage_status e, None)
      | Inr ((o', timeout), _) \<Rightarrow>
          (let r = agent_register (env_of timeout) o' c
           in (if rr_error r = None then 0 else 1, Some r)))"

definition deregister_main ::
    "(duration \<Rightarrow> ('c, 'any) reg_env) \<Rightarrow> string list \<Rightarrow> 'c \<Rightarrow> nat \<times> 'c dereg_result option" where
  "deregister_main env_of args c =
     (case parse_flags deregister_flags args deregister_defaults of
        Inl e \<Rightarrow> (usage_status e, None)
      | Inr ((o', timeout), _) \<Rightarrow>
          (let r = agent_deregister (env_of timeout) o' c
           in (if dr_error r = None then 0 else 1, Some r)))"

definition keygen_flags :: "(string \<times> string flag) list" where
  "keygen_flags = [(''out'', text_flag (\<lambda>v _. v))]"

definition keygen_main ::
    "(string \<Rightarrow> string) \<Rightarrow> keygen_env \<Rightarrow> string list \<Rightarrow> file_system \<Rightarrow>
     nat \<times> (file_system \<times> (keygen_error + string list))" where
  "keygen_main address env args fs =
     (case parse_flags keygen_flags args [] of
        Inl e \<Rightarrow> (usage_status e, fs, Inr [])
      | Inr (path, _) \<Rightarrow>
          (let (fs, r) = owner_keygen address env path fs
           in (if is_ok r then 0 else 1, fs, r)))"

section \<open>What a flag is needed for\<close>

lemma only_confirm_confirms:
  assumes "map_of deregister_flags name = Some f" and "fg_set f v o1 = Some o2" and "name \<noteq> ''confirm''"
  shows "do_confirm (fst o2) = do_confirm (fst o1)"
  using assms
  by (auto simp: deregister_flags_def text_flag_def uint_flag_def duration_flag_def apfst_def apsnd_def
      split: if_splits sum.splits)

lemma confirmed_by_flag:
  assumes "parse_flags deregister_flags args deregister_defaults = Inr ((o', timeout), rest)" and "do_confirm o'"
  shows "\<exists>s\<in>set args. flag_name s = Some ''confirm''"
proof (rule ccontr)
  assume unnamed: "\<not> (\<exists>s\<in>set args. flag_name s = Some ''confirm'')"
  have "\<not> do_confirm (fst (o', timeout))"
  proof (rule parse_flags_invariant [OF assms(1), where P = "\<lambda>o'. \<not> do_confirm (fst o')"])
    show "\<not> do_confirm (fst deregister_defaults)" by (simp add: deregister_defaults_def)
  qed (use unnamed only_confirm_confirms in blast)
  with assms(2) show False by simp
qed

section \<open>Properties\<close>

text \<open>C13: The process only sends a deregistration when \<open>-confirm\<close> is among its arguments, and then exactly one
  transaction: of the one validated message, for the owner's own agent, signed by the owner's key and
  with the account's numbers for the named chain, after the chain that was dialed showed a record of
  that owner that is not on its way out already. It exits with status zero exactly when the run ended without an error.\<close>

theorem deregistration_needs_confirmation:
  assumes "deregister_main env_of args c = (status, Some r)"
  shows "(status = 0 \<longleftrightarrow> dr_error r = None)
    \<and> (tx \<in> set (dr_sent r) \<longrightarrow> dr_sent r = [tx] \<and> (\<exists>s\<in>set args. flag_name s = Some ''confirm'')
      \<and> (\<exists>o' timeout rest priv addr owner agent_id client c1 c2 a acct. let env = env_of timeout in
          parse_flags deregister_flags args deregister_defaults = Inr ((o', timeout), rest)
        \<and> load_key (re_derive_address env) (re_key_variable env) (re_read_file env) (do_key_file o') = Inr (Some (priv, addr))
        \<and> re_parse_address env addr = Inr owner
        \<and> (if trim_space (do_agent_id o') = [] then agent_id = re_agent_id env owner
           else agent_id = trim_space (do_agent_id o') \<and> re_parse_agent_id env agent_id = Inr owner)
        \<and> dial_chain env (do_grpc_addr o') (do_rpc_url o') = Inr client
        \<and> agent_by_id (re_codecs env) client agent_id c = (c1, Inr (Some a))
        \<and> ca_owner a = addr \<and> ca_status a \<noteq> re_deregistering env
        \<and> re_validate env (Msg_Deregister addr agent_id) = None
        \<and> query_account (re_codecs env) client addr c1 = (c2, Inr acct)
        \<and> sign_tx (re_tx env) priv (do_chain_id o') acct [Msg_Deregister addr agent_id] (dereg_fee o') = Inr tx))"
proof -
  obtain o' timeout rest where flags: "parse_flags deregister_flags args deregister_defaults = Inr ((o', timeout), rest)"
      and r: "r = agent_deregister (env_of timeout) o' c" "status = (if dr_error r = None then 0 else 1)"
    using assms by (auto simp: deregister_main_def Let_def split: sum.splits prod.splits)
  show ?thesis
  proof (intro conjI impI)
    assume "tx \<in> set (dr_sent r)"
    then have sent: "tx \<in> set (dr_sent (agent_deregister (env_of timeout) o' c))" by (simp add: r(1))
    obtain priv addr owner agent_id client c1 c2 a acct
      where one: "dr_sent (agent_deregister (env_of timeout) o' c) = [tx]" and confirmed: "do_confirm o'"
        and owner: "load_owner (env_of timeout) (do_key_file o') = Inr (priv, addr, owner)"
        and agent: "resolve_agent_id (env_of timeout) (do_agent_id o') addr owner = Inr agent_id"
        and client: "dial_chain (env_of timeout) (do_grpc_addr o') (do_rpc_url o') = Inr client"
        and found: "agent_by_id (re_codecs (env_of timeout)) client agent_id c = (c1, Inr (Some a))"
        and mine: "ca_owner a = addr" "ca_status a \<noteq> re_deregistering (env_of timeout)"
        and msg: "re_validate (env_of timeout) (Msg_Deregister addr agent_id) = None"
          "sign_tx (re_tx (env_of timeout)) priv (do_chain_id o') acct [Msg_Deregister addr agent_id] (dereg_fee o') = Inr tx"
        and account: "query_account (re_codecs (env_of timeout)) client addr c1 = (c2, Inr acct)"
      by (rule agent_deregister_sent [OF sent])
    show "dr_sent r = [tx]" by (simp add: r(1) one)
    show "\<exists>s\<in>set args. flag_name s = Some ''confirm''" by (rule confirmed_by_flag [OF flags confirmed])
    show "\<exists>o' timeout rest priv addr owner agent_id client c1 c2 a acct. let env = env_of timeout in
          parse_flags deregister_flags args deregister_defaults = Inr ((o', timeout), rest)
        \<and> load_key (re_derive_address env) (re_key_variable env) (re_read_file env) (do_key_file o') = Inr (Some (priv, addr))
        \<and> re_parse_address env addr = Inr owner
        \<and> (if trim_space (do_agent_id o') = [] then agent_id = re_agent_id env owner
           else agent_id = trim_space (do_agent_id o') \<and> re_parse_agent_id env agent_id = Inr owner)
        \<and> dial_chain env (do_grpc_addr o') (do_rpc_url o') = Inr client
        \<and> agent_by_id (re_codecs env) client agent_id c = (c1, Inr (Some a))
        \<and> ca_owner a = addr \<and> ca_status a \<noteq> re_deregistering env
        \<and> re_validate env (Msg_Deregister addr agent_id) = None
        \<and> query_account (re_codecs env) client addr c1 = (c2, Inr acct)
        \<and> sign_tx (re_tx env) priv (do_chain_id o') acct [Msg_Deregister addr agent_id] (dereg_fee o') = Inr tx"
      using owner agent
      by (intro exI [of _ o'] exI [of _ timeout] exI [of _ rest] exI [of _ priv] exI [of _ addr] exI [of _ owner]
          exI [of _ agent_id] exI [of _ client] exI [of _ c1] exI [of _ c2] exI [of _ a] exI [of _ acct])
        (auto simp: Let_def flags client found account mine msg load_owner_Inr resolve_agent_id_Inr)
  qed (simp_all add: r(2))
qed

definition demo_args :: "string list" where
  "demo_args =
     [''-chain-id'', ''c'', ''-grpc=g'', ''--confirm'']"

lemma demo_args_parse:
  "parse_flags deregister_flags demo_args deregister_defaults = Inr ((demo_dereg_opts, 90 * go_second), [])"
  by (simp add: demo_args_def parse_flags.simps parse_one_def flag_body_def split_flag_def deregister_flags_def
      text_flag_def bool_flag_def parse_bool_def set_flag_def deregister_defaults_def default_fee_denom_def
      default_fee_amount_def default_fee_gas_limit_def demo_dereg_opts_def)

lemma demo_main:
  "deregister_main (\<lambda>_. dereg_env) demo_args (Some demo_record) =
     (if dr_error (agent_deregister dereg_env demo_dereg_opts (Some demo_record)) = None then 0 else 1,
      Some (agent_deregister dereg_env demo_dereg_opts (Some demo_record)))"
  by (simp add: deregister_main_def demo_args_parse Let_def)

lemma deregistration_needs_confirmation_witness:
  "dr_sent (agent_deregister dereg_env demo_dereg_opts (Some demo_record)) = [''tx'']
   \<and> (\<exists>s\<in>set demo_args. flag_name s = Some ''confirm'')"
  using deregistration_needs_confirmation [OF demo_main, of "''tx''"] demo_dereg_run by simp

end
