(* ===== verification/Server_Run.thy ===== *)
theory Server_Run
  imports Agent_Boot Command_Line
begin

text \<open>
  The life of the agent's process: the goroutines of \<open>StartFullFor\<close> and \<open>serve\<close>
  (\<open>internal/a2aserver/server.go\<close>) as a step relation, and \<open>main\<close> of \<open>cmd/svpchain-evm-agent\<close> from the
  arguments to the exit status. A step is one goroutine's next communication, so every interleaving is
  a run; what the operating system does (signals, the results of listening and accepting) are steps of
  their own.
\<close>

section \<open>The goroutines\<close>

record server_params =
  sp_name :: string
  sp_listen_addr :: string
  sp_public_url :: string
  sp_card_path :: string

datatype serving = Serve_Starting | Serve_Accepting | Serve_Ended "string option"

datatype closer = No_Closer | Closer_Waiting | Closer_Ended

datatype selecting = Selecting | Draining "string option" | Returned "string option"

text \<open>Both channels hold at most one error, so that their senders never wait.\<close>

record server_state =
  rn_signalled :: bool
  rn_cancelled :: bool
  rn_cache_ended :: bool
  rn_cache_err :: "string option option"
  rn_serving :: serving
  rn_serve_err :: "string option option"
  rn_closer :: closer
  rn_closed :: bool
  rn_main :: selecting
  rn_stderr :: string

definition server_start :: server_state where
  "server_start =
     \<lparr>rn_signalled = False, rn_cancelled = False, rn_cache_ended = False, rn_cache_err = None,
      rn_serving = Serve_Starting, rn_serve_err = None, rn_closer = No_Closer, rn_closed = False,
      rn_main = Selecting, rn_stderr = []\<rparr>"

text \<open>The context of the server ends with that of the process, or when it is cancelled.\<close>

definition ctx_done :: "server_state \<Rightarrow> bool" where
  "ctx_done s \<longleftrightarrow> rn_signalled s \<or> rn_cancelled s"

text \<open>\<open>App.Run\<close>: it waits, or returns.\<close>

definition app_run :: "bool \<Rightarrow> string option option" where
  "app_run stopping = (if stopping then Some None else None)"

definition announcement :: "server_params \<Rightarrow> string" where
  "announcement p =
     sp_name p @ '': listening on '' @ sp_listen_addr p @ ''\<newline>'' @
     sp_name p @ '': agent card at '' @ sp_public_url p @ sp_card_path p @ ''\<newline>''"

definition serve_returns :: "string option \<Rightarrow> server_state \<Rightarrow> server_state" where
  "serve_returns r s = s\<lparr>rn_serving := Serve_Ended r, rn_serve_err := Some r\<rparr>"

datatype server_event =
    Signal
  | Cache_Ends
  | Listen_Fails string
  | Listen_Ok
  | Accept_Fails string
  | Serve_Closes
  | Closer_Runs
  | Main_Takes_Cache
  | Main_Drains
  | Main_Takes_Serve

text \<open>A closed server reports \<open>ErrServerClosed\<close> and no other failure.\<close>

inductive server_step :: "server_params \<Rightarrow> server_state \<Rightarrow> server_event \<Rightarrow> server_state \<Rightarrow> bool" for p where
  signal: "\<not> rn_signalled s \<Longrightarrow> server_step p s Signal (s\<lparr>rn_signalled := True\<rparr>)"
| cache_ends: "\<not> rn_cache_ended s \<Longrightarrow> app_run (ctx_done s) = Some r \<Longrightarrow>
    server_step p s Cache_Ends (s\<lparr>rn_cache_ended := True, rn_cache_err := Some r\<rparr>)"
| listen_fails: "rn_serving s = Serve_Starting \<Longrightarrow>
    server_step p s (Listen_Fails e) (serve_returns (serve (sp_listen_addr p) (Some e) Server_Closed) s)"
| listen_ok: "rn_serving s = Serve_Starting \<Longrightarrow>
    server_step p s Listen_Ok (s\<lparr>rn_serving := Serve_Accepting, rn_closer := Closer_Waiting,
      rn_stderr := rn_stderr s @ announcement p\<rparr>)"
| accept_fails: "rn_serving s = Serve_Accepting \<Longrightarrow> \<not> rn_closed s \<Longrightarrow>
    server_step p s (Accept_Fails e) (serve_returns (serve (sp_listen_addr p) None (Serve_Failed e)) s)"
| serve_closes: "rn_serving s = Serve_Accepting \<Longrightarrow> rn_closed s \<Longrightarrow>
    server_step p s Serve_Closes (serve_returns (serve (sp_listen_addr p) None Server_Closed) s)"
| closer_runs: "rn_closer s = Closer_Waiting \<Longrightarrow> ctx_done s \<Longrightarrow>
    server_step p s Closer_Runs (s\<lparr>rn_closer := Closer_Ended, rn_closed := True\<rparr>)"
| main_takes_cache: "rn_main s = Selecting \<Longrightarrow> rn_cache_err s = Some r \<Longrightarrow>
    server_step p s Main_Takes_Cache (s\<lparr>rn_cache_err := None, rn_cancelled := True, rn_main := Draining r\<rparr>)"
| main_drains: "rn_main s = Draining r \<Longrightarrow> rn_serve_err s = Some r' \<Longrightarrow>
    server_step p s Main_Drains (s\<lparr>rn_serve_err := None, rn_main := Returned (start_full (Cache_Stopped r))\<rparr>)"
| main_takes_serve: "rn_main s = Selecting \<Longrightarrow> rn_serve_err s = Some r \<Longrightarrow>
    server_step p s Main_Takes_Serve (s\<lparr>rn_serve_err := None, rn_cancelled := True,
      rn_main := Returned (start_full (Serve_Stopped r))\<rparr>)"

inductive_simps server_step_simps:
  "server_step p s Signal s'" "server_step p s Cache_Ends s'" "server_step p s (Listen_Fails e) s'"
  "server_step p s Listen_Ok s'" "server_step p s (Accept_Fails e) s'" "server_step p s Serve_Closes s'"
  "server_step p s Closer_Runs s'" "server_step p s Main_Takes_Cache s'" "server_step p s Main_Drains s'"
  "server_step p s Main_Takes_Serve s'"

inductive server_runs :: "server_params \<Rightarrow> server_event list \<Rightarrow> server_state \<Rightarrow> bool" for p where
  started: "server_runs p [] server_start"
| went_on: "server_runs p evs s \<Longrightarrow> server_step p s ev s' \<Longrightarrow> server_runs p (evs @ [ev]) s'"

text \<open>Steps the program takes by itself, unlike a signal or a failing listener.\<close>

fun of_program :: "server_event \<Rightarrow> bool" where
  "of_program Signal \<longleftrightarrow> False"
| "of_program (Accept_Fails _) \<longleftrightarrow> False"
| "of_program _ \<longleftrightarrow> True"

section \<open>Invariants\<close>

lemmas server_run_defs = app_run_def ctx_done_def serve_returns_def serve_def

text \<open>What the state tells of the run so far, and how the goroutines' states belong together.\<close>

definition failed_with :: "server_params \<Rightarrow> server_event list \<Rightarrow> string \<Rightarrow> bool" where
  "failed_with p evs e \<longleftrightarrow>
     (\<exists>e'. Listen_Fails e' \<in> set evs \<and> e = ''listen '' @ sp_listen_addr p @ '': '' @ e') \<or> Accept_Fails e \<in> set evs"

definition main_knows :: "server_state \<Rightarrow> bool" where
  "main_knows s \<longleftrightarrow>
     (case rn_main s of
        Selecting \<Rightarrow> \<not> rn_cancelled s
      | Draining r \<Rightarrow> r = None \<and> rn_cancelled s \<and> rn_signalled s \<and> rn_cache_ended s
      | Returned r \<Rightarrow> rn_cancelled s \<and> rn_serve_err s = None
          \<and> (\<exists>r'. rn_serving s = Serve_Ended r' \<and> (r = r' \<or> r = None \<and> rn_signalled s)))"

definition server_ok :: "server_params \<Rightarrow> server_event list \<Rightarrow> server_state \<Rightarrow> bool" where
  "server_ok p evs s \<longleftrightarrow>
     main_knows s
     \<and> (rn_signalled s \<longleftrightarrow> Signal \<in> set evs)
     \<and> (rn_cache_err s = None \<or> rn_cache_err s = Some None)
     \<and> (rn_cache_ended s \<longrightarrow> ctx_done s)
     \<and> (rn_cache_err s \<noteq> None \<longrightarrow> rn_cache_ended s)
     \<and> (rn_serve_err s = (case (rn_main s, rn_serving s) of
          (Returned _, _) \<Rightarrow> None | (_, Serve_Ended r) \<Rightarrow> Some r | _ \<Rightarrow> None))
     \<and> (case rn_serving s of
          Serve_Starting \<Rightarrow> rn_closer s = No_Closer
        | Serve_Accepting \<Rightarrow> rn_closer s \<noteq> No_Closer
        | Serve_Ended None \<Rightarrow> rn_signalled s
        | Serve_Ended (Some _) \<Rightarrow> True)
     \<and> (\<forall>e. failed_with p evs e \<longleftrightarrow> rn_serving s = Serve_Ended (Some e))
     \<and> (rn_closed s \<longleftrightarrow> rn_closer s = Closer_Ended)
     \<and> (rn_closed s \<longrightarrow> ctx_done s)"

lemma failed_with_snoc [simp]:
  "failed_with p (evs @ [ev]) e \<longleftrightarrow> failed_with p evs e
     \<or> (\<exists>e'. ev = Listen_Fails e' \<and> e = ''listen '' @ sp_listen_addr p @ '': '' @ e') \<or> ev = Accept_Fails e"
  by (auto simp: failed_with_def)

lemma failed_with_Nil [simp]: "\<not> failed_with p [] e"
  by (simp add: failed_with_def)

lemma server_step_ok:
  assumes "server_step p s ev s'" and "server_ok p evs s"
  shows "server_ok p (evs @ [ev]) s'"
  using assms
  by (cases rule: server_step.cases)
    (auto simp: server_ok_def main_knows_def server_run_defs
      split: if_splits selecting.splits serving.splits option.splits)

lemma server_runs_ok: "server_runs p evs s \<Longrightarrow> server_ok p evs s"
proof (induction rule: server_runs.induct)
  case started
  show ?case by (simp add: server_ok_def server_start_def main_knows_def ctx_done_def)
qed (rule server_step_ok)

text \<open>How much is left to do, at most.\<close>

definition work_left :: "server_state \<Rightarrow> nat" where
  "work_left s =
     (if rn_signalled s then 0 else 1) + (if rn_cache_ended s then 0 else 1)
     + (case rn_serving s of Serve_Starting \<Rightarrow> 3 | Serve_Accepting \<Rightarrow> 1 | Serve_Ended _ \<Rightarrow> 0)
     + (if rn_closer s = Closer_Waiting then 1 else 0)
     + (case rn_main s of Selecting \<Rightarrow> 2 | Draining _ \<Rightarrow> 1 | Returned _ \<Rightarrow> 0)"

lemma server_step_works:
  assumes "server_step p s ev s'"
  shows "work_left s' < work_left s"
  using assms by (cases rule: server_step.cases) (auto simp: work_left_def serve_returns_def)

lemma server_runs_bounded: "server_runs p evs s \<Longrightarrow> length evs + work_left s \<le> 7"
proof (induction rule: server_runs.induct)
  case started
  show ?case by (simp add: work_left_def server_start_def)
next
  case (went_on evs s ev s')
  with server_step_works [OF went_on(2)] show ?case by simp
qed

text \<open>The two states of rest: the agent serves, or nothing of it is left.\<close>

definition serving_quietly :: "server_state \<Rightarrow> bool" where
  "serving_quietly s \<longleftrightarrow>
     rn_serving s = Serve_Accepting \<and> rn_main s = Selecting \<and> \<not> rn_signalled s \<and> \<not> rn_closed s
     \<and> \<not> rn_cache_ended s"

definition all_ended :: "server_state \<Rightarrow> bool" where
  "all_ended s \<longleftrightarrow>
     (\<exists>r. rn_main s = Returned r) \<and> (\<exists>r. rn_serving s = Serve_Ended r) \<and> rn_cache_ended s
     \<and> rn_closer s \<noteq> Closer_Waiting"

definition moves_on :: "server_params \<Rightarrow> server_state \<Rightarrow> bool" where
  "moves_on p s \<longleftrightarrow> (\<exists>ev s'. of_program ev \<and> server_step p s ev s')"

lemma moves_onI: "server_step p s ev s' \<Longrightarrow> of_program ev \<Longrightarrow> moves_on p s"
  unfolding moves_on_def by blast

lemma server_progress:
  assumes "server_ok p evs s" and stuck: "\<not> moves_on p s"
  shows "serving_quietly s \<or> all_ended s"
proof -
  have step: False if "server_step p s ev s'" and "of_program ev" for ev s'
    using stuck moves_onI [OF that] by blast
  have cache: "rn_cache_ended s \<longleftrightarrow> ctx_done s"
    using assms(1) step [OF cache_ends [of s None p]] by (auto simp: server_ok_def app_run_def)
  have closer: "rn_closer s \<noteq> Closer_Waiting \<or> \<not> ctx_done s" using step [OF closer_runs [of s p]] by auto
  show ?thesis
  proof (cases "rn_serving s")
    case Serve_Starting
    then show ?thesis using step [OF listen_ok [of s p]] by simp
  next
    case Serve_Accepting
    then have "\<not> rn_closed s" using step [OF serve_closes [of s p]] by auto
    with Serve_Accepting assms(1) closer have "\<not> ctx_done s" by (cases "rn_closer s") (auto simp: server_ok_def)
    with Serve_Accepting \<open>\<not> rn_closed s\<close> assms(1) cache show ?thesis
      by (auto simp: server_ok_def serving_quietly_def main_knows_def ctx_done_def split: selecting.splits)
  next
    case (Serve_Ended r)
    have "\<exists>r'. rn_main s = Returned r'"
      using Serve_Ended assms(1) step [OF main_takes_serve [of s _ p]] step [OF main_drains [of s _ _ p]]
      by (cases "rn_main s") (auto simp: server_ok_def)
    then show ?thesis
      using Serve_Ended assms(1) cache closer
      by (auto simp: server_ok_def all_ended_def main_knows_def ctx_done_def)
  qed
qed

section \<open>The process\<close>

definition agent_flags :: "(string \<times> string flag) list" where
  "agent_flags = [(''config'', text_flag (\<lambda>v _. v))]"

definition agent_server :: "string \<Rightarrow> config \<Rightarrow> ('w, 'sess, 'l, 'tx) agent \<Rightarrow> server_params" where
  "agent_server known_path cfg ag =
     \<lparr>sp_name = ac_name (ag_card ag), sp_listen_addr = cf_listen_addr cfg, sp_public_url = cf_public_url cfg,
      sp_card_path = known_path\<rparr>"

fun config_error_text :: "config_error \<Rightarrow> string" where
  "config_error_text (Decode_Toml path e) = ''decode TOML '' @ path @ '': '' @ e"
| "config_error_text (Required setting) = setting @ '' is required''"

fun registry_error_text :: "registry_error \<Rightarrow> string" where
  "registry_error_text (Duplicate_Op tool) = ''toolbridge: duplicate tool '' @ go_quote tool"

fun boot_error_text :: "boot_error \<Rightarrow> string" where
  "boot_error_text Config_Path_Required = ''-config is required''"
| "boot_error_text (Config_Failed e) = config_error_text e"
| "boot_error_text (Dial_Failed e) = ''dial EVM RPC: '' @ e"
| "boot_error_text (Register_Failed e) = registry_error_text e"
| "boot_error_text (Register_Panic e) = registry_error_text e"
| "boot_error_text (Mcp_Failed e) = mcp_error_text e"

text \<open>How the process ends: in \<open>flag.Parse\<close>, by a panic, or with what \<open>run\<close> returns.\<close>

datatype process_end = Usage_Shown flag_error | Panicked registry_error | Run_Returned "string option"

fun exit_status :: "process_end \<Rightarrow> nat" where
  "exit_status (Usage_Shown e) = usage_status e"
| "exit_status (Panicked _) = 2"
| "exit_status (Run_Returned None) = 0"
| "exit_status (Run_Returned (Some _)) = 1"

fun last_words :: "process_end \<Rightarrow> string option" where
  "last_words (Run_Returned (Some e)) = Some (''svpchain-evm-agent: '' @ e @ ''\<newline>'')"
| "last_words _ = None"

fun boot_end :: "boot_error \<Rightarrow> process_end" where
  "boot_end (Register_Panic e) = Panicked e"
| "boot_end e = Run_Returned (Some (boot_error_text e))"

inductive agent_main ::
    "('w, 'sess, 'l, 'tx) agent_deps \<Rightarrow> string \<Rightarrow> string list \<Rightarrow> 'w \<Rightarrow> server_event list \<Rightarrow> process_end \<Rightarrow> bool"
  for deps known_path args w where
  bad_flags: "parse_flags agent_flags args [] = Inl e \<Longrightarrow>
    agent_main deps known_path args w [] (Usage_Shown e)"
| boot_fails: "parse_flags agent_flags args [] = Inr (path, rest) \<Longrightarrow> boot deps path w = (w', Inl e) \<Longrightarrow>
    agent_main deps known_path args w [] (boot_end e)"
| serves: "parse_flags agent_flags args [] = Inr (path, rest) \<Longrightarrow> boot deps path w = (w', Inr ag) \<Longrightarrow>
    load_config (ad_decode_file deps) path = Inr cfg \<Longrightarrow>
    server_runs (agent_server known_path cfg ag) evs s \<Longrightarrow> rn_main s = Returned r \<Longrightarrow>
    agent_main deps known_path args w evs (Run_Returned r)"

lemma server_returns:
  assumes "server_runs p evs s" and "rn_main s = Returned r"
  shows "case r of None \<Rightarrow> Signal \<in> set evs | Some e \<Rightarrow> failed_with p evs e"
  using server_runs_ok [OF assms(1)] assms(2)
  by (auto simp: server_ok_def main_knows_def split: option.splits)

lemma boot_end_returned: "(\<forall>e'. e \<noteq> Register_Panic e') \<Longrightarrow> boot_end e = Run_Returned (Some (boot_error_text e))"
  by (cases e) simp_all

lemma exit_status_cases:
  "exit_status fin = 0 \<longleftrightarrow> fin \<in> {Usage_Shown Help_Wanted, Run_Returned None}"
  "exit_status fin = 1 \<longleftrightarrow> (\<exists>e. fin = Run_Returned (Some e))"
  by (cases fin rule: exit_status.cases; simp add: usage_status_def)+

section \<open>Two runs\<close>

lemma server_runs_Nil: "server_runs p (rev []) s \<longleftrightarrow> s = server_start"
  by (subst server_runs.simps) simp

lemma server_runs_snoc:
  "server_runs p (rev (ev # evs)) s' \<longleftrightarrow> (\<exists>s. server_runs p (rev evs) s \<and> server_step p s ev s')"
  by (subst server_runs.simps) auto

lemmas run_by_steps = server_runs_snoc server_runs_Nil server_step_simps

definition demo_server :: server_params where
  "demo_server =
     \<lparr>sp_name = ''svpchain-evm-agent'', sp_listen_addr = '':8080'', sp_public_url = ''http://localhost:8080'',
      sp_card_path = ''/card''\<rparr>"

text \<open>A signal, and the orderly shutdown it sets off; a listener that cannot be had.\<close>

definition shutdown :: "server_event list" where
  "shutdown = [Listen_Ok, Signal, Cache_Ends, Main_Takes_Cache, Closer_Runs, Serve_Closes, Main_Drains]"

lemma shutdown_runs: "\<exists>s. server_runs p shutdown s \<and> rn_main s = Returned None"
proof -
  have in_reverse: "shutdown = rev [Main_Drains, Serve_Closes, Closer_Runs, Main_Takes_Cache, Cache_Ends, Signal, Listen_Ok]"
    by (simp add: shutdown_def)
  show ?thesis
    unfolding in_reverse by (simp add: run_by_steps server_start_def server_run_defs del: rev.simps)
qed

lemma refused_listener_runs:
  "\<exists>s. server_runs p [Listen_Fails ''in use'', Main_Takes_Serve] s
     \<and> rn_main s = Returned (Some (''listen '' @ sp_listen_addr p @ '': in use''))"
proof -
  have in_reverse: "[Listen_Fails ''in use'', Main_Takes_Serve] = rev [Main_Takes_Serve, Listen_Fails ''in use'']" by simp
  show ?thesis
    unfolding in_reverse by (simp add: run_by_steps server_start_def server_run_defs del: rev.simps)
qed

section \<open>Properties\<close>

text \<open>C15: Every interleaving of the server's goroutines is short, and it only comes to rest where the agent
  serves without a signal or where nothing of it is left: both goroutines and the closer have ended
  and \<open>StartFullFor\<close> has returned. So no goroutine is ever stuck, no signal is lost and no failure of
  either half leaves the other one running.\<close>

theorem server_never_stuck:
  assumes "server_runs p evs s"
  shows "length evs \<le> 7
    \<and> ((\<exists>ev s'. of_program ev \<and> server_step p s ev s') \<or> serving_quietly s \<or> all_ended s)
    \<and> (serving_quietly s \<longrightarrow> Signal \<notin> set evs \<and> (\<forall>e. \<not> failed_with p evs e))"
proof (intro conjI)
  show "length evs \<le> 7" using server_runs_bounded [OF assms] by simp
  show "(\<exists>ev s'. of_program ev \<and> server_step p s ev s') \<or> serving_quietly s \<or> all_ended s"
    using server_progress [OF server_runs_ok [OF assms]] unfolding moves_on_def by blast
  show "serving_quietly s \<longrightarrow> Signal \<notin> set evs \<and> (\<forall>e. \<not> failed_with p evs e)"
    using server_runs_ok [OF assms] by (simp add: server_ok_def serving_quietly_def)
qed

lemma server_never_stuck_witness:
  "\<exists>s. server_runs demo_server shutdown s \<and> rn_main s = Returned None
     \<and> ((\<exists>ev s'. of_program ev \<and> server_step demo_server s ev s') \<or> all_ended s)"
proof -
  obtain s where s: "server_runs demo_server shutdown s" "rn_main s = Returned None" using shutdown_runs by blast
  moreover have "\<not> serving_quietly s" using s(2) by (simp add: serving_quietly_def)
  ultimately show ?thesis using server_never_stuck [OF s(1)] by blast
qed

text \<open>C14: The process exits with status zero only when it is asked for help or a signal stops it, and it never
  panics. It exits with status one exactly when \<open>run\<close> returns an error, and then the error is either
  that of the start-up, or that of listening on the configured address, or that of accepting; the
  background goroutine never contributes one.\<close>

theorem exit_tells_why:
  assumes "agent_main deps known_path args w evs fin"
  shows "(\<forall>e. fin \<noteq> Panicked e)
    \<and> (exit_status fin = 0 \<longrightarrow> fin = Usage_Shown Help_Wanted \<or> Signal \<in> set evs)
    \<and> (exit_status fin = 1 \<longrightarrow> (\<exists>e path rest. fin = Run_Returned (Some e) \<and> parse_flags agent_flags args [] = Inr (path, rest)
        \<and> ((\<exists>be. snd (boot deps path w) = Inl be \<and> e = boot_error_text be)
         \<or> (\<exists>ag cfg. snd (boot deps path w) = Inr ag \<and> load_config (ad_decode_file deps) path = Inr cfg
              \<and> failed_with (agent_server known_path cfg ag) evs e))))"
  using assms
proof (cases rule: agent_main.cases)
  case (bad_flags e)
  then show ?thesis by (simp add: usage_status_def)
next
  case (boot_fails path rest w' e)
  then have "snd (boot deps path w) = Inl e" by simp
  moreover from this have "e \<noteq> Register_Panic e'" for e'
    using boot_never_panics [of deps path w] by auto
  ultimately show ?thesis using boot_fails by (auto simp: boot_end_returned)
next
  case (serves path rest w' ag cfg s r)
  then show ?thesis using server_returns [OF serves(5,6)] by (auto split: option.splits)
qed

definition agent_args :: "string list" where
  "agent_args = [''-config'', ''agent.toml'']"

lemma demo_args_agent: "parse_flags agent_flags agent_args [] = Inr (''agent.toml'', [])"
  by (simp add: agent_args_def parse_flags.simps parse_one_def flag_body_def split_flag_def agent_flags_def
      text_flag_def set_flag_def)

lemma demo_main_runs:
  assumes "\<exists>s. server_runs (agent_server ''/card'' (demo_cfg\<lparr>cf_public_url := ''http://localhost:8080''\<rparr>) demo_agent) evs s
      \<and> rn_main s = Returned r"
  shows "agent_main demo_deps ''/card'' agent_args () evs (Run_Returned r)"
proof -
  have "load_config (ad_decode_file demo_deps) ''agent.toml'' =
      Inr (demo_cfg\<lparr>cf_public_url := ''http://localhost:8080''\<rparr>)"
    using demo_load by (simp add: demo_deps_def)
  from serves [OF demo_args_agent demo_boot(1) this] assms show ?thesis by blast
qed

text \<open>A stop by a signal, and an address that is taken.\<close>

lemma exit_tells_why_witness:
  "exit_status (Run_Returned None) = 0 \<and> Signal \<in> set shutdown
   \<and> (\<exists>cfg. failed_with (agent_server ''/card'' cfg demo_agent) [Listen_Fails ''in use'', Main_Takes_Serve]
       ''listen :8080: in use'')"
proof -
  have stop: "agent_main demo_deps ''/card'' agent_args () shutdown (Run_Returned None)"
    by (rule demo_main_runs [OF shutdown_runs])
  have taken: "agent_main demo_deps ''/card'' agent_args () [Listen_Fails ''in use'', Main_Takes_Serve]
      (Run_Returned (Some ''listen :8080: in use''))"
    by (rule demo_main_runs) (use refused_listener_runs in \<open>force simp: agent_server_def demo_cfg_def\<close>)
  from exit_tells_why [OF taken] obtain path rest where path: "parse_flags agent_flags agent_args [] = Inr (path, rest)"
    and e: "(\<exists>be. snd (boot demo_deps path ()) = Inl be \<and> ''listen :8080: in use'' = boot_error_text be)
         \<or> (\<exists>ag cfg. snd (boot demo_deps path ()) = Inr ag \<and> load_config (ad_decode_file demo_deps) path = Inr cfg
              \<and> failed_with (agent_server ''/card'' cfg ag) [Listen_Fails ''in use'', Main_Takes_Serve]
                    ''listen :8080: in use'')"
    by auto
  have "path = ''agent.toml''" using path demo_args_agent by simp
  with e demo_boot(1) have "\<exists>cfg. failed_with (agent_server ''/card'' cfg demo_agent)
      [Listen_Fails ''in use'', Main_Takes_Serve] ''listen :8080: in use''" by auto
  then show ?thesis using exit_tells_why [OF stop] by simp
qed

end
