(* ===== verification/Spec2Isabelle.thy ===== *)
theory Spec2Isabelle
  imports Auth_System Rate_Limiter Server_Run
begin

text \<open>
  A verification development for the svpchain EVM agent, a Go service that gives a language model
  and its users the tools of a private MCP service and a relay for transactions they signed
  themselves, together with the commands by which an operator mints the agent's key, registers the
  agent on chain and removes it again. Paths are below the repository's root.

  \<^bold>\<open>The program.\<close> \<open>cmd/svpchain-evm-agent\<close> loads a configuration, wires the public tools, connects to the
  private MCP service, freezes its catalog, adds the catalog to the tool registry (but for the names
  the agent keeps for itself), builds the agent loop and serves A2A. A request is either structured, a
  JSON envelope that names a skill and a tool, or natural language. The first is dispatched by the
  registry: to \<open>list_tools\<close>, to the relay (\<open>broadcast_evm_tx\<close>, \<open>evm_tx_status\<close>) or, through a proxy, to
  the private service. The second runs the agent loop: rounds in which the model is asked over a
  stream and answers with text or with calls of read-only tools. A login by a signed challenge mints
  bearers that name a tenant; the started agent does not offer it. \<open>cmd/agent-register\<close> and
  \<open>cmd/agent-deregister\<close> share the chain client, the owner key and the transaction signer.

  \<^bold>\<open>Theories\<close>, in the order of their imports:

  \<^item> \<open>Prelude\<close>: results of Go calls as sums, Go maps as association lists with distinct keys, instants
    and durations, folds with early exit, runs of steps, and the locales of the interfaces.
  \<^item> \<open>Go_Strings\<close>, \<open>Json\<close>, \<open>Go_Duration\<close>, \<open>Go_Flags\<close>: what is used of \<open>strings\<close>, \<open>strconv\<close>, \<open>encoding/hex\<close>,
    \<open>encoding/json\<close>, \<open>flag\<close> and of \<open>time.ParseDuration\<close>, as executable functions on lists of bytes. The
    JSON parser takes fuel; the length of its input is always enough (\<open>parse_fuel\<close>). \<open>Json_Wf\<close> gives what is
    decoded a type: valid UTF-8, number literals, bounded nesting.
  \<^item> \<open>Challenge\<close>, \<open>Nonce_Store\<close>, \<open>Tenant_Store\<close>, \<open>Rate_Limiter\<close> (\<open>internal/mcp/auth\<close>): the challenge text,
    the two stores and the limiter per address, each with its invariant, the behaviour of every
    operation on every branch, and that sweeping changes no later answer.
  \<^item> \<open>Auth_Service\<close>, \<open>Auth_System\<close> (\<open>internal/agenttools/service.go\<close>, \<open>recover.go\<close>): login, relay, status
    and the replay guard; then every run of logins and sweeps, so every interleaving of callers, since
    each operation holds its store's lock.
  \<^item> \<open>Mcp_Client\<close> (\<open>internal/defimcp\<close>): sessions, the frozen catalog, the retry of safe tools and the
    reconnection. Calls that reached the service are logged in \<open>gw_log\<close>.
  \<^item> \<open>Tool_Registry\<close> (\<open>internal/toolbridge\<close>): operations by name and skill, and \<open>list_tools\<close>.
  \<^item> \<open>Llm_Core\<close>, \<open>Llm_OpenAI\<close>, \<open>Llm_Anthropic\<close> (\<open>internal/llm\<close>): requests, event streams, accumulators of
    both wire formats, error classes and retries. What is handed to the callback is a list.
  \<^item> \<open>Agent_Runner\<close> (\<open>internal/agentrunner\<close>): the rounds of an intent.
  \<^item> \<open>A2A_Server\<close> (\<open>internal/a2aserver\<close>): envelope, caller, executor, card and server; the task protocol is
    an automaton the executor's events are checked against.
  \<^item> \<open>Config\<close> (\<open>internal/config\<close>) and \<open>Agent_Boot\<close> (\<open>internal/wire\<close>, \<open>cmd/svpchain-evm-agent\<close>): start-up, and
    what one request to the started agent does to the world.
  \<^item> \<open>Chain_Client\<close>, \<open>Registration\<close> (\<open>internal/agentchain\<close>, \<open>internal/mcp/chain\<close>): queries and broadcasts over
    gRPC or RPC, the matching of fee refusals, the desired record, its drift and the messages.
  \<^item> \<open>Owner_Key\<close> (\<open>internal/owner\<close>, \<open>internal/mcp/signer\<close>, \<open>internal/mcp/payload\<close>, \<open>cmd/owner-keygen\<close>): reading
    and minting keys, and signing.
  \<^item> \<open>Register_Command\<close>, \<open>Deregister_Command\<close> (\<open>cmd/agent-register\<close>, \<open>cmd/agent-deregister\<close>): the commands
    from their options to the error they end with, their output included.
  \<^item> \<open>Command_Line\<close>: the \<open>main\<close> functions of these commands and of \<open>cmd/owner-keygen\<close>, from the arguments
    of the process to its exit status.
  \<^item> \<open>Server_Run\<close> (\<open>internal/a2aserver/server.go\<close>, \<open>cmd/svpchain-evm-agent\<close>): the goroutines of the server as a
    step relation with their channels, the signal and the listener, and \<open>main\<close> of the agent.
  \<^item> \<open>Spec2Isabelle\<close>, this theory: properties of a started agent over any run of requests, and the life
    of the process, in which requests are steps between those of the server.

  \<^bold>\<open>What the properties show.\<close> Safety over runs: a bearer rests on a signature and a nonce buys one login;
  intents only read; the private service is only sent tools of the frozen catalog, and the node only
  transactions that were asked for. Equivalences: what is listed is what is dispatched, streams are
  put together as their reference definitions say, a reconnection needs the same catalog. Refinement:
  what the registration commands send, applied to the registry (\<open>registry_apply\<close>), brings it to the
  state asked for, after which the same command sends nothing. Round trips: challenges, replies,
  minted keys, durations. Bounds and termination: the limiter's windows, the number of requests to the
  model. Liveness: no interleaving of the server's goroutines leaves one of them stuck, and a task ends
  with its answer. Types: what a request decodes to. Errors: start-up, exit and broadcasts, on every
  branch.

  \<^bold>\<open>Bounds.\<close> Loops of the source that are bounded are structural here: 8 rounds of an intent
  (\<open>max_rounds\<close>), 2 retries of a round (\<open>llm_max_retries\<close>), lines of a stream shorter than 4 MiB
  (\<open>max_line\<close>). Clock readings are arguments, so every clock is covered, and randomness is an argument
  that may fail.

  \<^bold>\<open>Parameters.\<close> Code that is not the repository's is an argument: Keccak, key recovery and addresses
  (\<open>wallet\<close>), the EVM node and transaction codec, the MCP SDK, the HTTP transport of the model, the
  context and the timer, TOML, reflected schemas, the A2A library, protobuf codecs, bech32, the
  registry's ids, the coins and integers of the Cosmos SDK, the curve of the owner key. The world such
  code works on is a type variable. What a theorem needs of it is a hypothesis by name: \<open>truthful\<close> (a
  lookup answers from the registry), \<open>reads_back\<close> (the messages of a transaction can be read off it).

  \<^bold>\<open>Not modelled.\<close> \<open>internal/mcp/mcpcodec\<close> only registers the SDK's types. What an operator's
  command prints about its error and its usage is left as the error value, and a deadline is an
  argument of the environment. A signal during start-up is part of what the dialer and the connection
  answer. Closing of connections has no
  result the program uses. Wording of decoder errors is a parameter. The stores' locks appear as the
  atomicity of each operation; data races are not modelled. The branch of the executor
  that reports an answer which cannot be encoded is left out: answers are JSON values already.
\<close>

section \<open>From the start to any run of requests\<close>

text \<open>The names of the agent's own login, relay and status tools.\<close>

definition own_tools :: "string set" where
  "own_tools = {''auth_challenge'', ''auth_verify'', ''broadcast_evm_tx'', ''evm_tx_status''}"

lemma reachable_not_own: "reachable_tool n \<Longrightarrow> n \<notin> own_tools"
proof -
  have "list_all (\<lambda>n. \<not> reachable_tool n) [''auth_challenge'', ''auth_verify'', ''broadcast_evm_tx'', ''evm_tx_status'']"
    by code_simp
  then show "reachable_tool n \<Longrightarrow> n \<notin> own_tools" by (auto simp: own_tools_def)
qed

text \<open>The world after a run of requests to a started agent.\<close>

definition served ::
    "('w, 'sess, 'l, 'tx) agent_deps \<Rightarrow> ('w, 'sess, 'l, 'tx) agent \<Rightarrow> 'l \<Rightarrow> arrival list \<Rightarrow>
     ('w, 'sess, 'l, 'tx) agent_world" where
  "served deps ag l reqs =
     run (serve_request deps ag) reqs \<lparr>aw_gateway = ag_gateway ag, aw_llm = l, aw_submitted = []\<rparr>"

text \<open>C4: Over any run of requests, structured or in natural language, the catalog stays the one frozen at
  start-up and the private service is only ever sent tools of it, never its login, relay or status
  tools.\<close>

theorem requests_stay_confined:
  assumes "boot deps path w = (w', Inr ag)"
  shows "cl_tools (gw_client (aw_gateway (served deps ag l reqs))) = cl_tools (gw_client (ag_gateway ag))
    \<and> set (sent_calls (aw_gateway (served deps ag l reqs))) \<subseteq> catalog_names (ag_gateway ag) - own_tools"
proof -
  obtain node llm tools where wired: "wired deps node (catalog_names (ag_gateway ag)) (ex_registry (ag_executor ag))"
    and intent: "ex_intent (ag_executor ag) = Some (agent_intent deps llm tools)"
    and log: "gw_log (ag_gateway ag) = []"
    by (rule boot_wired [OF assms])
  have start: "sent_calls (ag_gateway ag) = []" by (simp add: sent_calls_def log)
  obtain cs where cs: "aw_gateway (served deps ag l reqs) = run (\<lambda>(n, a). call_state (ad_sdk deps) n a) cs (ag_gateway ag)"
      "list_all reachable_tool (map fst cs)"
    using serve_run_calls [OF wired intent, of reqs "\<lparr>aw_gateway = ag_gateway ag, aw_llm = l, aw_submitted = []\<rparr>"]
    unfolding served_def by auto
  obtain ns where ns: "sent_calls (aw_gateway (served deps ag l reqs)) = ns"
      "set ns \<subseteq> catalog_names (ag_gateway ag) \<inter> set (map fst cs)"
    using gw.run_sent_names [of "ad_sdk deps" cs "ag_gateway ag"] start
    unfolding cs(1) by force
  have "set (map fst cs) \<inter> own_tools = {}"
    using cs(2) reachable_not_own by (fastforce simp: list_all_iff)
  with ns show ?thesis
    using call_run_tools [of "ad_sdk deps" cs "ag_gateway ag"] unfolding cs(1) by blast
qed

definition price_request :: arrival where
  "price_request =
     (0, \<lparr>xc_message = Some [Some (Text_Part (json_text (J_Obj
            [(''skill'', J_Str skill_evm), (''tool'', J_Str ''get_price'')])))],
          xc_stored_task = False, xc_params = None\<rparr>, \<lambda>_. True)"

definition relay_request :: arrival where
  "relay_request =
     (0, \<lparr>xc_message = Some [Some (Text_Part (json_text (J_Obj
            [(''skill'', J_Str skill_evm), (''tool'', J_Str ''broadcast_evm_tx''),
             (''args'', J_Obj [(''client_id'', J_Str ''c''), (''signed_tx'', J_Obj [(''raw_tx_hex'', J_Str ''ab'')])])])))],
          xc_stored_task = False, xc_params = None\<rparr>, \<lambda>_. True)"

lemma demo_trace:
  "sent_calls (aw_gateway (served demo_deps demo_agent 0 [relay_request, price_request])) = [''get_price'']
   \<and> aw_submitted (served demo_deps demo_agent 0 [relay_request, price_request]) = [''ab'']"
  by code_simp

lemma requests_stay_confined_witness:
  "sent_calls (aw_gateway (served demo_deps demo_agent 0 [relay_request, price_request])) = [''get_price''] \<and>
   set (sent_calls (aw_gateway (served demo_deps demo_agent 0 [relay_request, price_request]))) \<subseteq>
     {''get_price''} - own_tools"
  by (rule conjI [OF conjunct1 [OF demo_trace]
      conjunct2 [OF requests_stay_confined [OF demo_boot(1), unfolded demo_catalog]]])

text \<open>C5: The node is only handed transactions that a structured request for the relay carried, under a
  client id, and at most one per such request.\<close>

theorem relays_only_what_was_asked:
  assumes "boot deps path w = (w', Inr ag)"
  shows "length (aw_submitted (served deps ag l reqs)) \<le> length (filter (\<lambda>a. \<exists>inp. asks_relay a inp) reqs)
    \<and> (\<exists>cfg node. load_config (ad_decode_file deps) path = Inr cfg \<and> ad_dial deps (cf_evm_rpc_url cfg) = Inr node
        \<and> (\<forall>tx\<in>set (aw_submitted (served deps ag l reqs)). \<exists>a\<in>set reqs. \<exists>inp v. asks_relay a inp
             \<and> bindE (ec_hex_decode (node v) (bi_raw_tx_hex inp)) (ec_unmarshal_tx (node v)) = Inr tx))"
proof -
  obtain node cfg llm tools where wired: "wired deps node (catalog_names (ag_gateway ag)) (ex_registry (ag_executor ag))"
    and cfg: "load_config (ad_decode_file deps) path = Inr cfg" "ad_dial deps (cf_evm_rpc_url cfg) = Inr node"
    and intent: "ex_intent (ag_executor ag) = Some (agent_intent deps llm tools)"
    by (rule boot_wired [OF assms])
  from serve_run_relays [OF wired intent, of reqs "\<lparr>aw_gateway = ag_gateway ag, aw_llm = l, aw_submitted = []\<rparr>"] cfg
  show ?thesis unfolding served_def by force
qed

lemma relays_only_what_was_asked_witness:
  "aw_submitted (served demo_deps demo_agent 0 [relay_request, price_request]) = [''ab''] \<and>
   length (aw_submitted (served demo_deps demo_agent 0 [relay_request, price_request])) \<le>
     length (filter (\<lambda>a. \<exists>inp. asks_relay a inp) [relay_request, price_request])"
  by (rule conjI [OF conjunct2 [OF demo_trace] conjunct1 [OF relays_only_what_was_asked [OF demo_boot(1)]]])

text \<open>C6: A request speaks for a tenant only through a bearer, that of its Authorization header or, when
  there is none, of its envelope; and then it speaks for an owner who signed the challenge the
  bearer was given for, over any history of logins and sweeps.\<close>

theorem request_tenant_has_signed:
  assumes "ex_authr ex = Some \<lparr>ar_tenants = Some (sv_tenants (run (auth_step w) es (initial_service chain_id)))\<rparr>"
    and "cx_tenant (request_ctx ex now xc req) = Some t"
  shows "proved w (initial_service chain_id) es (tn_owner t)
    \<and> (\<exists>rec. lookup_by_bearer now (sv_tenants (run (auth_step w) es (initial_service chain_id)))
          (if bearer_from_header (Some xc) = [] then rq_bearer req else bearer_from_header (Some xc)) = Inr rec
        \<and> t = \<lparr>tn_id = tr_tenant_id rec, tn_owner = tr_owner rec\<rparr>)"
proof -
  let ?ts = "sv_tenants (run (auth_step w) es (initial_service chain_id))"
  let ?bearer = "if bearer_from_header (Some xc) = [] then rq_bearer req else bearer_from_header (Some xc)"
  obtain rec where rec: "lookup_by_bearer now ?ts ?bearer = Inr rec"
      "t = \<lparr>tn_id = tr_tenant_id rec, tn_owner = tr_owner rec\<rparr>"
    using assms(2) unfolding request_ctx_def assms(1)
    by (auto simp: attach_def Let_def split: if_splits sum.splits)
  then obtain tid where "map_of (ts_by_tenant ?ts) tid = Some rec" by (auto simp: lookup_Inr_iff)
  then have "proved w (initial_service chain_id) es (tr_owner rec)"
    by (rule tenant_proved [rotated 3])
      (simp_all add: initial_service_ok,
       simp_all add: initial_service_def new_service_def new_nonce_store_def new_tenant_store_def)
  with rec show ?thesis by auto
qed

definition bearer_executor :: "nat executor" where
  "bearer_executor = meta_executor\<lparr>ex_authr := Some \<lparr>ar_tenants =
     Some (sv_tenants (run (auth_step demo_wallet) demo_events (initial_service ''svp-1'')))\<rparr>\<rparr>"

definition bearer_request :: exec_ctx where
  "bearer_request = meta_request\<lparr>xc_params :=
     Some (\<lambda>_. Some [''Bearer '' @ hex_encode (replicate 32 CHR 0x07)])\<rparr>"

lemma bearer_header: "bearer_from_header (Some bearer_request) = hex_encode (replicate 32 CHR 0x07)"
  by code_simp

lemma request_tenant_has_signed_witness:
  "proved demo_wallet (initial_service ''svp-1'') demo_events ''AAA''"
proof -
  have "hex_encode (replicate 32 (CHR 0x07)) \<noteq> []"
    using length_hex_encode [of "replicate 32 (CHR 0x07)"] by (intro notI) simp
  then have "cx_tenant (request_ctx bearer_executor 400 bearer_request meta_named) =
      Some \<lparr>tn_id = ''auto-0707070707070707'', tn_owner = ''AAA''\<rparr>"
    using demo_login by (simp add: request_ctx_def bearer_executor_def attach_def bearer_header)
  from request_tenant_has_signed [OF _ this, of demo_wallet demo_events "''svp-1''"]
  show ?thesis by (simp add: bearer_executor_def)
qed

end
